(* ===== verification/Prelude.thy ===== *)
theory Prelude
  imports Main "HOL-Library.Word" "HOL-Library.List_Lexorder" "HOL-Library.Sublist"
begin

text \<open>
  Shared vocabulary of the development: the result type that carries every
  panic and every \<open>anyhow\<close> error of the Rust sources as a value, byte
  strings, the big- and little-endian codecs of Rust's integer types, the
  bytewise (lexicographic) order RocksDB iterates in, UTF-8 validity and
  checked integer conversions.

  Machine integers that end up in keys are words: \<open>i64\<close> and \<open>u64\<close> are both
  \<open>64 word\<close>, read with \<^const>\<open>sint\<close> and \<^const>\<open>uint\<close>. Arithmetic that
  the sources perform with \<open>checked_*\<close> operations is modelled on \<^typ>\<open>int\<close>
  with the range test written out.
\<close>

unbundle bit_operations_syntax

section \<open>Collections of facts\<close>

named_theorems enc_defs \<open>definitions of key encoders, unfolded together\<close>
named_theorems dec_defs \<open>definitions of key decoders, unfolded together\<close>
named_theorems res_simps \<open>inversion of successful results\<close>

section \<open>Results\<close>

text \<open>
  \<open>PanicKeyLen\<close> is the panic of \<open>assert_key_component_len\<close>: encoder, component,
  actual and expected length. \<open>Panic\<close> is any other panic (\<open>assert!\<close>,
  \<open>expect\<close>, slicing out of range), \<open>Bail\<close> an \<open>anyhow\<close> error.
\<close>

datatype failure =
    PanicKeyLen string string nat nat
  | Panic string
  | Bail string

type_synonym 'a res = "failure + 'a"

definition rbind :: "'a res \<Rightarrow> ('a \<Rightarrow> 'b res) \<Rightarrow> 'b res" where
  "rbind m f = (case m of Inl e \<Rightarrow> Inl e | Inr a \<Rightarrow> f a)"

definition ensure :: "bool \<Rightarrow> failure \<Rightarrow> unit res" where
  "ensure c e = (if c then Inr () else Inl e)"

definition ok_or :: "'a option \<Rightarrow> failure \<Rightarrow> 'a res" where
  "ok_or x e = (case x of None \<Rightarrow> Inl e | Some a \<Rightarrow> Inr a)"

definition is_ok :: "'a res \<Rightarrow> bool" where
  "is_ok m = (case m of Inl _ \<Rightarrow> False | Inr _ \<Rightarrow> True)"

lemma rbind_simps [simp]:
  "rbind (Inl e) f = Inl e"
  "rbind (Inr a) f = f a"
  by (simp_all add: rbind_def)

lemma rbind_Inr_iff [res_simps]: "rbind m f = Inr y \<longleftrightarrow> (\<exists>x. m = Inr x \<and> f x = Inr y)"
  by (cases m) auto

lemma rbind_Inl_iff [res_simps]:
  "rbind m f = Inl e \<longleftrightarrow> m = Inl e \<or> (\<exists>x. m = Inr x \<and> f x = Inl e)"
  by (cases m) auto

lemma ensure_simps [simp]: "ensure True e = Inr ()" "ensure False e = Inl e"
  by (simp_all add: ensure_def)

lemma ensure_Inr_iff [res_simps]: "ensure c e = Inr u \<longleftrightarrow> c"
  by (simp add: ensure_def)

lemma ensure_Inl_iff [res_simps]: "ensure c e = Inl e' \<longleftrightarrow> \<not> c \<and> e' = e"
  by (auto simp: ensure_def)

lemma ok_or_simps [simp]: "ok_or None e = Inl e" "ok_or (Some a) e = Inr a"
  by (simp_all add: ok_or_def)

lemma ok_or_Inr_iff [res_simps]: "ok_or x e = Inr a \<longleftrightarrow> x = Some a"
  by (cases x) auto

lemma is_ok_rbind: "is_ok (rbind m f) \<longleftrightarrow> (\<exists>x. m = Inr x \<and> is_ok (f x))"
  by (cases m) (simp_all add: is_ok_def)

lemma is_ok_simps [simp]: "is_ok (Inl e) = False" "is_ok (Inr a) = True"
  by (simp_all add: is_ok_def)

lemma is_ok_iff: "is_ok m \<longleftrightarrow> (\<exists>a. m = Inr a)"
  by (cases m) auto

section \<open>Bytes and fixed-width integers\<close>

type_synonym byte = "8 word"
type_synonym bytes = "byte list"
type_synonym u8 = "8 word"
type_synonym u16 = "16 word"
type_synonym u32 = "32 word"
type_synonym u64 = "64 word"
type_synonym i16 = "16 word"
type_synonym i32 = "32 word"
type_synonym i64 = "64 word"

fun be_bytes :: "nat \<Rightarrow> nat \<Rightarrow> bytes" where
  "be_bytes 0 v = []"
| "be_bytes (Suc n) v = be_bytes n (v div 256) @ [of_nat v]"

definition be_val :: "bytes \<Rightarrow> nat" where
  "be_val bs = foldl (\<lambda>a b. a * 256 + unat b) 0 bs"

lemma length_be_bytes [simp]: "length (be_bytes n v) = n"
  by (induction n arbitrary: v) auto

lemma be_val_Nil [simp]: "be_val [] = 0"
  by (simp add: be_val_def)

lemma be_val_snoc [simp]: "be_val (bs @ [b]) = be_val bs * 256 + unat b"
  by (simp add: be_val_def)

lemma be_val_append: "be_val (xs @ ys) = be_val xs * 256 ^ length ys + be_val ys"
proof (induction ys rule: rev_induct)
  case Nil
  then show ?case by simp
next
  case (snoc y ys)
  have "be_val (xs @ ys @ [y]) = be_val (xs @ ys) * 256 + unat y"
    using be_val_snoc [of "xs @ ys" y] by simp
  then show ?case by (simp add: snoc.IH algebra_simps)
qed

lemma be_val_Cons: "be_val (b # bs) = unat b * 256 ^ length bs + be_val bs"
  using be_val_append [of "[b]" bs] be_val_snoc [of "[]" b] by simp

lemma unat_byte_less [simp]: "unat (b :: byte) < 256"
proof -
  have "unat b < 2 ^ LENGTH(8)" by (rule unsigned_less)
  then show ?thesis by simp
qed

lemma be_val_less: "be_val bs < 256 ^ length bs"
proof (induction bs rule: rev_induct)
  case Nil
  then show ?case by simp
next
  case (snoc b bs)
  have "be_val bs * 256 + unat b < (be_val bs + 1) * 256"
    using unat_byte_less [of b] by simp
  also have "\<dots> \<le> 256 ^ length bs * 256"
    using snoc.IH by (intro mult_right_mono) auto
  finally show ?case by simp
qed

lemma unat_of_nat_byte: "unat (of_nat v :: byte) = v mod 256"
  by (simp add: unat_of_nat)

lemma be_val_be_bytes: "be_val (be_bytes n v) = v mod 256 ^ n"
proof (induction n arbitrary: v)
  case 0
  then show ?case by simp
next
  case (Suc n)
  have "be_val (be_bytes (Suc n) v) = (v div 256) mod 256 ^ n * 256 + v mod 256"
    by (simp add: Suc.IH unat_of_nat_byte)
  also have "\<dots> = v mod (256 * 256 ^ n)"
    by (simp add: mod_mult2_eq)
  finally show ?case by simp
qed

lemma be_bytes_be_val: "be_bytes (length bs) (be_val bs) = bs"
proof (induction bs rule: rev_induct)
  case Nil
  then show ?case by simp
next
  case (snoc b bs)
  have "(be_val bs * 256 + unat b) div 256 = be_val bs"
    using unat_byte_less [of b] by simp
  moreover have "(of_nat (be_val bs * 256 + unat b) :: byte) = b"
    unfolding word_unat_eq_iff unat_of_nat_byte by simp
  ultimately show ?case using snoc.IH by simp
qed

lemma be_val_inj: "length xs = length ys \<Longrightarrow> be_val xs = be_val ys \<Longrightarrow> xs = ys"
  by (metis be_bytes_be_val)

text \<open>Rust's \<open>to_be_bytes\<close>, \<open>from_be_bytes\<close> and their little-endian twins.\<close>

definition to_be_bytes :: "'a::len word \<Rightarrow> bytes" where
  "to_be_bytes w = be_bytes (LENGTH('a) div 8) (unat w)"

definition from_be_bytes :: "bytes \<Rightarrow> 'a::len word" where
  "from_be_bytes bs = of_nat (be_val bs)"

definition to_le_bytes :: "'a::len word \<Rightarrow> bytes" where
  "to_le_bytes w = rev (to_be_bytes w)"

definition from_le_bytes :: "bytes \<Rightarrow> 'a::len word" where
  "from_le_bytes bs = from_be_bytes (rev bs)"

lemma length_to_be_bytes [simp]: "length (to_be_bytes (w :: 'a::len word)) = LENGTH('a) div 8"
  by (simp add: to_be_bytes_def)

lemma length_to_le_bytes [simp]: "length (to_le_bytes (w :: 'a::len word)) = LENGTH('a) div 8"
  by (simp add: to_le_bytes_def)

lemma pow_256: "8 dvd n \<Longrightarrow> (256::nat) ^ (n div 8) = 2 ^ n"
proof -
  assume "8 dvd n"
  then have "(2::nat) ^ n = (2 ^ 8) ^ (n div 8)"
    by (simp only: power_mult [symmetric] dvd_mult_div_cancel)
  then show ?thesis by simp
qed

lemma be_val_to_be_bytes:
  "8 dvd LENGTH('a) \<Longrightarrow> be_val (to_be_bytes (w :: 'a::len word)) = unat w"
  by (simp add: to_be_bytes_def be_val_be_bytes pow_256)

lemma from_to_be_bytes [simp]:
  "8 dvd LENGTH('a) \<Longrightarrow> from_be_bytes (to_be_bytes (w :: 'a::len word)) = w"
  by (simp add: from_be_bytes_def be_val_to_be_bytes)

lemma to_from_be_bytes:
  assumes "8 dvd LENGTH('a)" and "length bs = LENGTH('a) div 8"
  shows "to_be_bytes (from_be_bytes bs :: 'a::len word) = bs"
proof -
  have "unat (of_nat (be_val bs) :: 'a word) = be_val bs"
    using be_val_less [of bs] assms by (simp add: unat_of_nat pow_256)
  then show ?thesis
    using be_bytes_be_val [of bs] assms(2) by (simp add: to_be_bytes_def from_be_bytes_def)
qed

lemma from_to_le_bytes [simp]:
  "8 dvd LENGTH('a) \<Longrightarrow> from_le_bytes (to_le_bytes (w :: 'a::len word)) = w"
  by (simp add: from_le_bytes_def to_le_bytes_def)

lemma to_be_bytes_inj [simp]:
  "8 dvd LENGTH('a) \<Longrightarrow> to_be_bytes (v :: 'a::len word) = to_be_bytes w \<longleftrightarrow> v = w"
  using from_to_be_bytes by metis

lemma to_le_bytes_inj [simp]:
  "8 dvd LENGTH('a) \<Longrightarrow> to_le_bytes (v :: 'a::len word) = to_le_bytes w \<longleftrightarrow> v = w"
  using from_to_le_bytes by metis

section \<open>The bytewise order\<close>

text \<open>
  The order on \<^typ>\<open>bytes\<close> is the lexicographic order of unsigned bytes, a
  proper prefix first: RocksDB's default comparator. Components of equal width
  compare one after the other, and a big-endian field compares as its value.
\<close>

lemma less_append_iff:
  fixes a :: "'a::linorder list"
  assumes "length a = length c"
  shows "a @ b < c @ d \<longleftrightarrow> a < c \<or> a = c \<and> b < d"
  using assms by (induction a c rule: list_induct2) auto

lemma le_append_iff:
  fixes a :: "'a::linorder list"
  assumes "length a = length c"
  shows "a @ b \<le> c @ d \<longleftrightarrow> a < c \<or> a = c \<and> b \<le> d"
  using assms by (induction a c rule: list_induct2) auto

lemma le_append_self:
  fixes a :: "'a::linorder list"
  assumes "length a = length c"
  shows "a \<le> c @ d \<longleftrightarrow> a \<le> c" "c @ x # d \<le> a \<longleftrightarrow> c < a"
  using assms by (induction a c rule: list_induct2) auto

lemma be_val_less_iff:
  assumes "length xs = length ys"
  shows "xs < ys \<longleftrightarrow> be_val xs < be_val ys"
  using assms
proof (induction xs ys rule: list_induct2)
  case Nil
  then show ?case by simp
next
  case (Cons x xs y ys)
  let ?m = "256 ^ length ys :: nat"
  have bdx: "be_val xs < ?m" and bdy: "be_val ys < ?m"
    using be_val_less [of xs] be_val_less [of ys] Cons.hyps by auto
  have up: "unat p * ?m + i < unat q * ?m + j"
    if "unat p < unat q" and "i < ?m" for p q :: byte and i j :: nat
  proof -
    have "unat p * ?m + i < (unat p + 1) * ?m" using that by simp
    also have "\<dots> \<le> unat q * ?m" using that by (intro mult_right_mono) auto
    finally show ?thesis by simp
  qed
  show ?case
  proof (cases x y rule: linorder_cases)
    case less
    then show ?thesis
      using up [of x y "be_val xs" "be_val ys"] bdx Cons.hyps
      by (simp add: be_val_Cons word_less_nat_alt)
  next
    case equal
    then show ?thesis using Cons by (simp add: be_val_Cons)
  next
    case greater
    then show ?thesis
      using up [of y x "be_val ys" "be_val xs"] bdy Cons.hyps
      by (auto simp: be_val_Cons word_less_nat_alt)
  qed
qed

lemma to_be_bytes_less_iff [simp]:
  "8 dvd LENGTH('a) \<Longrightarrow> to_be_bytes (v :: 'a::len word) < to_be_bytes w \<longleftrightarrow> v < w"
  by (simp add: be_val_less_iff be_val_to_be_bytes word_less_nat_alt)

lemma to_be_bytes_le_iff [simp]:
  "8 dvd LENGTH('a) \<Longrightarrow> to_be_bytes (v :: 'a::len word) \<le> to_be_bytes w \<longleftrightarrow> v \<le> w"
  by (simp add: linorder_not_less [symmetric])

lemma sint_eq_uint_nonneg: "0 \<le> sint w \<Longrightarrow> sint (w :: 'a::len word) = uint w"
proof -
  assume "0 \<le> sint w"
  moreover have "sint w < 2 ^ (LENGTH('a) - 1)" by (rule sint_lt)
  moreover have "(2::int) ^ (LENGTH('a) - 1) \<le> 2 ^ LENGTH('a)" by simp
  ultimately have "take_bit LENGTH('a) (sint w) = sint w"
    by (intro take_bit_int_eq_self) linarith+
  then show ?thesis by (simp add: uint_sint)
qed

lemma sint_eq_iff: "sint v = sint w \<longleftrightarrow> v = (w :: 'a::len word)"
proof
  assume "sint v = sint w"
  then have "(of_int (sint v) :: 'a word) = of_int (sint w)" by (simp only:)
  then show "v = w" by simp
qed simp

lemma sint_plus_one_i64:
  "sint t < 2 ^ 63 - 1 \<Longrightarrow> sint (t + 1 :: i64) = sint t + 1"
  using sint_ge [of t] by (simp add: sint_word_ariths signed_take_bit_int_eq_self)

lemma sint_less_nonneg:
  "0 \<le> sint v \<Longrightarrow> 0 \<le> sint w \<Longrightarrow> v < w \<longleftrightarrow> sint (v :: 'a::len word) < sint w"
  by (simp add: sint_eq_uint_nonneg word_less_def)

lemma not_less_iff: "NOT v < NOT w \<longleftrightarrow> w < (v :: 'a::len word)"
proof -
  have "uint (NOT x) = 2 ^ LENGTH('a) - 1 - uint x" for x :: "'a word"
    by (simp add: unsigned_not_eq take_bit_not_eq_mask_diff mask_eq_exp_minus_1
        take_bit_int_eq_self)
  then show ?thesis by (simp add: word_less_def)
qed

lemma map_not_less_iff:
  fixes xs :: bytes
  assumes "length xs = length ys"
  shows "map NOT xs < map NOT ys \<longleftrightarrow> ys < xs"
  using assms by (induction xs ys rule: list_induct2) (auto simp: not_less_iff)

lemma map_not_not [simp]: "map NOT (map NOT (xs :: bytes)) = xs"
  by (induction xs) auto

section \<open>Slices\<close>

text \<open>\<open>&bytes[i..j]\<close>, which panics when the range does not fit.\<close>

definition slice :: "nat \<Rightarrow> nat \<Rightarrow> bytes \<Rightarrow> bytes res" where
  "slice i j bs = (if i \<le> j \<and> j \<le> length bs then Inr (take (j - i) (drop i bs))
                   else Inl (Panic ''range end index out of range''))"

lemma slice_Inr_iff [res_simps]:
  "slice i j bs = Inr s \<longleftrightarrow> i \<le> j \<and> j \<le> length bs \<and> s = take (j - i) (drop i bs)"
  by (auto simp: slice_def)

lemma slice_ok [simp]: "i \<le> j \<Longrightarrow> j \<le> length bs \<Longrightarrow> slice i j bs = Inr (take (j - i) (drop i bs))"
  by (simp add: slice_def)

section \<open>UTF-8\<close>

text \<open>
  A Rust \<open>&str\<close> is its UTF-8 bytes; \<open>String::from_utf8\<close> accepts exactly the
  well-formed sequences of the Unicode standard (no overlong forms, no
  surrogates, nothing above U+10FFFF).
\<close>

definition utf8_cont :: "byte \<Rightarrow> byte \<Rightarrow> byte \<Rightarrow> bool" where
  "utf8_cont lo hi b \<longleftrightarrow> lo \<le> b \<and> b \<le> hi"

definition utf8_second :: "byte \<Rightarrow> byte \<Rightarrow> bool" where
  "utf8_second b c =
     (if b = 0xE0 then utf8_cont 0xA0 0xBF c
      else if b = 0xED then utf8_cont 0x80 0x9F c
      else if b = 0xF0 then utf8_cont 0x90 0xBF c
      else if b = 0xF4 then utf8_cont 0x80 0x8F c
      else utf8_cont 0x80 0xBF c)"

fun valid_utf8 :: "bytes \<Rightarrow> bool" where
  "valid_utf8 [] = True"
| "valid_utf8 (b # bs) =
     (if b < 0x80 then valid_utf8 bs
      else if 0xC2 \<le> b \<and> b \<le> 0xDF then
        (case bs of c # r \<Rightarrow> utf8_second b c \<and> valid_utf8 r | _ \<Rightarrow> False)
      else if 0xE0 \<le> b \<and> b \<le> 0xEF then
        (case bs of c # d # r \<Rightarrow> utf8_second b c \<and> utf8_cont 0x80 0xBF d \<and> valid_utf8 r | _ \<Rightarrow> False)
      else if 0xF0 \<le> b \<and> b \<le> 0xF4 then
        (case bs of c # d # e # r \<Rightarrow> utf8_second b c \<and> utf8_cont 0x80 0xBF d
            \<and> utf8_cont 0x80 0xBF e \<and> valid_utf8 r | _ \<Rightarrow> False)
      else False)"

definition from_utf8 :: "bytes \<Rightarrow> bytes option" where
  "from_utf8 bs = (if valid_utf8 bs then Some bs else None)"

text \<open>The bytes of a literal such as \<open>b"reorg:"\<close>.\<close>

definition ascii :: "string \<Rightarrow> bytes" where
  "ascii s = map of_char s"

section \<open>Checked integers\<close>

definition fits_i64 :: "int \<Rightarrow> bool" where "fits_i64 x \<longleftrightarrow> - (2 ^ 63) \<le> x \<and> x < 2 ^ 63"
definition fits_u64 :: "int \<Rightarrow> bool" where "fits_u64 x \<longleftrightarrow> 0 \<le> x \<and> x < 2 ^ 64"
definition fits_i128 :: "int \<Rightarrow> bool" where "fits_i128 x \<longleftrightarrow> - (2 ^ 127) \<le> x \<and> x < 2 ^ 127"
definition fits_u128 :: "int \<Rightarrow> bool" where "fits_u128 x \<longleftrightarrow> 0 \<le> x \<and> x < 2 ^ 128"

lemmas fits_defs = fits_i64_def fits_u64_def fits_i128_def fits_u128_def

text \<open>\<open>checked_add\<close>, \<open>try_from\<close> and their kin: the exact value, if it fits.\<close>

definition checked :: "(int \<Rightarrow> bool) \<Rightarrow> int \<Rightarrow> int option" where
  "checked fits x = (if fits x then Some x else None)"

lemma checked_Some_iff [simp]: "checked fits x = Some y \<longleftrightarrow> fits x \<and> y = x"
  by (auto simp: checked_def)

lemma checked_None_iff [simp]: "checked fits x = None \<longleftrightarrow> \<not> fits x"
  by (auto simp: checked_def)

end
