(* ===== verification/Key_Codec.thy ===== *)
theory Key_Codec
  imports Prelude
begin

text \<open>
  The contracts between the key encoders of
  \<^verbatim>\<open>crates/ckbadger-store/src/keys.rs\<close> and the store code that relies on
  them. A column family is read back by decoding a key, by seeking to a key and
  by scanning a prefix; each of the locales below states what one of these reads
  needs from the encoder, and proves once what the reader may conclude. The key
  theories interpret them on the encoders themselves.
\<close>

section \<open>A decoder recovers the encoded fields\<close>

text \<open>
  \<open>view\<close> is the part of the encoded value the decoder gives back: everything
  for most keys, some of the fields for others.
\<close>

locale key_codec =
  fixes enc :: "'a \<Rightarrow> bytes res"
    and dec :: "bytes \<Rightarrow> 'b res"
    and view :: "'a \<Rightarrow> 'b"
  assumes decode_encode: "enc a = Inr k \<Longrightarrow> dec k = Inr (view a)"
begin

lemma view_unique: "enc a = Inr k \<Longrightarrow> enc b = Inr k \<Longrightarrow> view a = view b"
  using decode_encode [of a k] decode_encode [of b k] by simp

lemma decode_rows:
  "(\<forall>r \<in> set rows. enc r = Inr (key r)) \<Longrightarrow> map (dec \<circ> key) rows = map (Inr \<circ> view) rows"
  using decode_encode by auto

end

section \<open>Keys of one width\<close>

locale fixed_width_key =
  fixes enc :: "'a \<Rightarrow> bytes res"
    and width :: nat
  assumes enc_width: "enc a = Inr k \<Longrightarrow> length k = width"
begin

lemma no_proper_prefix: "enc a = Inr k \<Longrightarrow> enc b = Inr k' \<Longrightarrow> prefix k k' \<Longrightarrow> k = k'"
  using enc_width [of a k] enc_width [of b k'] by (metis not_equal_is_parallel parallelE)

lemma append_unique:
  "enc a = Inr k \<Longrightarrow> enc b = Inr k' \<Longrightarrow> k @ r = k' @ r' \<Longrightarrow> k = k' \<and> r = r'"
  using enc_width [of a k] enc_width [of b k'] by simp

end

section \<open>A key identifies its row\<close>

locale row_key =
  fixes enc :: "'a \<Rightarrow> bytes res"
  assumes enc_inj: "enc a = Inr k \<Longrightarrow> enc b = Inr k \<Longrightarrow> a = b"
begin

text \<open>Writing a row leaves every other row of the column family alone.\<close>

lemma other_row_kept:
  "enc a = Inr k \<Longrightarrow> enc b = Inr k' \<Longrightarrow> a \<noteq> b \<Longrightarrow> (m(k \<mapsto> v)) k' = m k'"
  using enc_inj by (auto simp: fun_upd_apply)

end

section \<open>A prefix scan lists one group of rows\<close>

locale prefix_scan =
  fixes enc :: "'a \<Rightarrow> bytes res"
    and pre :: "'g \<Rightarrow> bytes res"
    and member :: "'g \<Rightarrow> 'a \<Rightarrow> bool"
  assumes prefix_iff: "enc a = Inr k \<Longrightarrow> pre g = Inr p \<Longrightarrow> prefix p k \<longleftrightarrow> member g a"
begin

lemma scan_exact:
  assumes "\<And>k a. (k, a) \<in> set rows \<Longrightarrow> enc a = Inr k" and "pre g = Inr p"
  shows "filter (\<lambda>(k, a). prefix p k) rows = filter (\<lambda>(k, a). member g a) rows"
proof (rule filter_cong)
  fix r
  assume "r \<in> set rows"
  then have "enc (snd r) = Inr (fst r)" using assms(1) by simp
  then show "(case r of (k, a) \<Rightarrow> prefix p k) = (case r of (k, a) \<Rightarrow> member g a)"
    using prefix_iff assms(2) by (simp add: case_prod_unfold)
qed simp

end

section \<open>Key order is row order\<close>

locale ordered_key =
  fixes enc :: "'a \<Rightarrow> bytes res"
    and before :: "'a \<Rightarrow> 'a \<Rightarrow> bool"
  assumes order_iff: "enc a = Inr k \<Longrightarrow> enc b = Inr k' \<Longrightarrow> k < k' \<longleftrightarrow> before a b"
begin

lemma scan_sorted:
  assumes "\<And>k a. (k, a) \<in> set rows \<Longrightarrow> enc a = Inr k" and "sorted_wrt (<) (map fst rows)"
  shows "sorted_wrt before (map snd rows)"
  using assms
proof (induction rows)
  case Nil
  then show ?case by simp
next
  case (Cons r rows)
  obtain k a where r: "r = (k, a)" by (cases r)
  have "before a b" if "(k', b) \<in> set rows" for k' b
    using that Cons.prems order_iff [of a k b k'] r by force
  moreover have "sorted_wrt before (map snd rows)"
    using Cons by auto
  ultimately show ?case using r by auto
qed

end

section \<open>A seek key starts a page\<close>

text \<open>
  A page after a cursor is read by seeking to a key built from the cursor and
  iterating forward. \<open>after c\<close> is the set of rows the page may show; \<open>real\<close> is
  what the rows of the column family are known to be.
\<close>

locale seek_key =
  fixes enc :: "'a \<Rightarrow> bytes res"
    and seek :: "'c \<Rightarrow> bytes res"
    and real :: "'a \<Rightarrow> bool"
    and after :: "'c \<Rightarrow> 'a \<Rightarrow> bool"
  assumes seek_iff: "enc a = Inr k \<Longrightarrow> real a \<Longrightarrow> seek c = Inr s \<Longrightarrow> s \<le> k \<longleftrightarrow> after c a"
begin

lemma seek_rows:
  assumes "\<And>k a. (k, a) \<in> set rows \<Longrightarrow> enc a = Inr k \<and> real a" and "seek c = Inr s"
  shows "filter (\<lambda>(k, a). s \<le> k) rows = filter (\<lambda>(k, a). after c a) rows"
proof (rule filter_cong)
  fix r
  assume "r \<in> set rows"
  then have "enc (snd r) = Inr (fst r)" "real (snd r)"
    using assms(1) [of "fst r" "snd r"] by simp_all
  then show "(case r of (k, a) \<Rightarrow> s \<le> k) = (case r of (k, a) \<Rightarrow> after c a)"
    using seek_iff assms(2) by (simp add: case_prod_unfold)
qed simp

end

end
