(* ===== verification/Keys_Core.thy ===== *)
theory Keys_Core
  imports Key_Codec
begin

text \<open>
  The building blocks of \<^verbatim>\<open>crates/ckbadger-store/src/keys.rs\<close>: outpoints, block
  numbers, transaction indexes, undo-log keys with their sequence scopes,
  descending fields, padded identifiers, and the script registry keys.
  Every \<open>assert!\<close> and every slice that can panic is a branch of the model.
\<close>

section \<open>Sizes and length assertions\<close>

definition OUTPOINT_KEY_SIZE :: nat where [simp]: "OUTPOINT_KEY_SIZE = 34"
definition SCRIPT_VERSION_BY_LABEL_LEN_SIZE :: nat where
  [simp]: "SCRIPT_VERSION_BY_LABEL_LEN_SIZE = 2"
definition SCRIPT_VERSION_HASH_SIZE :: nat where [simp]: "SCRIPT_VERSION_HASH_SIZE = 32"
definition SCRIPT_REFERENCE_KEY_SIZE :: nat where [simp]: "SCRIPT_REFERENCE_KEY_SIZE = 33"
definition BLOCK_NUM_KEY_SIZE :: nat where [simp]: "BLOCK_NUM_KEY_SIZE = 8"
definition BLOCK_OUTPOINT_KEY_SIZE :: nat where
  [simp]: "BLOCK_OUTPOINT_KEY_SIZE = BLOCK_NUM_KEY_SIZE + OUTPOINT_KEY_SIZE"
definition REORG_UNDO_LOG_KEY_SIZE :: nat where [simp]: "REORG_UNDO_LOG_KEY_SIZE = 16"
definition HASH32_LEN :: nat where [simp]: "HASH32_LEN = 32"
definition DOTBIT_ACCOUNT_ID_LEN :: nat where [simp]: "DOTBIT_ACCOUNT_ID_LEN = 20"

definition assert_key_component_len :: "string \<Rightarrow> string \<Rightarrow> nat \<Rightarrow> nat \<Rightarrow> unit res" where
  "assert_key_component_len encoder component actual expected =
     ensure (actual = expected) (PanicKeyLen encoder component actual expected)"

lemma assert_key_component_len_Inr [res_simps]:
  "assert_key_component_len e c n m = Inr u \<longleftrightarrow> n = m"
  by (simp add: assert_key_component_len_def res_simps)

lemma assert_key_component_len_ok [simp]: "assert_key_component_len e c n n = Inr ()"
  by (simp add: assert_key_component_len_def)

section \<open>Outpoints\<close>

definition encode_outpoint :: "bytes \<Rightarrow> i16 \<Rightarrow> bytes res" where
  [enc_defs]: "encode_outpoint tx_hash output_index =
     rbind (assert_key_component_len ''encode_outpoint'' ''tx_hash'' (length tx_hash) HASH32_LEN) (\<lambda>_.
     rbind (ensure (0 \<le> sint output_index) (Panic ''encode_outpoint: output_index'')) (\<lambda>_.
     Inr (take 32 tx_hash @ to_be_bytes output_index)))"

definition decode_outpoint :: "bytes \<Rightarrow> (bytes \<times> i16) res" where
  [dec_defs]: "decode_outpoint key =
     rbind (slice 0 32 key) (\<lambda>tx_hash.
     rbind (slice 32 34 key) (\<lambda>index.
     Inr (tx_hash, from_be_bytes index)))"

section \<open>Script registry keys\<close>

definition encode_script_version_by_label_key :: "bytes \<Rightarrow> bytes \<Rightarrow> bytes res" where
  [enc_defs]: "encode_script_version_by_label_key label_key version_hash =
     rbind (assert_key_component_len ''encode_script_version_by_label_key'' ''version_hash''
              (length version_hash) SCRIPT_VERSION_HASH_SIZE) (\<lambda>_.
     rbind (ensure (length label_key < 2 ^ 16) (Panic ''label_key length exceeds u16::MAX'')) (\<lambda>_.
     Inr (to_be_bytes (of_nat (length label_key) :: u16) @ label_key @
          take SCRIPT_VERSION_HASH_SIZE version_hash)))"

definition encode_script_version_by_label_prefix :: "bytes \<Rightarrow> bytes res" where
  [enc_defs]: "encode_script_version_by_label_prefix label_key =
     rbind (ensure (length label_key < 2 ^ 16) (Panic ''label_key length exceeds u16::MAX'')) (\<lambda>_.
     Inr (to_be_bytes (of_nat (length label_key) :: u16) @ label_key))"

definition decode_script_version_by_label_key :: "bytes \<Rightarrow> (bytes \<times> bytes) res" where
  [dec_defs]: "decode_script_version_by_label_key key =
     rbind (ensure (SCRIPT_VERSION_BY_LABEL_LEN_SIZE + SCRIPT_VERSION_HASH_SIZE \<le> length key)
              (Panic ''decode_script_version_by_label_key: too short'')) (\<lambda>_.
     rbind (slice 0 2 key) (\<lambda>len_bytes.
     let label_len = unat (from_be_bytes len_bytes :: u16);
         expected_len = SCRIPT_VERSION_BY_LABEL_LEN_SIZE + label_len + SCRIPT_VERSION_HASH_SIZE
     in rbind (ensure (length key = expected_len)
                (Panic ''decode_script_version_by_label_key: length'')) (\<lambda>_.
        rbind (slice 2 (2 + label_len) key) (\<lambda>label_bytes.
        rbind (ok_or (from_utf8 label_bytes) (Panic ''label key must be valid UTF-8'')) (\<lambda>label.
        rbind (slice (2 + label_len) expected_len key) (\<lambda>version_hash.
        Inr (label, version_hash)))))))"

definition encode_script_version_by_family_key :: "bytes \<Rightarrow> bytes \<Rightarrow> bytes res" where
  [enc_defs]: "encode_script_version_by_family_key family_id version_hash =
     rbind (assert_key_component_len ''encode_script_version_by_family_key'' ''version_hash''
              (length version_hash) SCRIPT_VERSION_HASH_SIZE) (\<lambda>_.
     rbind (ensure (length family_id < 2 ^ 16) (Panic ''family_id length exceeds u16::MAX'')) (\<lambda>_.
     Inr (to_be_bytes (of_nat (length family_id) :: u16) @ family_id @
          take SCRIPT_VERSION_HASH_SIZE version_hash)))"

definition encode_script_version_by_family_prefix :: "bytes \<Rightarrow> bytes res" where
  [enc_defs]: "encode_script_version_by_family_prefix family_id =
     rbind (ensure (length family_id < 2 ^ 16) (Panic ''family_id length exceeds u16::MAX'')) (\<lambda>_.
     Inr (to_be_bytes (of_nat (length family_id) :: u16) @ family_id))"

definition decode_script_version_by_family_key :: "bytes \<Rightarrow> (bytes \<times> bytes) res" where
  [dec_defs]: "decode_script_version_by_family_key key =
     rbind (ensure (SCRIPT_VERSION_BY_LABEL_LEN_SIZE + SCRIPT_VERSION_HASH_SIZE \<le> length key)
              (Panic ''decode_script_version_by_family_key: too short'')) (\<lambda>_.
     rbind (slice 0 2 key) (\<lambda>len_bytes.
     let family_len = unat (from_be_bytes len_bytes :: u16);
         expected_len = SCRIPT_VERSION_BY_LABEL_LEN_SIZE + family_len + SCRIPT_VERSION_HASH_SIZE
     in rbind (ensure (length key = expected_len)
                (Panic ''decode_script_version_by_family_key: length'')) (\<lambda>_.
        rbind (slice 2 (2 + family_len) key) (\<lambda>family_bytes.
        rbind (ok_or (from_utf8 family_bytes) (Panic ''family_id must be valid UTF-8'')) (\<lambda>family_id.
        rbind (slice (2 + family_len) expected_len key) (\<lambda>version_hash.
        Inr (family_id, version_hash)))))))"

definition encode_script_reference_key :: "u8 \<Rightarrow> bytes \<Rightarrow> bytes res" where
  [enc_defs]: "encode_script_reference_key hash_type reference_hash =
     rbind (assert_key_component_len ''encode_script_reference_key'' ''reference_hash''
              (length reference_hash) SCRIPT_VERSION_HASH_SIZE) (\<lambda>_.
     Inr (hash_type # take SCRIPT_VERSION_HASH_SIZE reference_hash))"

definition decode_script_reference_key :: "bytes \<Rightarrow> (u8 \<times> bytes) res" where
  [dec_defs]: "decode_script_reference_key key =
     rbind (ensure (length key = SCRIPT_REFERENCE_KEY_SIZE)
              (Panic ''decode_script_reference_key'')) (\<lambda>_.
     Inr (hd key, tl key))"

section \<open>Block numbers and transaction indexes\<close>

definition encode_block_num :: "i64 \<Rightarrow> bytes res" where
  [enc_defs]: "encode_block_num n =
     rbind (ensure (0 \<le> sint n) (Panic ''encode_block_num: block_num'')) (\<lambda>_.
     Inr (to_be_bytes n))"

definition decode_block_num :: "bytes \<Rightarrow> i64 res" where
  [dec_defs]: "decode_block_num key =
     rbind (ensure (8 \<le> length key) (Panic ''decode_block_num'')) (\<lambda>_.
     rbind (slice 0 8 key) (\<lambda>b. Inr (from_be_bytes b)))"

definition encode_block_outpoint_key :: "i64 \<Rightarrow> bytes \<Rightarrow> i16 \<Rightarrow> bytes res" where
  [enc_defs]: "encode_block_outpoint_key block_num tx_hash output_index =
     rbind (encode_outpoint tx_hash output_index) (\<lambda>outpoint.
     Inr (to_be_bytes block_num @ outpoint))"

definition decode_block_outpoint_key :: "bytes \<Rightarrow> (i64 \<times> bytes \<times> i16) res" where
  [dec_defs]: "decode_block_outpoint_key key =
     rbind (slice 0 8 key) (\<lambda>b.
     rbind (decode_block_num b) (\<lambda>block_num.
     rbind (slice 8 42 key) (\<lambda>outpoint.
     rbind (decode_outpoint outpoint) (\<lambda>(tx_hash, output_index).
     Inr (block_num, tx_hash, output_index)))))"

definition encode_tx_idx :: "i32 \<Rightarrow> bytes" where
  [enc_defs]: "encode_tx_idx idx = to_be_bytes idx"

definition decode_tx_idx :: "bytes \<Rightarrow> i32 res" where
  [dec_defs]: "decode_tx_idx key =
     rbind (ensure (4 \<le> length key) (Panic ''decode_tx_idx'')) (\<lambda>_.
     rbind (slice 0 4 key) (\<lambda>b. Inr (from_be_bytes b)))"

section \<open>The undo log\<close>

definition encode_reorg_undo_log_key :: "i64 \<Rightarrow> u64 \<Rightarrow> bytes" where
  [enc_defs]: "encode_reorg_undo_log_key block_num seq = to_be_bytes block_num @ to_be_bytes seq"

definition UNDO_SEQ_SCOPE_SHIFT :: nat where [simp]: "UNDO_SEQ_SCOPE_SHIFT = 48"

definition UNDO_SEQ_LOCAL_MAX :: u64 where
  "UNDO_SEQ_LOCAL_MAX = push_bit UNDO_SEQ_SCOPE_SHIFT 1 - 1"

datatype UndoSeqScope = TxContextScope | DotBitScope | ObjectScope | EntityStatsScope | DerivedScope

text \<open>The discriminant \<open>self as u64\<close>.\<close>

fun scope_code :: "UndoSeqScope \<Rightarrow> u64" where
  "scope_code TxContextScope = 1"
| "scope_code DotBitScope = 2"
| "scope_code ObjectScope = 3"
| "scope_code EntityStatsScope = 4"
| "scope_code DerivedScope = 5"

definition seq_base :: "UndoSeqScope \<Rightarrow> u64" where
  "seq_base s = push_bit UNDO_SEQ_SCOPE_SHIFT (scope_code s)"

definition owns :: "UndoSeqScope \<Rightarrow> u64 \<Rightarrow> bool" where
  "owns s seq \<longleftrightarrow> drop_bit UNDO_SEQ_SCOPE_SHIFT seq = scope_code s"

definition decode_reorg_undo_log_key :: "bytes \<Rightarrow> (i64 \<times> u64) res" where
  [dec_defs]: "decode_reorg_undo_log_key key =
     rbind (ensure (length key = REORG_UNDO_LOG_KEY_SIZE) (Panic ''decode_reorg_undo_log_key'')) (\<lambda>_.
     rbind (slice 0 8 key) (\<lambda>b.
     rbind (slice 8 16 key) (\<lambda>s.
     Inr (from_be_bytes b, from_be_bytes s))))"

definition encode_composite :: "bytes list \<Rightarrow> bytes" where
  [enc_defs]: "encode_composite parts = concat parts"

section \<open>Descending fields\<close>

definition I64_MAX :: i64 where "I64_MAX = 0x7FFFFFFFFFFFFFFF"
definition I32_MAX :: i32 where "I32_MAX = 0x7FFFFFFF"

definition encode_desc_block_num :: "i64 \<Rightarrow> bytes res" where
  [enc_defs]: "encode_desc_block_num block_num =
     rbind (ensure (0 \<le> sint block_num) (Panic ''encode_desc_block_num: block_num'')) (\<lambda>_.
     Inr (to_be_bytes (I64_MAX - block_num)))"

definition decode_desc_block_num :: "bytes \<Rightarrow> i64 res" where
  [dec_defs]: "decode_desc_block_num bs =
     rbind (ensure (length bs = 8) (Panic ''decode_desc_block_num'')) (\<lambda>_.
     Inr (I64_MAX - from_be_bytes bs))"

definition encode_desc_tx_idx :: "i32 \<Rightarrow> bytes res" where
  [enc_defs]: "encode_desc_tx_idx tx_idx =
     rbind (ensure (0 \<le> sint tx_idx) (Panic ''encode_desc_tx_idx: tx_idx'')) (\<lambda>_.
     Inr (to_be_bytes (I32_MAX - tx_idx)))"

definition decode_desc_tx_idx :: "bytes \<Rightarrow> i32 res" where
  [dec_defs]: "decode_desc_tx_idx bs =
     rbind (ensure (length bs = 4) (Panic ''decode_desc_tx_idx'')) (\<lambda>_.
     Inr (I32_MAX - from_be_bytes bs))"

section \<open>Padded identifiers\<close>

definition pad_id_32 :: "bytes \<Rightarrow> bytes res" where
  [enc_defs]: "pad_id_32 i =
     rbind (ensure (length i \<le> 32) (Panic ''pad_id_32: ID exceeds 32 bytes'')) (\<lambda>_.
     Inr (i @ replicate (32 - length i) 0))"

section \<open>Laws\<close>


lemma desc_desc [simp]:
  "I64_MAX - (I64_MAX - n) = n" "I32_MAX - (I32_MAX - i) = i"
  by simp_all

lemma desc_block_less_iff:
  assumes "0 \<le> sint m" and "0 \<le> sint n"
  shows "I64_MAX - m < I64_MAX - n \<longleftrightarrow> n < m"
proof -
  have "uint (I64_MAX - x) = uint I64_MAX - uint x" if "0 \<le> sint x" for x :: i64
  proof (rule uint_minus_simple_alt [THEN iffD1])
    have "uint x < 2 ^ 63" using sint_lt [of x] that by (simp add: sint_eq_uint_nonneg)
    then show "x \<le> I64_MAX" by (simp add: word_le_def I64_MAX_def)
  qed
  then show ?thesis using assms by (simp add: word_less_def)
qed

lemma desc_tx_idx_less_iff:
  assumes "0 \<le> sint m" and "0 \<le> sint n"
  shows "I32_MAX - m < I32_MAX - n \<longleftrightarrow> n < m"
proof -
  have "uint (I32_MAX - x) = uint I32_MAX - uint x" if "0 \<le> sint x" for x :: i32
  proof (rule uint_minus_simple_alt [THEN iffD1])
    have "uint x < 2 ^ 31" using sint_lt [of x] that by (simp add: sint_eq_uint_nonneg)
    then show "x \<le> I32_MAX" by (simp add: word_le_def I32_MAX_def)
  qed
  then show ?thesis using assms by (simp add: word_less_def)
qed

lemma desc_block_less_sint:
  "0 \<le> sint m \<Longrightarrow> 0 \<le> sint n \<Longrightarrow> I64_MAX - m < I64_MAX - n \<longleftrightarrow> sint n < sint m"
  by (simp add: desc_block_less_iff sint_less_nonneg)

lemma desc_tx_idx_less_sint:
  "0 \<le> sint m \<Longrightarrow> 0 \<le> sint n \<Longrightarrow> I32_MAX - m < I32_MAX - n \<longleftrightarrow> sint n < sint m"
  by (simp add: desc_tx_idx_less_iff sint_less_nonneg)

lemma desc_block_le_sint:
  "0 \<le> sint m \<Longrightarrow> 0 \<le> sint n \<Longrightarrow> I64_MAX - m \<le> I64_MAX - n \<longleftrightarrow> sint n \<le> sint m"
  by (simp add: linorder_not_less [symmetric] desc_block_less_sint)

lemmas order_simps = less_append_iff le_append_iff le_append_self
  desc_block_less_sint desc_block_le_sint desc_tx_idx_less_sint

text \<open>Chain positions, newest first: the order every activity listing is in.\<close>

fun newer_pos :: "i64 \<times> i32 \<Rightarrow> i64 \<times> i32 \<Rightarrow> bool" where
  "newer_pos (b, i) (b', i') \<longleftrightarrow> sint b' < sint b \<or> b = b' \<and> sint i' < sint i"

lemma le_ones: "length x = n \<Longrightarrow> x \<le> replicate n (0xFF :: byte)"
proof (induction x arbitrary: n)
  case (Cons b x)
  have "unat b \<le> 255" using unat_byte_less [of b] by linarith
  then have "b \<le> 0xFF" by (simp add: word_le_nat_alt)
  then show ?case using Cons by (cases n) (auto simp: less_le)
qed simp

lemma ones_le_iff: "length x = n \<Longrightarrow> replicate n (0xFF :: byte) \<le> x \<longleftrightarrow> x = replicate n 0xFF"
  using le_ones [of x n] by auto

text \<open>The undo log is in block order, and in sequence order within a block.\<close>

lemma undo_key_less:
  assumes "0 \<le> sint b" and "0 \<le> sint b'"
  shows "encode_reorg_undo_log_key b q < encode_reorg_undo_log_key b' q' \<longleftrightarrow> sint b < sint b' \<or> b = b' \<and> q < q'"
  using assms by (simp add: encode_reorg_undo_log_key_def less_append_iff sint_less_nonneg)

lemma undo_key_decode [simp]: "decode_reorg_undo_log_key (encode_reorg_undo_log_key b q) = Inr (b, q)"
  by (simp add: encode_reorg_undo_log_key_def decode_reorg_undo_log_key_def)

lemma undo_key_encode:
  "length k = 16 \<Longrightarrow> k = encode_reorg_undo_log_key (from_be_bytes (take 8 k)) (from_be_bytes (drop 8 k))"
  by (simp add: encode_reorg_undo_log_key_def to_from_be_bytes)

interpretation outpoint_codec:
  key_codec "\<lambda>(h, i). encode_outpoint h i" decode_outpoint id
  by unfold_locales (auto simp: enc_defs dec_defs res_simps)

interpretation outpoint_width:
  fixed_width_key "\<lambda>(h, i). encode_outpoint h i" OUTPOINT_KEY_SIZE
  by unfold_locales (auto simp: enc_defs dec_defs res_simps)

end
