(* ===== verification/Token_Balance.thy ===== *)
theory Token_Balance
  imports Key_Codec
begin

text \<open>
  \<^verbatim>\<open>crates/common/src/token.rs\<close>: the exact aggregate balance of a fungible token.
  \<open>TokenBalance\<close> wraps \<open>ckb_types::U256\<close>, a third-party type, so the operations
  of \<open>U256\<close> the code calls are the parameter \<open>U\<close>; the locale \<open>u256\<close> states what
  its documentation promises (an unsigned 256-bit integer with checked
  arithmetic and a 32-byte big-endian form).
\<close>

section \<open>The operations of U256 the code calls\<close>

record 'u u256_ops =
  u_zero :: 'u
  u_is_zero :: "'u \<Rightarrow> bool"
  u_checked_add :: "'u \<Rightarrow> 'u \<Rightarrow> 'u option"
  u_checked_sub :: "'u \<Rightarrow> 'u \<Rightarrow> 'u option"
  u_into_big_endian :: "'u \<Rightarrow> bytes"
  u_from_big_endian :: "bytes \<Rightarrow> string + 'u"
  u_from_u128 :: "128 word \<Rightarrow> 'u"
  u_from_dec_str :: "bytes \<Rightarrow> string + 'u"

locale u256 =
  fixes U :: "'u u256_ops"
    and val :: "'u \<Rightarrow> nat"
  assumes val_less: "val u < 2 ^ 256"
    and val_inj: "val u = val v \<Longrightarrow> u = v"
    and val_zero: "val (u_zero U) = 0"
    and is_zero_iff: "u_is_zero U u \<longleftrightarrow> val u = 0"
    and checked_add_Some:
      "u_checked_add U u v = Some w \<longleftrightarrow> val u + val v < 2 ^ 256 \<and> val w = val u + val v"
    and checked_sub_Some:
      "u_checked_sub U u v = Some w \<longleftrightarrow> val v \<le> val u \<and> val w = val u - val v"
    and into_be: "u_into_big_endian U u = be_bytes 32 (val u)"
    and from_be: "length bs = 32 \<Longrightarrow> \<exists>u. u_from_big_endian U bs = Inr u \<and> val u = be_val bs"
    and from_u128: "val (u_from_u128 U x) = unat x"

section \<open>TokenBalance\<close>

datatype TokenBalanceError =
    InvalidEncodedLength nat nat
  | InvalidEncoding string
  | InvalidDecimal bytes string

definition ENCODED_LEN :: nat where [simp]: "ENCODED_LEN = 32"

definition token_zero :: "'u u256_ops \<Rightarrow> 'u" where
  "token_zero U = u_zero U"

definition token_is_zero :: "'u u256_ops \<Rightarrow> 'u \<Rightarrow> bool" where
  "token_is_zero U b = u_is_zero U b"

definition token_checked_add :: "'u u256_ops \<Rightarrow> 'u \<Rightarrow> 'u \<Rightarrow> 'u option" where
  "token_checked_add U a b = u_checked_add U a b"

definition token_checked_sub :: "'u u256_ops \<Rightarrow> 'u \<Rightarrow> 'u \<Rightarrow> 'u option" where
  "token_checked_sub U a b = u_checked_sub U a b"

definition token_to_be_bytes :: "'u u256_ops \<Rightarrow> 'u \<Rightarrow> bytes" where
  "token_to_be_bytes U b = u_into_big_endian U b"

definition token_to_u128 :: "'u u256_ops \<Rightarrow> 'u \<Rightarrow> 128 word option" where
  "token_to_u128 U b =
     (let bs = token_to_be_bytes U b;
          high = take (ENCODED_LEN - 16) bs;
          low = drop (ENCODED_LEN - 16) bs
      in if (\<exists>x \<in> set high. x \<noteq> 0) then None else Some (from_be_bytes low))"

definition token_from_be_bytes :: "'u u256_ops \<Rightarrow> bytes \<Rightarrow> TokenBalanceError + 'u" where
  "token_from_be_bytes U bs =
     (if length bs \<noteq> ENCODED_LEN then Inl (InvalidEncodedLength ENCODED_LEN (length bs))
      else case u_from_big_endian U bs of
             Inl e \<Rightarrow> Inl (InvalidEncoding e)
           | Inr u \<Rightarrow> Inr u)"

definition token_from_u128 :: "'u u256_ops \<Rightarrow> 128 word \<Rightarrow> 'u" where
  "token_from_u128 U x = u_from_u128 U x"

definition token_from_str :: "'u u256_ops \<Rightarrow> bytes \<Rightarrow> TokenBalanceError + 'u" where
  "token_from_str U value =
     (case u_from_dec_str U value of
        Inl reason \<Rightarrow> Inl (InvalidDecimal value reason)
      | Inr u \<Rightarrow> Inr u)"

section \<open>Laws\<close>

lemma be_val_zeros: "(\<forall>x \<in> set bs. x = 0) \<Longrightarrow> be_val bs = 0"
  by (induction bs) (auto simp: be_val_Cons)

lemma be_val_eq_0_iff: "be_val bs = 0 \<longleftrightarrow> (\<forall>x \<in> set bs. x = 0)"
  by (induction bs) (auto simp: be_val_Cons unat_eq_0)

context u256
begin

lemma length_token_to_be_bytes: "length (token_to_be_bytes U b) = ENCODED_LEN"
  by (simp add: token_to_be_bytes_def into_be)

lemma be_val_token: "be_val (token_to_be_bytes U b) = val b"
  using val_less [of b] by (simp add: token_to_be_bytes_def into_be be_val_be_bytes)

lemma token_roundtrip: "token_from_be_bytes U (token_to_be_bytes U b) = Inr b"
proof -
  obtain u where "u_from_big_endian U (token_to_be_bytes U b) = Inr u" and "val u = val b"
    using from_be [of "token_to_be_bytes U b"] length_token_to_be_bytes [of b] be_val_token [of b]
    by auto
  then show ?thesis
    using val_inj length_token_to_be_bytes [of b] by (simp add: token_from_be_bytes_def)
qed

lemma token_order: "token_to_be_bytes U a < token_to_be_bytes U b \<longleftrightarrow> val a < val b"
  by (simp add: be_val_less_iff length_token_to_be_bytes be_val_token)

text \<open>Narrowing back to one cell's width: exact, and \<open>None\<close> exactly above it.\<close>

lemma token_to_u128_spec:
  "token_to_u128 U b = (if val b < 2 ^ 128 then Some (of_nat (val b)) else None)"
proof -
  let ?bs = "token_to_be_bytes U b"
  have len: "length ?bs = 32" using length_token_to_be_bytes [of b] by simp
  have split: "val b = be_val (take 16 ?bs) * 256 ^ 16 + be_val (drop 16 ?bs)"
    using be_val_append [of "take 16 ?bs" "drop 16 ?bs"] len by (simp add: be_val_token)
  have low: "be_val (drop 16 ?bs) < 256 ^ 16"
    using be_val_less [of "drop 16 ?bs"] len by simp
  have high: "(\<exists>x \<in> set (take 16 ?bs). x \<noteq> 0) \<longleftrightarrow> be_val (take 16 ?bs) \<noteq> 0"
    by (simp add: be_val_eq_0_iff)
  show ?thesis
  proof (cases "be_val (take 16 ?bs)")
    case 0
    then have "val b = be_val (drop 16 ?bs)" and "val b < 2 ^ 128" using split low by simp_all
    then show ?thesis using high 0 by (simp add: token_to_u128_def from_be_bytes_def)
  next
    case (Suc n)
    then have "\<not> val b < 2 ^ 128" using split by simp
    then show ?thesis using high Suc by (simp add: token_to_u128_def)
  qed
qed

lemma token_from_to_u128: "token_to_u128 U (token_from_u128 U x) = Some x"
proof -
  have "unat x < 2 ^ LENGTH(128)" by (rule unsigned_less)
  then show ?thesis by (simp add: token_to_u128_spec token_from_u128_def from_u128)
qed

end

section \<open>The 256-bit instance\<close>

definition u256_word :: "256 word u256_ops" where
  "u256_word = \<lparr>
     u_zero = 0,
     u_is_zero = (\<lambda>u. u = 0),
     u_checked_add = (\<lambda>u v. if unat u + unat v < 2 ^ 256 then Some (u + v) else None),
     u_checked_sub = (\<lambda>u v. if v \<le> u then Some (u - v) else None),
     u_into_big_endian = to_be_bytes,
     u_from_big_endian = (\<lambda>bs. if length bs = 32 then Inr (from_be_bytes bs) else Inl ''length''),
     u_from_u128 = ucast,
     u_from_dec_str = (\<lambda>s.
       if s = [] \<or> \<not> list_all (\<lambda>c. 48 \<le> c \<and> c \<le> 57) s then Inl ''invalid digit''
       else let n = foldl (\<lambda>a c. 10 * a + (unat c - 48)) 0 s
            in if n < 2 ^ 256 then Inr (of_nat n) else Inl ''overflow'')\<rparr>"

interpretation u256_word: u256 u256_word unat
proof unfold_locales
  fix u v w :: "256 word" and bs :: bytes and x :: "128 word"
  have less: "unat y < 2 ^ LENGTH(256)" for y :: "256 word" by (rule unsigned_less)
  show "unat u < 2 ^ 256" using less [of u] by simp
  show "unat u = unat v \<Longrightarrow> u = v" by (simp add: word_unat_eq_iff)
  show "unat (u_zero u256_word) = 0" by (simp add: u256_word_def)
  show "u_is_zero u256_word u \<longleftrightarrow> unat u = 0" by (simp add: u256_word_def unat_eq_0)
  show "u_checked_add u256_word u v = Some w \<longleftrightarrow>
      unat u + unat v < 2 ^ 256 \<and> unat w = unat u + unat v"
    by (auto simp: u256_word_def word_unat_eq_iff unat_word_ariths)
  show "u_checked_sub u256_word u v = Some w \<longleftrightarrow> unat v \<le> unat u \<and> unat w = unat u - unat v"
    by (auto simp: u256_word_def word_unat_eq_iff unat_sub word_le_nat_alt)
  show "u_into_big_endian u256_word u = be_bytes 32 (unat u)"
    by (simp add: u256_word_def to_be_bytes_def)
  show "\<exists>u. u_from_big_endian u256_word bs = Inr u \<and> unat u = be_val bs" if "length bs = 32"
    using that be_val_less [of bs] by (simp add: u256_word_def from_be_bytes_def unat_of_nat)
  show "unat (u_from_u128 u256_word x) = unat x"
  proof -
    have "unat x < 2 ^ LENGTH(128)" by (rule unsigned_less)
    then show ?thesis by (simp add: u256_word_def unsigned_ucast_eq take_bit_nat_eq_self)
  qed
qed

end
