(* ===== verification/Keys_Index.thy ===== *)
theory Keys_Index
  imports Keys_Core Token_Balance
begin

text \<open>
  The index keys of \<^verbatim>\<open>crates/ckbadger-store/src/keys.rs\<close> that pages are served
  from: cells by script, code and data hash, transactions by address, token
  holders ranked by balance, token transfers, transaction actions, and the DAO
  deposit indexes.
\<close>

section \<open>Descending token balances\<close>

definition encode_desc_token_balance :: "'u u256_ops \<Rightarrow> 'u \<Rightarrow> bytes" where
  "encode_desc_token_balance U value = map NOT (token_to_be_bytes U value)"

definition decode_desc_token_balance :: "'u u256_ops \<Rightarrow> bytes \<Rightarrow> 'u res" where
  "decode_desc_token_balance U bs =
     rbind (ensure (length bs = ENCODED_LEN) (Panic ''decode_desc_token_balance'')) (\<lambda>_.
     case token_from_be_bytes U (map NOT bs) of
       Inl e \<Rightarrow> Inl (Panic ''fixed-width complemented token balance must decode'')
     | Inr u \<Rightarrow> Inr u)"

section \<open>Cells by script, by code, by data hash\<close>

definition cell_has_data_hash_row :: "i32 \<Rightarrow> bool" where
  "cell_has_data_hash_row data_size \<longleftrightarrow> 0 < sint data_size"

definition CELL_INDEX_KEY_SIZE :: nat where [simp]: "CELL_INDEX_KEY_SIZE = 74"

definition encode_cell_index_key :: "bytes \<Rightarrow> i64 \<Rightarrow> bytes \<Rightarrow> i16 \<Rightarrow> bytes res" where
  [enc_defs]: "encode_cell_index_key script_hash block_num tx_hash output_index =
     rbind (assert_key_component_len ''encode_cell_index_key'' ''script_hash''
              (length script_hash) HASH32_LEN) (\<lambda>_.
     rbind (assert_key_component_len ''encode_cell_index_key'' ''tx_hash''
              (length tx_hash) HASH32_LEN) (\<lambda>_.
     Inr (take 32 script_hash @ to_be_bytes block_num @ take 32 tx_hash @
          to_be_bytes output_index)))"

definition CELL_CODE_INDEX_KEY_SIZE :: nat where [simp]: "CELL_CODE_INDEX_KEY_SIZE = 75"
definition CELL_CODE_INDEX_PREFIX_SIZE :: nat where [simp]: "CELL_CODE_INDEX_PREFIX_SIZE = 33"

definition encode_cell_code_index_prefix :: "bytes \<Rightarrow> u8 \<Rightarrow> bytes res" where
  [enc_defs]: "encode_cell_code_index_prefix code_hash hash_type =
     rbind (assert_key_component_len ''encode_cell_code_index_prefix'' ''code_hash''
              (length code_hash) HASH32_LEN) (\<lambda>_.
     Inr (take 32 code_hash @ [hash_type]))"

definition encode_cell_code_index_key ::
    "bytes \<Rightarrow> u8 \<Rightarrow> i64 \<Rightarrow> bytes \<Rightarrow> i16 \<Rightarrow> bytes res" where
  [enc_defs]: "encode_cell_code_index_key code_hash hash_type block_num tx_hash output_index =
     rbind (assert_key_component_len ''encode_cell_code_index_key'' ''code_hash''
              (length code_hash) HASH32_LEN) (\<lambda>_.
     rbind (assert_key_component_len ''encode_cell_code_index_key'' ''tx_hash''
              (length tx_hash) HASH32_LEN) (\<lambda>_.
     Inr (take 32 code_hash @ [hash_type] @ to_be_bytes block_num @ take 32 tx_hash @
          to_be_bytes output_index)))"

definition cell_code_index_hash_type_byte :: "i16 \<Rightarrow> u8 res" where
  "cell_code_index_hash_type_byte hash_type =
     (if 0 \<le> sint hash_type \<and> sint hash_type \<le> 255 then Inr (ucast hash_type)
      else Inl (Bail ''script hash_type does not fit the cell-by-code index key byte''))"

section \<open>Transactions by address\<close>

definition ADDR_TX_KEY_SIZE :: nat where [simp]: "ADDR_TX_KEY_SIZE = 76"

definition encode_addr_tx_key :: "bytes \<Rightarrow> i64 \<Rightarrow> i32 \<Rightarrow> bytes \<Rightarrow> bytes res" where
  [enc_defs]: "encode_addr_tx_key lock_hash block_num tx_idx tx_hash =
     rbind (assert_key_component_len ''encode_addr_tx_key'' ''lock_hash''
              (length lock_hash) HASH32_LEN) (\<lambda>_.
     rbind (assert_key_component_len ''encode_addr_tx_key'' ''tx_hash''
              (length tx_hash) HASH32_LEN) (\<lambda>_.
     rbind (encode_desc_block_num block_num) (\<lambda>block_desc.
     rbind (encode_desc_tx_idx tx_idx) (\<lambda>idx_desc.
     Inr (take 32 lock_hash @ block_desc @ idx_desc @ take 32 tx_hash)))))"

definition encode_addr_tx_seek_after_key :: "bytes \<Rightarrow> i64 \<Rightarrow> i32 \<Rightarrow> bytes res" where
  [enc_defs]: "encode_addr_tx_seek_after_key lock_hash block_num tx_idx =
     rbind (assert_key_component_len ''encode_addr_tx_seek_after_key'' ''lock_hash''
              (length lock_hash) HASH32_LEN) (\<lambda>_.
     rbind (encode_desc_block_num block_num) (\<lambda>block_desc.
     rbind (encode_desc_tx_idx tx_idx) (\<lambda>idx_desc.
     Inr (take 32 lock_hash @ block_desc @ idx_desc @ replicate 32 0xFF))))"

definition encode_addr_tx_block_seek_key :: "bytes \<Rightarrow> i64 \<Rightarrow> bytes res" where
  [enc_defs]: "encode_addr_tx_block_seek_key lock_hash block_num =
     rbind (assert_key_component_len ''encode_addr_tx_block_seek_key'' ''lock_hash''
              (length lock_hash) HASH32_LEN) (\<lambda>_.
     rbind (encode_desc_block_num block_num) (\<lambda>block_desc.
     Inr (take 32 lock_hash @ block_desc)))"

definition decode_addr_tx_key :: "bytes \<Rightarrow> (bytes \<times> i64 \<times> i32 \<times> bytes) res" where
  [dec_defs]: "decode_addr_tx_key key =
     rbind (ensure (length key = ADDR_TX_KEY_SIZE) (Panic ''decode_addr_tx_key'')) (\<lambda>_.
     rbind (slice 0 32 key) (\<lambda>lock_hash.
     rbind (slice 32 40 key) (\<lambda>b.
     rbind (decode_desc_block_num b) (\<lambda>block_num.
     rbind (slice 40 44 key) (\<lambda>i.
     rbind (decode_desc_tx_idx i) (\<lambda>tx_idx.
     rbind (slice 44 76 key) (\<lambda>tx_hash.
     Inr (lock_hash, block_num, tx_idx, tx_hash))))))))"

definition ADDR_TX_BY_PREFIX_KEY_SIZE :: nat where [simp]: "ADDR_TX_BY_PREFIX_KEY_SIZE = 64"
definition LOCK_PREFIX_LEN :: nat where [simp]: "LOCK_PREFIX_LEN = 20"

definition encode_addr_tx_by_prefix_key :: "bytes \<Rightarrow> i64 \<Rightarrow> i32 \<Rightarrow> bytes \<Rightarrow> bytes res" where
  [enc_defs]: "encode_addr_tx_by_prefix_key pre block_num tx_idx tx_hash =
     rbind (assert_key_component_len ''encode_addr_tx_by_prefix_key'' ''prefix''
              (length pre) LOCK_PREFIX_LEN) (\<lambda>_.
     rbind (assert_key_component_len ''encode_addr_tx_by_prefix_key'' ''tx_hash''
              (length tx_hash) HASH32_LEN) (\<lambda>_.
     rbind (encode_addr_tx_key (replicate 32 0) block_num tx_idx tx_hash) (\<lambda>full.
     Inr (pre @ drop 32 full))))"

definition encode_addr_tx_by_prefix_seek_after_key :: "bytes \<Rightarrow> i64 \<Rightarrow> i32 \<Rightarrow> bytes res" where
  [enc_defs]: "encode_addr_tx_by_prefix_seek_after_key pre block_num tx_idx =
     rbind (assert_key_component_len ''encode_addr_tx_by_prefix_seek_after_key'' ''prefix''
              (length pre) LOCK_PREFIX_LEN) (\<lambda>_.
     rbind (encode_addr_tx_seek_after_key (replicate 32 0) block_num tx_idx) (\<lambda>full.
     Inr (pre @ drop 32 full)))"

definition decode_addr_tx_by_prefix_key :: "bytes \<Rightarrow> (bytes \<times> i64 \<times> i32 \<times> bytes) res" where
  [dec_defs]: "decode_addr_tx_by_prefix_key key =
     rbind (ensure (length key = ADDR_TX_BY_PREFIX_KEY_SIZE)
              (Panic ''decode_addr_tx_by_prefix_key'')) (\<lambda>_.
     rbind (slice 0 LOCK_PREFIX_LEN key) (\<lambda>pre.
     rbind (slice LOCK_PREFIX_LEN (length key) key) (\<lambda>rest.
     rbind (decode_addr_tx_key (replicate 32 0 @ rest)) (\<lambda>(_, block_num, tx_idx, tx_hash).
     Inr (pre, block_num, tx_idx, tx_hash)))))"

section \<open>Token holders\<close>

definition encode_token_holder_key :: "bytes \<Rightarrow> bytes \<Rightarrow> bytes res" where
  [enc_defs]: "encode_token_holder_key type_hash lock_hash =
     rbind (assert_key_component_len ''encode_token_holder_key'' ''type_hash''
              (length type_hash) HASH32_LEN) (\<lambda>_.
     rbind (assert_key_component_len ''encode_token_holder_key'' ''lock_hash''
              (length lock_hash) HASH32_LEN) (\<lambda>_.
     Inr (take 32 type_hash @ take 32 lock_hash)))"

definition TOKEN_HOLDER_BALANCE_KEY_SIZE :: nat where [simp]: "TOKEN_HOLDER_BALANCE_KEY_SIZE = 96"

definition encode_token_holder_balance_key ::
    "'u u256_ops \<Rightarrow> bytes \<Rightarrow> 'u \<Rightarrow> bytes \<Rightarrow> bytes res" where
  [enc_defs]: "encode_token_holder_balance_key U type_hash balance lock_hash =
     rbind (assert_key_component_len ''encode_token_holder_balance_key'' ''type_hash''
              (length type_hash) HASH32_LEN) (\<lambda>_.
     rbind (assert_key_component_len ''encode_token_holder_balance_key'' ''lock_hash''
              (length lock_hash) HASH32_LEN) (\<lambda>_.
     Inr (take 32 type_hash @ encode_desc_token_balance U balance @ take 32 lock_hash)))"

definition encode_token_holder_balance_seek_after_key ::
    "'u u256_ops \<Rightarrow> bytes \<Rightarrow> 'u \<Rightarrow> bytes \<Rightarrow> bytes res" where
  [enc_defs]: "encode_token_holder_balance_seek_after_key U type_hash balance lock_hash =
     rbind (encode_token_holder_balance_key U type_hash balance lock_hash) (\<lambda>key.
     Inr (key @ [0xFF]))"

definition decode_token_holder_balance_key ::
    "'u u256_ops \<Rightarrow> bytes \<Rightarrow> (bytes \<times> 'u \<times> bytes) res" where
  [dec_defs]: "decode_token_holder_balance_key U key =
     rbind (ensure (length key = TOKEN_HOLDER_BALANCE_KEY_SIZE)
              (Panic ''decode_token_holder_balance_key'')) (\<lambda>_.
     rbind (slice 32 64 key) (\<lambda>b.
     rbind (decode_desc_token_balance U b) (\<lambda>balance.
     rbind (slice 0 32 key) (\<lambda>type_hash.
     rbind (slice 64 96 key) (\<lambda>lock_hash.
     Inr (type_hash, balance, lock_hash))))))"

definition ADDR_TOKEN_BALANCE_KEY_SIZE :: nat where [simp]: "ADDR_TOKEN_BALANCE_KEY_SIZE = 96"

definition encode_addr_token_balance_key ::
    "'u u256_ops \<Rightarrow> bytes \<Rightarrow> 'u \<Rightarrow> bytes \<Rightarrow> bytes res" where
  [enc_defs]: "encode_addr_token_balance_key U lock_hash balance type_hash =
     rbind (assert_key_component_len ''encode_addr_token_balance_key'' ''lock_hash''
              (length lock_hash) HASH32_LEN) (\<lambda>_.
     rbind (assert_key_component_len ''encode_addr_token_balance_key'' ''type_hash''
              (length type_hash) HASH32_LEN) (\<lambda>_.
     Inr (take 32 lock_hash @ encode_desc_token_balance U balance @ take 32 type_hash)))"

definition encode_addr_token_balance_seek_after_key ::
    "'u u256_ops \<Rightarrow> bytes \<Rightarrow> 'u \<Rightarrow> bytes \<Rightarrow> bytes res" where
  [enc_defs]: "encode_addr_token_balance_seek_after_key U lock_hash balance type_hash =
     rbind (encode_addr_token_balance_key U lock_hash balance type_hash) (\<lambda>key.
     Inr (key @ [0xFF]))"

definition decode_addr_token_balance_key ::
    "'u u256_ops \<Rightarrow> bytes \<Rightarrow> (bytes \<times> 'u \<times> bytes) res" where
  [dec_defs]: "decode_addr_token_balance_key U key =
     rbind (ensure (length key = ADDR_TOKEN_BALANCE_KEY_SIZE)
              (Panic ''decode_addr_token_balance_key'')) (\<lambda>_.
     rbind (slice 32 64 key) (\<lambda>b.
     rbind (decode_desc_token_balance U b) (\<lambda>balance.
     rbind (slice 0 32 key) (\<lambda>lock_hash.
     rbind (slice 64 96 key) (\<lambda>type_hash.
     Inr (lock_hash, balance, type_hash))))))"

section \<open>Token transfers\<close>

definition TOKEN_TRANSFER_KEY_SIZE :: nat where [simp]: "TOKEN_TRANSFER_KEY_SIZE = 44"

definition encode_token_transfer_key :: "bytes \<Rightarrow> i64 \<Rightarrow> i32 \<Rightarrow> bytes res" where
  [enc_defs]: "encode_token_transfer_key type_hash block_num tx_idx =
     rbind (assert_key_component_len ''encode_token_transfer_key'' ''type_hash''
              (length type_hash) HASH32_LEN) (\<lambda>_.
     rbind (encode_desc_block_num block_num) (\<lambda>block_desc.
     rbind (encode_desc_tx_idx tx_idx) (\<lambda>idx_desc.
     Inr (take 32 type_hash @ block_desc @ idx_desc))))"

definition decode_token_transfer_key :: "bytes \<Rightarrow> (i64 \<times> i32) res" where
  [dec_defs]: "decode_token_transfer_key key =
     rbind (slice 32 40 key) (\<lambda>b.
     rbind (slice 40 44 key) (\<lambda>i.
     Inr (I64_MAX - from_be_bytes b, I32_MAX - from_be_bytes i)))"

section \<open>Laws\<close>

interpretation addr_tx_codec:
  key_codec "\<lambda>(l, b, i, h). encode_addr_tx_key l b i h" decode_addr_tx_key id
  by unfold_locales (auto simp: enc_defs dec_defs res_simps)

interpretation addr_tx_width:
  fixed_width_key "\<lambda>(l, b, i, h). encode_addr_tx_key l b i h" ADDR_TX_KEY_SIZE
  by unfold_locales (auto simp: enc_defs res_simps)

interpretation addr_tx_by_prefix_codec:
  key_codec "\<lambda>(p, b, i, h). encode_addr_tx_by_prefix_key p b i h" decode_addr_tx_by_prefix_key id
  by unfold_locales (auto simp: enc_defs dec_defs res_simps)

interpretation token_transfer_codec:
  key_codec "\<lambda>(t, b, i). encode_token_transfer_key t b i" decode_token_transfer_key snd
  by unfold_locales (auto simp: enc_defs dec_defs res_simps)

interpretation cell_index_row: row_key "\<lambda>(s, b, h, i). encode_cell_index_key s b h i"
  by unfold_locales (auto simp: enc_defs res_simps)

interpretation token_holder_row: row_key "\<lambda>(t, l). encode_token_holder_key t l"
  by unfold_locales (auto simp: enc_defs res_simps)

interpretation cell_code_scan:
  prefix_scan "\<lambda>(c, t, b, h, i). encode_cell_code_index_key c t b h i"
    "\<lambda>(c, t). encode_cell_code_index_prefix c t" "\<lambda>(c', t') (c, t, b, h, i). c = c' \<and> t = t'"
  by unfold_locales (auto simp: enc_defs res_simps prefix_def)

text \<open>Address transactions: by address, then newest first.\<close>

fun addr_tx_before :: "bytes \<times> i64 \<times> i32 \<times> bytes \<Rightarrow> bytes \<times> i64 \<times> i32 \<times> bytes \<Rightarrow> bool" where
  "addr_tx_before (l, b, i, h) (l', b', i', h') \<longleftrightarrow>
     l < l' \<or> l = l' \<and> (newer_pos (b, i) (b', i') \<or> (b, i) = (b', i') \<and> h < h')"

interpretation addr_tx_order:
  ordered_key "\<lambda>(l, b, i, h). encode_addr_tx_key l b i h" addr_tx_before
  by unfold_locales (auto simp: enc_defs res_simps order_simps)

text \<open>
  A page after a position: the seek key ends in thirty-two \<open>0xFF\<close> bytes, so it
  passes every transaction at the position itself, except one whose hash is
  those very bytes.
\<close>

definition plain_hash :: "bytes \<Rightarrow> bool" where
  "plain_hash h \<longleftrightarrow> h \<noteq> replicate 32 0xFF"

interpretation addr_tx_seek:
  seek_key "\<lambda>(l, b, i, h). encode_addr_tx_key l b i h"
    "\<lambda>(l, b, i). encode_addr_tx_seek_after_key l b i" "\<lambda>(l, b, i, h). plain_hash h"
    "\<lambda>(l', b', i') (l, b, i, h). l' < l \<or> l' = l \<and> newer_pos (b', i') (b, i)"
  by unfold_locales
    (auto simp: enc_defs res_simps order_simps plain_hash_def ones_le_iff)

interpretation addr_tx_block_seek:
  seek_key "\<lambda>(l, b, i, h). encode_addr_tx_key l b i h"
    "\<lambda>(l, b). encode_addr_tx_block_seek_key l b" "\<lambda>_. True"
    "\<lambda>(l', b') (l, b, i, h). l' < l \<or> l' = l \<and> sint b \<le> sint b'"
  by unfold_locales
    (auto simp: enc_defs res_simps order_simps)

interpretation addr_tx_by_prefix_order:
  ordered_key "\<lambda>(l, b, i, h). encode_addr_tx_by_prefix_key l b i h" addr_tx_before
  by unfold_locales (auto simp: enc_defs res_simps order_simps)

interpretation addr_tx_by_prefix_seek:
  seek_key "\<lambda>(l, b, i, h). encode_addr_tx_by_prefix_key l b i h"
    "\<lambda>(l, b, i). encode_addr_tx_by_prefix_seek_after_key l b i" "\<lambda>(l, b, i, h). plain_hash h"
    "\<lambda>(l', b', i') (l, b, i, h). l' < l \<or> l' = l \<and> newer_pos (b', i') (b, i)"
  by unfold_locales
    (auto simp: enc_defs res_simps order_simps plain_hash_def ones_le_iff)

fun token_transfer_before :: "bytes \<times> i64 \<times> i32 \<Rightarrow> bytes \<times> i64 \<times> i32 \<Rightarrow> bool" where
  "token_transfer_before (t, b, i) (t', b', i') \<longleftrightarrow> t < t' \<or> t = t' \<and> newer_pos (b, i) (b', i')"

interpretation token_transfer_order:
  ordered_key "\<lambda>(t, b, i). encode_token_transfer_key t b i" token_transfer_before
  by unfold_locales (auto simp: enc_defs res_simps order_simps)

section \<open>Balance rankings\<close>

context u256
begin

lemma desc_balance_less:
  "encode_desc_token_balance U a < encode_desc_token_balance U b \<longleftrightarrow> val b < val a"
  by (simp add: encode_desc_token_balance_def map_not_less_iff length_token_to_be_bytes token_order)

lemma length_desc_balance: "length (encode_desc_token_balance U a) = ENCODED_LEN"
  by (simp add: encode_desc_token_balance_def length_token_to_be_bytes)

lemma desc_balance_inj:
  "encode_desc_token_balance U a = encode_desc_token_balance U b \<longleftrightarrow> a = b"
  using desc_balance_less [of a b] desc_balance_less [of b a] val_inj [of a b] by force

lemma decode_desc_balance: "decode_desc_token_balance U (encode_desc_token_balance U a) = Inr a"
  by (simp add: decode_desc_token_balance_def encode_desc_token_balance_def map_not_not
      length_token_to_be_bytes token_roundtrip del: map_map)

lemmas balance_simps = desc_balance_less length_desc_balance desc_balance_inj decode_desc_balance

end

text \<open>
  One ranking, whichever hash leads: the rows of the leading hash, largest
  balance first, ties by the trailing hash.
\<close>

fun ranked_before ::
    "('u \<Rightarrow> nat) \<Rightarrow> bytes \<times> 'u \<times> bytes \<Rightarrow> bytes \<times> 'u \<times> bytes \<Rightarrow> bool" where
  "ranked_before val (t, u, l) (t', u', l') \<longleftrightarrow>
     t < t' \<or> t = t' \<and> (val u' < val u \<or> u = u' \<and> l < l')"

sublocale u256 \<subseteq> token_holder_codec:
  key_codec "\<lambda>(t, u, l). encode_token_holder_balance_key U t u l" "decode_token_holder_balance_key U" id
  by unfold_locales (auto simp: enc_defs dec_defs res_simps balance_simps)

sublocale u256 \<subseteq> token_holder_order:
  ordered_key "\<lambda>(t, u, l). encode_token_holder_balance_key U t u l" "ranked_before val"
  by unfold_locales (auto simp: enc_defs res_simps order_simps balance_simps)

sublocale u256 \<subseteq> token_holder_seek:
  seek_key "\<lambda>(t, u, l). encode_token_holder_balance_key U t u l"
    "\<lambda>(t, u, l). encode_token_holder_balance_seek_after_key U t u l" "\<lambda>_. True" "ranked_before val"
  by unfold_locales (auto simp: enc_defs res_simps order_simps balance_simps)

sublocale u256 \<subseteq> addr_token_codec:
  key_codec "\<lambda>(l, u, t). encode_addr_token_balance_key U l u t" "decode_addr_token_balance_key U" id
  by unfold_locales (auto simp: enc_defs dec_defs res_simps balance_simps)

sublocale u256 \<subseteq> addr_token_order:
  ordered_key "\<lambda>(l, u, t). encode_addr_token_balance_key U l u t" "ranked_before val"
  by unfold_locales (auto simp: enc_defs res_simps order_simps balance_simps)

sublocale u256 \<subseteq> addr_token_seek:
  seek_key "\<lambda>(l, u, t). encode_addr_token_balance_key U l u t"
    "\<lambda>(l, u, t). encode_addr_token_balance_seek_after_key U l u t" "\<lambda>_. True" "ranked_before val"
  by unfold_locales (auto simp: enc_defs res_simps order_simps balance_simps)

end
