(* ===== verification/Keys_Activity.thy ===== *)
theory Keys_Activity
  imports Keys_Core
begin

text \<open>
  Keys of \<^verbatim>\<open>crates/ckbadger-store/src/keys.rs\<close> for DAO deposits (by block, by
  lock and by status), for the activity of object collections, and for Fiber
  channels. The blake2b hasher of a Fiber channel id is the parameter \<open>blake2b\<close>:
  the digest of the bytes fed to it.
\<close>

section \<open>DAO deposits\<close>

definition DAO_BY_BLOCK_KEY_SIZE :: nat where [simp]: "DAO_BY_BLOCK_KEY_SIZE = 42"
definition DAO_BY_LOCK_BLOCK_KEY_SIZE :: nat where [simp]: "DAO_BY_LOCK_BLOCK_KEY_SIZE = 74"
definition DAO_BY_STATUS_BLOCK_KEY_SIZE :: nat where [simp]: "DAO_BY_STATUS_BLOCK_KEY_SIZE = 44"

definition encode_dao_by_block_key :: "i64 \<Rightarrow> bytes \<Rightarrow> bytes res" where
  [enc_defs]: "encode_dao_by_block_key deposit_block outpoint_key =
     rbind (ensure (length outpoint_key = OUTPOINT_KEY_SIZE) (Panic ''encode_dao_by_block_key'')) (\<lambda>_.
     rbind (encode_desc_block_num deposit_block) (\<lambda>block_desc.
     Inr (block_desc @ outpoint_key)))"

definition decode_dao_by_block_key :: "bytes \<Rightarrow> (i64 \<times> bytes \<times> i16) res" where
  [dec_defs]: "decode_dao_by_block_key key =
     rbind (ensure (length key = DAO_BY_BLOCK_KEY_SIZE) (Panic ''decode_dao_by_block_key'')) (\<lambda>_.
     rbind (slice 0 8 key) (\<lambda>block_desc.
     rbind (slice 8 42 key) (\<lambda>outpoint.
     rbind (decode_outpoint outpoint) (\<lambda>(tx_hash, output_index).
     Inr (I64_MAX - from_be_bytes block_desc, tx_hash, output_index)))))"

definition encode_dao_by_lock_block_key :: "bytes \<Rightarrow> i64 \<Rightarrow> bytes \<Rightarrow> bytes res" where
  [enc_defs]: "encode_dao_by_lock_block_key lock_hash deposit_block outpoint_key =
     rbind (ensure (length lock_hash = 32)
              (Panic ''encode_dao_by_lock_block_key: lock_hash'')) (\<lambda>_.
     rbind (ensure (length outpoint_key = OUTPOINT_KEY_SIZE)
              (Panic ''encode_dao_by_lock_block_key: outpoint'')) (\<lambda>_.
     rbind (encode_desc_block_num deposit_block) (\<lambda>block_desc.
     Inr (lock_hash @ block_desc @ outpoint_key))))"

definition decode_dao_by_lock_block_key :: "bytes \<Rightarrow> (bytes \<times> i64 \<times> bytes \<times> i16) res" where
  [dec_defs]: "decode_dao_by_lock_block_key key =
     rbind (ensure (length key = DAO_BY_LOCK_BLOCK_KEY_SIZE)
              (Panic ''decode_dao_by_lock_block_key'')) (\<lambda>_.
     rbind (slice 0 32 key) (\<lambda>lock_hash.
     rbind (slice 32 40 key) (\<lambda>block_desc.
     rbind (slice 40 74 key) (\<lambda>outpoint.
     rbind (decode_outpoint outpoint) (\<lambda>(tx_hash, output_index).
     Inr (lock_hash, I64_MAX - from_be_bytes block_desc, tx_hash, output_index))))))"

definition encode_dao_by_lock_prefix :: "bytes \<Rightarrow> bytes res" where
  [enc_defs]: "encode_dao_by_lock_prefix lock_hash =
     rbind (ensure (length lock_hash = 32) (Panic ''encode_dao_by_lock_prefix'')) (\<lambda>_.
     Inr lock_hash)"

definition encode_dao_by_status_block_key :: "i16 \<Rightarrow> i64 \<Rightarrow> bytes \<Rightarrow> bytes res" where
  [enc_defs]: "encode_dao_by_status_block_key status deposit_block outpoint_key =
     rbind (ensure (length outpoint_key = OUTPOINT_KEY_SIZE)
              (Panic ''encode_dao_by_status_block_key'')) (\<lambda>_.
     rbind (encode_desc_block_num deposit_block) (\<lambda>block_desc.
     Inr (to_be_bytes status @ block_desc @ outpoint_key)))"

definition decode_dao_by_status_block_key :: "bytes \<Rightarrow> (i16 \<times> i64 \<times> bytes \<times> i16) res" where
  [dec_defs]: "decode_dao_by_status_block_key key =
     rbind (ensure (length key = DAO_BY_STATUS_BLOCK_KEY_SIZE)
              (Panic ''decode_dao_by_status_block_key'')) (\<lambda>_.
     rbind (slice 0 2 key) (\<lambda>status.
     rbind (slice 2 10 key) (\<lambda>block_desc.
     rbind (slice 10 44 key) (\<lambda>outpoint.
     rbind (decode_outpoint outpoint) (\<lambda>(tx_hash, output_index).
     Inr (from_be_bytes status, I64_MAX - from_be_bytes block_desc, tx_hash, output_index))))))"

definition encode_dao_by_status_prefix :: "i16 \<Rightarrow> bytes" where
  [enc_defs]: "encode_dao_by_status_prefix status = to_be_bytes status"

section \<open>Collection activity\<close>

definition COLLECTION_ACTIVITY_DAILY_KEY_SIZE :: nat where
  [simp]: "COLLECTION_ACTIVITY_DAILY_KEY_SIZE = 36"

definition encode_collection_activity_daily_key :: "bytes \<Rightarrow> u32 \<Rightarrow> bytes res" where
  [enc_defs]: "encode_collection_activity_daily_key collection_id day_yyyymmdd =
     rbind (pad_id_32 collection_id) (\<lambda>padded.
     Inr (padded @ to_be_bytes day_yyyymmdd))"

definition decode_collection_activity_daily_key :: "bytes \<Rightarrow> (bytes \<times> u32) res" where
  [dec_defs]: "decode_collection_activity_daily_key key =
     rbind (ensure (length key = COLLECTION_ACTIVITY_DAILY_KEY_SIZE)
              (Bail ''collection_activity_daily key width'')) (\<lambda>_.
     rbind (slice 0 32 key) (\<lambda>collection_id.
     rbind (slice 32 (length key) key) (\<lambda>day.
     Inr (collection_id, from_be_bytes day))))"

definition OBJECT_COLLECTION_ACTIVITY_KEY_SIZE :: nat where
  [simp]: "OBJECT_COLLECTION_ACTIVITY_KEY_SIZE = 108"

definition encode_object_collection_activity_key ::
    "bytes \<Rightarrow> i64 \<Rightarrow> i32 \<Rightarrow> bytes \<Rightarrow> bytes \<Rightarrow> bytes res" where
  [enc_defs]: "encode_object_collection_activity_key collection_id block_num tx_idx block_hash tx_hash =
     rbind (assert_key_component_len ''encode_object_collection_activity_key'' ''block_hash''
              (length block_hash) HASH32_LEN) (\<lambda>_.
     rbind (assert_key_component_len ''encode_object_collection_activity_key'' ''tx_hash''
              (length tx_hash) HASH32_LEN) (\<lambda>_.
     rbind (pad_id_32 collection_id) (\<lambda>padded.
     rbind (encode_desc_block_num block_num) (\<lambda>block_desc.
     rbind (encode_desc_tx_idx tx_idx) (\<lambda>idx_desc.
     Inr (padded @ block_desc @ idx_desc @ take 32 block_hash @ take 32 tx_hash))))))"

definition encode_object_collection_activity_prefix :: "bytes \<Rightarrow> bytes res" where
  [enc_defs]: "encode_object_collection_activity_prefix collection_id = pad_id_32 collection_id"

definition encode_object_collection_activity_seek_after_key :: "bytes \<Rightarrow> i64 \<Rightarrow> i32 \<Rightarrow> bytes res" where
  [enc_defs]: "encode_object_collection_activity_seek_after_key collection_id block_num tx_idx =
     rbind (pad_id_32 collection_id) (\<lambda>padded.
     rbind (encode_desc_block_num block_num) (\<lambda>block_desc.
     rbind (encode_desc_tx_idx tx_idx) (\<lambda>idx_desc.
     Inr (padded @ block_desc @ idx_desc @
          replicate (OBJECT_COLLECTION_ACTIVITY_KEY_SIZE - 44) 0xFF))))"

definition decode_object_collection_activity_key ::
    "bytes \<Rightarrow> (bytes \<times> i64 \<times> i32 \<times> bytes \<times> bytes) res" where
  [dec_defs]: "decode_object_collection_activity_key key =
     rbind (ensure (length key = OBJECT_COLLECTION_ACTIVITY_KEY_SIZE)
              (Panic ''decode_object_collection_activity_key'')) (\<lambda>_.
     rbind (slice 0 32 key) (\<lambda>collection_id.
     rbind (slice 32 40 key) (\<lambda>b.
     rbind (decode_desc_block_num b) (\<lambda>block_num.
     rbind (slice 40 44 key) (\<lambda>i.
     rbind (decode_desc_tx_idx i) (\<lambda>tx_idx.
     rbind (slice 44 76 key) (\<lambda>block_hash.
     rbind (slice 76 108 key) (\<lambda>tx_hash.
     Inr (collection_id, block_num, tx_idx, block_hash, tx_hash)))))))))"

section \<open>Fiber channels\<close>

definition encode_fiber_channel_id :: "(bytes \<Rightarrow> bytes) \<Rightarrow> bytes \<Rightarrow> u32 \<Rightarrow> bytes res" where
  [enc_defs]: "encode_fiber_channel_id blake2b funding_tx_hash output_index =
     rbind (assert_key_component_len ''encode_fiber_channel_id'' ''funding_tx_hash''
              (length funding_tx_hash) HASH32_LEN) (\<lambda>_.
     Inr (blake2b (funding_tx_hash @ to_le_bytes output_index)))"

definition FIBER_OUTPOINT_SIZE :: nat where [simp]: "FIBER_OUTPOINT_SIZE = 36"

definition encode_fiber_outpoint :: "bytes \<Rightarrow> u32 \<Rightarrow> bytes res" where
  [enc_defs]: "encode_fiber_outpoint tx_hash output_index =
     rbind (assert_key_component_len ''encode_fiber_outpoint'' ''tx_hash''
              (length tx_hash) HASH32_LEN) (\<lambda>_.
     Inr (tx_hash @ to_le_bytes output_index))"

definition decode_fiber_outpoint :: "bytes \<Rightarrow> (bytes \<times> u32) res" where
  [dec_defs]: "decode_fiber_outpoint data =
     rbind (ensure (FIBER_OUTPOINT_SIZE \<le> length data) (Panic ''decode_fiber_outpoint'')) (\<lambda>_.
     rbind (slice 0 32 data) (\<lambda>tx_hash.
     rbind (slice 32 36 data) (\<lambda>index.
     Inr (tx_hash, from_le_bytes index))))"

definition ADDR_FIBER_CHANNEL_KEY_SIZE :: nat where [simp]: "ADDR_FIBER_CHANNEL_KEY_SIZE = 64"

definition encode_addr_fiber_channel_key :: "bytes \<Rightarrow> bytes \<Rightarrow> bytes res" where
  [enc_defs]: "encode_addr_fiber_channel_key lock_hash channel_id =
     rbind (assert_key_component_len ''encode_addr_fiber_channel_key'' ''lock_hash''
              (length lock_hash) HASH32_LEN) (\<lambda>_.
     rbind (assert_key_component_len ''encode_addr_fiber_channel_key'' ''channel_id''
              (length channel_id) HASH32_LEN) (\<lambda>_.
     Inr (take 32 lock_hash @ take 32 channel_id)))"

definition decode_addr_fiber_channel_key :: "bytes \<Rightarrow> (bytes \<times> bytes) res" where
  [dec_defs]: "decode_addr_fiber_channel_key key =
     rbind (ensure (ADDR_FIBER_CHANNEL_KEY_SIZE \<le> length key)
              (Panic ''decode_addr_fiber_channel_key'')) (\<lambda>_.
     rbind (slice 0 32 key) (\<lambda>lock_hash.
     rbind (slice 32 64 key) (\<lambda>channel_id.
     Inr (lock_hash, channel_id))))"

section \<open>Laws\<close>

text \<open>The outpoint part of a DAO key is itself an encoded outpoint.\<close>

interpretation dao_by_block_codec:
  key_codec "\<lambda>(b, h, i). rbind (encode_outpoint h i) (encode_dao_by_block_key b)"
    decode_dao_by_block_key id
  by unfold_locales (auto simp: enc_defs dec_defs res_simps)

interpretation dao_by_lock_block_codec:
  key_codec "\<lambda>(l, b, h, i). rbind (encode_outpoint h i) (encode_dao_by_lock_block_key l b)"
    decode_dao_by_lock_block_key id
  by unfold_locales (auto simp: enc_defs dec_defs res_simps)

interpretation dao_by_status_block_codec:
  key_codec "\<lambda>(s, b, h, i). rbind (encode_outpoint h i) (encode_dao_by_status_block_key s b)"
    decode_dao_by_status_block_key id
  by unfold_locales (auto simp: enc_defs dec_defs res_simps)

interpretation dao_by_lock_scan:
  prefix_scan "\<lambda>(l, b, p). encode_dao_by_lock_block_key l b p" encode_dao_by_lock_prefix
    "\<lambda>g (l, b, p). l = g"
  by unfold_locales (auto simp: enc_defs res_simps prefix_def)

interpretation dao_by_status_scan:
  prefix_scan "\<lambda>(s, b, p). encode_dao_by_status_block_key s b p"
    "\<lambda>s. Inr (encode_dao_by_status_prefix s)" "\<lambda>g (s, b, p). s = g"
  by unfold_locales (auto simp: enc_defs res_simps prefix_def)

interpretation collection_activity_daily_codec:
  key_codec "\<lambda>(c, d). encode_collection_activity_daily_key c d" decode_collection_activity_daily_key
    "\<lambda>(c, d). (c @ replicate (32 - length c) 0, d)"
  by unfold_locales (auto simp: enc_defs dec_defs res_simps)

interpretation object_collection_activity_codec:
  key_codec "\<lambda>(c, b, i, bh, h). encode_object_collection_activity_key c b i bh h"
    decode_object_collection_activity_key
    "\<lambda>(c, b, i, bh, h). (c @ replicate (32 - length c) 0, b, i, bh, h)"
  by unfold_locales (auto simp: enc_defs dec_defs res_simps)

interpretation fiber_outpoint_codec:
  key_codec "\<lambda>(h, i). encode_fiber_outpoint h i" decode_fiber_outpoint id
  by unfold_locales (auto simp: enc_defs dec_defs res_simps)

interpretation addr_fiber_channel_codec:
  key_codec "\<lambda>(l, c). encode_addr_fiber_channel_key l c" decode_addr_fiber_channel_key id
  by unfold_locales (auto simp: enc_defs dec_defs res_simps)

end
