(* ===== verification/Keys_Sync.thy ===== *)
theory Keys_Sync
  imports Keys_Core
begin

text \<open>
  The keys of the \<open>sync_meta\<close> column family
  (\<^verbatim>\<open>crates/ckbadger-store/src/keys.rs\<close>): the named singletons, the live-cell
  summary history, and the reorg event history, whose keys are text of fixed
  width so that their byte order is the order of the events.
\<close>

section \<open>Text fields\<close>

text \<open>\<open>bytes_to_hex\<close>: two lower-case digits a byte.\<close>

definition HEX :: bytes where "HEX = ascii ''0123456789abcdef''"

definition bytes_to_hex :: "bytes \<Rightarrow> bytes" where
  "bytes_to_hex bs = concat (map (\<lambda>b. [HEX ! unat (drop_bit 4 b), HEX ! unat (b AND 0x0f)]) bs)"

text \<open>\<open>format!("{:0width$}", n)\<close> for an \<open>n\<close> of at most \<open>width\<close> digits.\<close>

fun zero_padded :: "nat \<Rightarrow> int \<Rightarrow> bytes" where
  "zero_padded 0 n = []"
| "zero_padded (Suc w) n = zero_padded w (n div 10) @ [48 + of_int (n mod 10)]"

definition is_ascii_digit :: "byte \<Rightarrow> bool" where
  "is_ascii_digit b \<longleftrightarrow> 48 \<le> b \<and> b \<le> 57"

definition is_ascii_hexdigit :: "byte \<Rightarrow> bool" where
  "is_ascii_hexdigit b \<longleftrightarrow> 48 \<le> b \<and> b \<le> 57 \<or> 65 \<le> b \<and> b \<le> 70 \<or> 97 \<le> b \<and> b \<le> 102"

text \<open>The value of a string of digits, and \<open>parse::<i64>()\<close> of one.\<close>

definition dec_val :: "bytes \<Rightarrow> int" where
  "dec_val bs = foldl (\<lambda>acc b. acc * 10 + (uint b - 48)) 0 bs"

definition parse_i64_digits :: "bytes \<Rightarrow> i64 option" where
  "parse_i64_digits bs = (if bs \<noteq> [] \<and> dec_val bs < 2 ^ 63 then Some (of_int (dec_val bs)) else None)"

section \<open>Singletons and name-suffixed keys\<close>

definition encode_tx_group_cycles_key :: "bytes \<Rightarrow> bytes" where
  "encode_tx_group_cycles_key tx_hash = ascii ''tx_group_cycles:'' @ tx_hash"

definition TIP_BLOCK :: bytes where "TIP_BLOCK = ascii ''tip_block''"
definition SYNC_STATUS :: bytes where "SYNC_STATUS = ascii ''sync_status''"
definition RUNTIME_STATUS :: bytes where "RUNTIME_STATUS = ascii ''runtime_status''"
definition ROLLBACK_CLEANUP_IN_PROGRESS :: bytes where
  "ROLLBACK_CLEANUP_IN_PROGRESS = ascii ''rollback_cleanup_in_progress''"
definition REORG_RECONCILE_PENDING :: bytes where
  "REORG_RECONCILE_PENDING = ascii ''reorg_reconcile_pending''"
definition DEEP_FORK :: bytes where "DEEP_FORK = ascii ''deep_fork''"
definition HODL_TRACKER :: bytes where "HODL_TRACKER = ascii ''hodl_tracker''"
definition CELL_DIST_TRACKER :: bytes where "CELL_DIST_TRACKER = ascii ''cell_dist_tracker''"
definition SYNC_PROGRESS :: bytes where "SYNC_PROGRESS = ascii ''sync_progress''"
definition MEMORY_STATS :: bytes where "MEMORY_STATS = ascii ''memory_stats''"
definition BULK_BATCH_IN_PROGRESS :: bytes where
  "BULK_BATCH_IN_PROGRESS = ascii ''bulk_batch_in_progress''"
definition BULK_BUILD_SESSION_IN_PROGRESS :: bytes where
  "BULK_BUILD_SESSION_IN_PROGRESS = ascii ''bulk_build_session_in_progress''"
definition BACKGROUND_TASKS :: bytes where "BACKGROUND_TASKS = ascii ''background_tasks''"
definition NETWORK_IDENTITY :: bytes where "NETWORK_IDENTITY = ascii ''network_identity''"
definition GENESIS_BASELINE :: bytes where "GENESIS_BASELINE = ascii ''genesis_baseline''"
definition SECONDARY_EPOCH_REWARD :: bytes where
  "SECONDARY_EPOCH_REWARD = ascii ''secondary_epoch_reward''"
definition LIVE_CELL_SUMMARY_CURRENT :: bytes where
  "LIVE_CELL_SUMMARY_CURRENT = ascii ''live_cell_summary:current''"
definition LIVE_CELL_SUMMARY_INITIALIZED :: bytes where
  "LIVE_CELL_SUMMARY_INITIALIZED = ascii ''live_cell_summary:initialized''"
definition ENTITY_STATS_UNDO_CONTRACT :: bytes where
  "ENTITY_STATS_UNDO_CONTRACT = ascii ''entity_stats_undo_contract''"
definition HOURLY_RETENTION_STATE_PREFIX :: bytes where
  "HOURLY_RETENTION_STATE_PREFIX = ascii ''hourly_retention_state:''"
definition DERIVE_META_PREFIX :: bytes where "DERIVE_META_PREFIX = ascii ''derive:''"

definition encode_derive_meta_key :: "bytes \<Rightarrow> bytes" where
  "encode_derive_meta_key aggregate = DERIVE_META_PREFIX @ aggregate"

definition encode_hourly_retention_state_key :: "bytes \<Rightarrow> bytes" where
  "encode_hourly_retention_state_key family = HOURLY_RETENTION_STATE_PREFIX @ family"

section \<open>Live-cell summary history\<close>

definition LIVE_CELL_SUMMARY_HISTORY_KEY_PREFIX :: bytes where
  "LIVE_CELL_SUMMARY_HISTORY_KEY_PREFIX = ascii ''live_cell_summary:history:''"

definition LIVE_CELL_SUMMARY_HISTORY_KEY_SIZE :: nat where
  "LIVE_CELL_SUMMARY_HISTORY_KEY_SIZE =
     length LIVE_CELL_SUMMARY_HISTORY_KEY_PREFIX + BLOCK_NUM_KEY_SIZE"

definition encode_live_cell_summary_history_key :: "i64 \<Rightarrow> bytes res" where
  [enc_defs]: "encode_live_cell_summary_history_key block_number =
     rbind (encode_block_num block_number) (\<lambda>b.
     Inr (LIVE_CELL_SUMMARY_HISTORY_KEY_PREFIX @ b))"

definition decode_live_cell_summary_history_key :: "bytes \<Rightarrow> i64 res" where
  [dec_defs]: "decode_live_cell_summary_history_key key =
     rbind (ensure (length key = LIVE_CELL_SUMMARY_HISTORY_KEY_SIZE
                    \<and> prefix LIVE_CELL_SUMMARY_HISTORY_KEY_PREFIX key)
              (Bail ''malformed live-cell summary history key'')) (\<lambda>_.
     rbind (decode_block_num (drop (length LIVE_CELL_SUMMARY_HISTORY_KEY_PREFIX) key)) (\<lambda>block_number.
     rbind (ensure (0 \<le> sint block_number)
              (Bail ''live-cell summary history key contains negative block'')) (\<lambda>_.
     Inr block_number)))"

section \<open>Reorg events\<close>

definition REORG_EVENT_KEY_PREFIX :: bytes where "REORG_EVENT_KEY_PREFIX = ascii ''reorg:''"
definition REORG_EVENT_KEY_PREFIX_END :: bytes where "REORG_EVENT_KEY_PREFIX_END = ascii ''reorg;''"
definition REORG_EVENT_MS_DIGITS :: nat where [simp]: "REORG_EVENT_MS_DIGITS = 13"
definition REORG_EVENT_UUID_HEX_LEN :: nat where [simp]: "REORG_EVENT_UUID_HEX_LEN = 32"
definition REORG_EVENT_KEY_SIZE :: nat where
  [simp]: "REORG_EVENT_KEY_SIZE = 6 + REORG_EVENT_MS_DIGITS + 1 + REORG_EVENT_UUID_HEX_LEN"
definition REORG_EVENT_MS_LIMIT :: int where "REORG_EVENT_MS_LIMIT = 10000000000000"

definition encode_reorg_event_key :: "i64 \<Rightarrow> bytes \<Rightarrow> bytes res" where
  [enc_defs]: "encode_reorg_event_key detected_at_ms uuid =
     rbind (ensure (0 \<le> sint detected_at_ms \<and> sint detected_at_ms < REORG_EVENT_MS_LIMIT)
              (Bail ''reorg event timestamp outside representable key range'')) (\<lambda>_.
     Inr (ascii ''reorg:'' @ zero_padded REORG_EVENT_MS_DIGITS (sint detected_at_ms) @
          ascii '':'' @ bytes_to_hex uuid))"

definition reorg_event_key_ms_prefix :: "i64 \<Rightarrow> bytes res" where
  [enc_defs]: "reorg_event_key_ms_prefix detected_at_ms =
     rbind (ensure (0 \<le> sint detected_at_ms \<and> sint detected_at_ms < REORG_EVENT_MS_LIMIT)
              (Bail ''reorg event timestamp outside representable key range'')) (\<lambda>_.
     Inr (ascii ''reorg:'' @ zero_padded REORG_EVENT_MS_DIGITS (sint detected_at_ms) @
          ascii '':''))"

definition decode_reorg_event_key :: "bytes \<Rightarrow> i64 res" where
  "decode_reorg_event_key key =
     rbind (ensure (length key = REORG_EVENT_KEY_SIZE \<and> prefix REORG_EVENT_KEY_PREFIX key)
              (Bail ''malformed reorg event key'')) (\<lambda>_.
     let ms_end = length REORG_EVENT_KEY_PREFIX + REORG_EVENT_MS_DIGITS;
         ms = take REORG_EVENT_MS_DIGITS (drop (length REORG_EVENT_KEY_PREFIX) key);
         uuid = drop (ms_end + 1) key
     in rbind (ensure (key ! ms_end = 58 \<and> list_all is_ascii_digit ms \<and> list_all is_ascii_hexdigit uuid)
                (Bail ''malformed reorg event key'')) (\<lambda>_.
        ok_or (parse_i64_digits ms) (Bail ''invalid millisecond field in reorg event key'')))"

section \<open>Laws\<close>

lemma literal_bytes:
  "REORG_EVENT_KEY_PREFIX = [114, 101, 111, 114, 103, 58]"
  "REORG_EVENT_KEY_PREFIX_END = [114, 101, 111, 114, 103, 59]"
  "ascii ''reorg:'' = [114, 101, 111, 114, 103, 58]"
  "ascii '':'' = [58]"
  by code_simp+

lemma length_REORG_EVENT_KEY_PREFIX: "length REORG_EVENT_KEY_PREFIX = 6"
  by code_simp

subsection \<open>Decimal fields\<close>

lemma dec_val_Nil [simp]: "dec_val [] = 0"
  by (simp add: dec_val_def)

lemma dec_val_snoc [simp]: "dec_val (bs @ [b]) = dec_val bs * 10 + (uint b - 48)"
  by (simp add: dec_val_def)

lemma dec_val_append: "dec_val (xs @ ys) = dec_val xs * 10 ^ length ys + dec_val ys"
proof (induction ys rule: rev_induct)
  case (snoc b ys)
  have "dec_val (xs @ ys @ [b]) = dec_val (xs @ ys) * 10 + (uint b - 48)"
    using dec_val_snoc [of "xs @ ys"] by simp
  then show ?case using snoc by (simp add: algebra_simps)
qed simp

lemma dec_val_Cons: "dec_val (b # bs) = (uint b - 48) * 10 ^ length bs + dec_val bs"
  using dec_val_append [of "[b]" bs] dec_val_snoc [of "[]" b] by simp

lemma digit_bounds: "is_ascii_digit b \<Longrightarrow> 48 \<le> uint b \<and> uint b \<le> 57"
  by (simp add: is_ascii_digit_def word_le_def)

lemma dec_val_less: "list_all is_ascii_digit bs \<Longrightarrow> 0 \<le> dec_val bs \<and> dec_val bs < 10 ^ length bs"
proof (induction bs)
  case (Cons b bs)
  then have b: "0 \<le> uint b - 48" "uint b - 48 \<le> 9" and v: "0 \<le> dec_val bs" "dec_val bs < 10 ^ length bs"
    using digit_bounds [of b] by auto
  then have "(uint b - 48) * 10 ^ length bs + dec_val bs < 9 * 10 ^ length bs + 10 ^ length bs"
    by (intro add_le_less_mono mult_right_mono) auto
  moreover have "0 \<le> (uint b - 48) * 10 ^ length bs" using b by (intro mult_nonneg_nonneg) auto
  ultimately show ?case using v by (simp add: dec_val_Cons)
qed simp

lemma lex_step:
  fixes a b x y n :: int
  assumes "0 \<le> x" "x < n" and "0 \<le> y" "y < n"
  shows "a * n + x < b * n + y \<longleftrightarrow> a < b \<or> a = b \<and> x < y"
proof -
  have step: "a * n + x < b * n + y" if "a < b" "x < n" "0 \<le> y" for a b x y :: int
  proof -
    have "(a + 1) * n \<le> b * n" using that assms by (intro mult_right_mono) auto
    then show ?thesis using that by (simp add: algebra_simps)
  qed
  show ?thesis using step [of a b x y] step [of b a y x] assms by (cases a b rule: linorder_cases) auto
qed

lemma dec_val_less_iff:
  assumes "length xs = length ys" "list_all is_ascii_digit xs" "list_all is_ascii_digit ys"
  shows "xs < ys \<longleftrightarrow> dec_val xs < dec_val ys"
  using assms
proof (induction xs ys rule: list_induct2)
  case (Cons x xs y ys)
  have "dec_val (x # xs) < dec_val (y # ys) \<longleftrightarrow>
      uint x - 48 < uint y - 48 \<or> uint x - 48 = uint y - 48 \<and> dec_val xs < dec_val ys"
    using Cons dec_val_less [of xs] dec_val_less [of ys] by (simp add: dec_val_Cons lex_step)
  also have "\<dots> \<longleftrightarrow> x < y \<or> x = y \<and> xs < ys"
    using Cons by (auto simp: word_less_def word_uint_eq_iff)
  finally show ?case by simp
qed simp

lemma length_zero_padded [simp]: "length (zero_padded w n) = w"
  by (induction w n rule: zero_padded.induct) simp_all

lemma uint_digit: "0 \<le> n \<Longrightarrow> n < 10 \<Longrightarrow> uint (48 + of_int n :: byte) = 48 + n"
  by (simp add: uint_word_ariths uint_word_of_int)

lemma zero_padded_digits: "list_all is_ascii_digit (zero_padded w n)"
proof (induction w n rule: zero_padded.induct)
  case (2 w n)
  have "n mod 10 < 10" by simp
  then show ?case using 2 uint_digit [of "n mod 10"] by (simp add: is_ascii_digit_def word_le_def)
qed simp

lemma dec_val_zero_padded: "0 \<le> n \<Longrightarrow> n < 10 ^ w \<Longrightarrow> dec_val (zero_padded w n) = n"
proof (induction w n rule: zero_padded.induct)
  case (2 w n)
  have "n div 10 < 10 ^ w" using 2 by simp
  then show ?case using 2 uint_digit [of "n mod 10"] by simp
qed simp

subsection \<open>Hex fields\<close>

lemma length_bytes_to_hex [simp]: "length (bytes_to_hex bs) = 2 * length bs"
  by (induction bs) (simp_all add: bytes_to_hex_def)

lemma HEX_digits: "list_all is_ascii_hexdigit HEX" "length HEX = 16"
  by code_simp+

lemma bytes_to_hex_digits: "list_all is_ascii_hexdigit (bytes_to_hex bs)"
proof -
  have "unat (drop_bit 4 b) < 16" "unat (b AND 0x0f) < 16" for b :: byte
  proof -
    have "unat (drop_bit 4 b) = unat b div 16" by (simp add: drop_bit_eq_div unat_div)
    then show "unat (drop_bit 4 b) < 16" using unat_byte_less [of b] by linarith
    have "b AND 0x0f = take_bit 4 b" by (simp add: take_bit_eq_mask mask_eq_exp_minus_1)
    then show "unat (b AND 0x0f) < 16" by (simp add: take_bit_eq_mod unat_mod)
  qed
  then show ?thesis using HEX_digits
    by (auto simp: bytes_to_hex_def list_all_iff)
qed

subsection \<open>Key contracts\<close>

interpretation live_cell_summary_history_codec:
  key_codec encode_live_cell_summary_history_key decode_live_cell_summary_history_key id
  by unfold_locales
    (auto simp: enc_defs dec_defs res_simps LIVE_CELL_SUMMARY_HISTORY_KEY_SIZE_def)

subsection \<open>Reorg event history\<close>

lemma parse_i64_digits_Some:
  "parse_i64_digits bs = Some v \<longleftrightarrow> bs \<noteq> [] \<and> dec_val bs < 2 ^ 63 \<and> v = of_int (dec_val bs)"
  by (auto simp: parse_i64_digits_def)

lemma sint_of_int_i64: "0 \<le> n \<Longrightarrow> n < 2 ^ 63 \<Longrightarrow> sint (of_int n :: i64) = n"
  by (simp add: signed_of_int signed_take_bit_int_eq_self)

text \<open>What the decoder accepts: the shape, and the value of the millisecond field.\<close>

lemma decode_reorg_event_key_Inr:
  assumes "decode_reorg_event_key k = Inr m"
  obtains ms uuid where "k = REORG_EVENT_KEY_PREFIX @ ms @ 58 # uuid" "length ms = 13"
    "list_all is_ascii_digit ms" "list_all is_ascii_hexdigit uuid" "sint m = dec_val ms"
proof -
  let ?ms = "take 13 (drop 6 k)" and ?uuid = "drop 20 k"
  have k: "length k = 52" "prefix REORG_EVENT_KEY_PREFIX k" "k ! 19 = 58"
      "list_all is_ascii_digit ?ms" "list_all is_ascii_hexdigit ?uuid"
      and m: "dec_val ?ms < 2 ^ 63" "m = of_int (dec_val ?ms)"
    using assms by (auto simp: decode_reorg_event_key_def res_simps parse_i64_digits_Some
        length_REORG_EVENT_KEY_PREFIX Let_def)
  obtain r where r: "k = REORG_EVENT_KEY_PREFIX @ r" using k(2) by (auto simp: prefix_def)
  have "r = take 13 r @ r ! 13 # drop 14 r"
    using k(1) r id_take_nth_drop [of 13 r] by (simp add: literal_bytes)
  moreover have "take 13 r = ?ms" "r ! 13 = 58" "drop 14 r = ?uuid"
    using k(1,3) r by (simp_all add: literal_bytes)
  ultimately have "k = REORG_EVENT_KEY_PREFIX @ ?ms @ 58 # ?uuid" using r by metis
  then show ?thesis using that [of ?ms ?uuid] k m dec_val_less [OF k(4)] sint_of_int_i64 [of "dec_val ?ms"] by simp
qed

lemma decode_encoded_reorg_key:
  assumes "length uuid = 16" and "encode_reorg_event_key detected_at_ms uuid = Inr key"
  shows "decode_reorg_event_key key = Inr detected_at_ms"
proof -
  let ?n = "sint detected_at_ms"
  have b: "0 \<le> ?n" "?n < 10 ^ 13"
      and key: "key = REORG_EVENT_KEY_PREFIX @ zero_padded 13 ?n @ 58 # bytes_to_hex uuid"
    using assms(2) by (auto simp: encode_reorg_event_key_def res_simps literal_bytes REORG_EVENT_MS_LIMIT_def)
  have "zero_padded 13 ?n \<noteq> []" by (metis length_zero_padded list.size(3) zero_neq_numeral)
  then show ?thesis
    using assms(1) b zero_padded_digits [of 13 ?n] bytes_to_hex_digits [of uuid] dec_val_zero_padded [of ?n 13]
    by (simp add: decode_reorg_event_key_def key length_REORG_EVENT_KEY_PREFIX nth_append
        parse_i64_digits_def)
qed

text \<open>C32. A history key decodes to the detection time it was built from.\<close>

theorem reorg_event_key_roundtrip:
  assumes "length uuid = 16" and "encode_reorg_event_key detected_at_ms uuid = Inr key"
  shows "decode_reorg_event_key key = Inr detected_at_ms"
  by (rule decode_encoded_reorg_key [OF assms])

theorem reorg_event_key_roundtrip_witness:
  "\<exists>key. encode_reorg_event_key 1700000000123 (replicate 16 0xAB) = Inr key \<and>
     decode_reorg_event_key key = Inr 1700000000123"
proof -
  have "encode_reorg_event_key 1700000000123 (replicate 16 0xAB) =
      Inr (ascii ''reorg:1700000000123:abababababababababababababababab'')"
    by code_simp
  then show ?thesis
    using reorg_event_key_roundtrip [of "replicate 16 0xAB" 1700000000123] by simp
qed

text \<open>
  C33. Byte order is chronological order on every key the decoder accepts, hex case
  included: an earlier event has a smaller key, and a smaller key is never later.
\<close>

theorem reorg_event_key_chronological:
  assumes "decode_reorg_event_key k = Inr m" and "decode_reorg_event_key k' = Inr m'"
  shows "(sint m < sint m' \<longrightarrow> k < k') \<and> (k < k' \<longrightarrow> sint m \<le> sint m')"
proof -
  obtain ms u where 1: "k = REORG_EVENT_KEY_PREFIX @ ms @ 58 # u" "length ms = 13"
      "list_all is_ascii_digit ms" "sint m = dec_val ms"
    using assms(1) by (rule decode_reorg_event_key_Inr)
  obtain ms' u' where 2: "k' = REORG_EVENT_KEY_PREFIX @ ms' @ 58 # u'" "length ms' = 13"
      "list_all is_ascii_digit ms'" "sint m' = dec_val ms'"
    using assms(2) by (rule decode_reorg_event_key_Inr)
  have "k < k' \<longleftrightarrow> ms < ms' \<or> ms = ms' \<and> u < u'"
    using 1 2 by (simp add: less_append_iff)
  moreover have "ms < ms' \<longleftrightarrow> dec_val ms < dec_val ms'"
    using 1 2 by (intro dec_val_less_iff) auto
  ultimately show ?thesis using 1 2 by auto
qed

theorem reorg_event_key_chronological_witness:
  "ascii ''reorg:0000000000999:ffffffffffffffffffffffffffffffff''
    < ascii ''reorg:0000000001000:00000000000000000000000000000000''"
proof -
  have "decode_reorg_event_key (ascii ''reorg:0000000000999:ffffffffffffffffffffffffffffffff'') = Inr 999"
    "decode_reorg_event_key (ascii ''reorg:0000000001000:00000000000000000000000000000000'') = Inr 1000"
    by code_simp+
  from reorg_event_key_chronological [OF this] show ?thesis by simp
qed

text \<open>
  C34. The scan range of the history holds exactly the keys that start with
  \<open>reorg:\<close>, and none of the singleton keys of \<open>sync_meta\<close>, the pending-reconcile
  marker that shares the word included.
\<close>

theorem reorg_event_range_exact:
  "(REORG_EVENT_KEY_PREFIX \<le> k \<and> k < REORG_EVENT_KEY_PREFIX_END \<longleftrightarrow> prefix REORG_EVENT_KEY_PREFIX k) \<and>
   list_all (\<lambda>s. \<not> (REORG_EVENT_KEY_PREFIX \<le> s \<and> s < REORG_EVENT_KEY_PREFIX_END))
     [TIP_BLOCK, SYNC_STATUS, RUNTIME_STATUS, ROLLBACK_CLEANUP_IN_PROGRESS, REORG_RECONCILE_PENDING,
      DEEP_FORK, HODL_TRACKER, CELL_DIST_TRACKER, SYNC_PROGRESS, MEMORY_STATS, BULK_BATCH_IN_PROGRESS,
      BULK_BUILD_SESSION_IN_PROGRESS, BACKGROUND_TASKS, NETWORK_IDENTITY, GENESIS_BASELINE,
      SECONDARY_EPOCH_REWARD, LIVE_CELL_SUMMARY_CURRENT, LIVE_CELL_SUMMARY_INITIALIZED,
      ENTITY_STATS_UNDO_CONTRACT]"
proof (rule conjI)
  have step: "b # p \<le> k \<and> k < b # q \<longleftrightarrow> (\<exists>r. k = b # r \<and> p \<le> r \<and> r < q)"
    for b :: byte and p q k by (cases k) auto
  have last: "[58] \<le> k \<and> k < [59 :: byte] \<longleftrightarrow> (\<exists>r. k = 58 # r)" for k
  proof (cases k)
    case (Cons c r)
    have "\<not> (58 < c \<and> c < (59 :: byte))" by (auto simp: word_less_nat_alt)
    then show ?thesis using Cons by auto
  qed simp
  show "REORG_EVENT_KEY_PREFIX \<le> k \<and> k < REORG_EVENT_KEY_PREFIX_END \<longleftrightarrow> prefix REORG_EVENT_KEY_PREFIX k"
    unfolding literal_bytes step last by (auto simp: prefix_def)
qed code_simp

end
