(* ===== verification/Tx_Actions.thy ===== *)
theory Tx_Actions
  imports Keys_Core
begin

text \<open>
  The actions of a transaction (\<^verbatim>\<open>crates/ckbadger-store/src/types.rs\<close>, Group I),
  the global activity bucket they classify into
  (\<^verbatim>\<open>crates/ckbadger-store/src/global_bucket.rs\<close>), and the keys of the two column
  families that list them (\<^verbatim>\<open>crates/ckbadger-store/src/keys.rs\<close>): the actions
  themselves newest first, and the index by bucket. Rust strings are their UTF-8
  bytes, written as HOL strings.
\<close>

section \<open>Participants and actions\<close>

definition TAG_TOKEN :: u16 where "TAG_TOKEN = push_bit 0 1"
definition TAG_OBJECT :: u16 where "TAG_OBJECT = push_bit 1 1"
definition TAG_IDENTITY :: u16 where "TAG_IDENTITY = push_bit 2 1"
definition TAG_DAO :: u16 where "TAG_DAO = push_bit 3 1"
definition TAG_PROTOCOL :: u16 where "TAG_PROTOCOL = push_bit 4 1"
definition TAG_CELLBASE :: u16 where "TAG_CELLBASE = push_bit 5 1"
definition TAG_TYPE_CALL :: u16 where "TAG_TYPE_CALL = push_bit 6 1"
definition TAG_LOCK_CALL :: u16 where "TAG_LOCK_CALL = push_bit 7 1"

lemmas tag_defs = TAG_TOKEN_def TAG_OBJECT_def TAG_IDENTITY_def TAG_DAO_def TAG_PROTOCOL_def
  TAG_CELLBASE_def TAG_TYPE_CALL_def TAG_LOCK_CALL_def

datatype IdentityStandard = DotBit | BitCell | DidCkb | DotCell

datatype ItemKind = TokenItem | ObjectItem | IdentityItem IdentityStandard

fun item_tag :: "ItemKind \<Rightarrow> u16" where
  "item_tag TokenItem = TAG_TOKEN"
| "item_tag ObjectItem = TAG_OBJECT"
| "item_tag (IdentityItem s) = TAG_IDENTITY"

record ItemDelta =
  id_item_id :: bytes
  id_kind :: ItemKind
  id_magnitude :: int
  id_negative :: bool

datatype ParticipantId = Lock bytes | LockPrefix bytes

definition participant_lock :: "bytes \<Rightarrow> ParticipantId res" where
  "participant_lock hash =
     (if length hash = 32 then Inr (Lock hash)
      else Inl (Bail ''ParticipantId::lock expects 32 bytes''))"

definition participant_prefix :: "bytes \<Rightarrow> ParticipantId res" where
  "participant_prefix pre =
     (if length pre = 20 then Inr (LockPrefix pre)
      else Inl (Bail ''ParticipantId::prefix expects 20 bytes''))"

fun participant_matches :: "ParticipantId \<Rightarrow> bytes \<Rightarrow> bool" where
  "participant_matches (Lock h) lock_hash \<longleftrightarrow> h = lock_hash"
| "participant_matches (LockPrefix p) lock_hash \<longleftrightarrow> p = take 20 lock_hash"

fun participant_as_bytes :: "ParticipantId \<Rightarrow> bytes" where
  "participant_as_bytes (Lock h) = h"
| "participant_as_bytes (LockPrefix p) = p"

definition prefix20 :: "ParticipantId \<Rightarrow> bytes" where
  "prefix20 p = take 20 (participant_as_bytes p)"

definition OWNER_FROM :: u8 where "OWNER_FROM = push_bit 0 1"
definition OWNER_TO :: u8 where "OWNER_TO = push_bit 1 1"
definition MANAGER_TO :: u8 where "MANAGER_TO = push_bit 2 1"

definition role_names :: "u8 \<Rightarrow> string list" where
  "role_names roles_mask =
     (if roles_mask AND OWNER_FROM \<noteq> 0 then [''owner_from''] else []) @
     (if roles_mask AND OWNER_TO \<noteq> 0 then [''owner_to''] else []) @
     (if roles_mask AND MANAGER_TO \<noteq> 0 then [''manager_to''] else [])"

record ParticipantDelta =
  pd_id :: ParticipantId
  pd_ckb_delta :: int
  pd_used_delta :: int
  pd_item_deltas :: "ItemDelta list"
  pd_tags :: u16
  pd_roles :: u8

record TypeCallEntry =
  tc_type_code_hash :: bytes
  tc_type_hash_type :: i16
  tc_type_args :: bytes

record LockCallEntry =
  lc_lock_code_hash :: bytes
  lc_lock_hash_type :: i16
  lc_lock_args :: bytes

record ProtocolAction =
  pa_protocol :: string
  pa_action :: string
  pa_metadata :: string

record TxActions =
  ta_tx_hash :: bytes
  ta_block_hash :: bytes
  ta_block_number :: i64
  ta_tx_index :: i32
  ta_timestamp :: i64
  ta_is_cellbase :: bool
  ta_protocol_actions :: "ProtocolAction list"
  ta_type_calls :: "TypeCallEntry list"
  ta_lock_calls :: "LockCallEntry list"
  ta_participants :: "ParticipantDelta list"

fun sum_received :: "ParticipantDelta list \<Rightarrow> int \<Rightarrow> int res" where
  "sum_received [] tot = Inr tot"
| "sum_received (p # ps) tot =
     rbind (ok_or (checked fits_u128 (tot + pd_ckb_delta p)) (Panic ''CKB moved overflow''))
       (sum_received ps)"

definition ckb_moved :: "TxActions \<Rightarrow> int res" where
  "ckb_moved a =
     (if ta_is_cellbase a then Inr 0
      else sum_received (filter (\<lambda>p. 0 < pd_ckb_delta p) (ta_participants a)) 0)"

datatype AssetAction = Mint | Transfer | Burn | Recycle | Renew | Update

fun asset_compact :: "AssetAction \<Rightarrow> u8" where
  "asset_compact Mint = 0"
| "asset_compact Transfer = 1"
| "asset_compact Burn = 2"
| "asset_compact Recycle = 3"
| "asset_compact Renew = 4"
| "asset_compact Update = 5"

definition from_compact :: "bytes \<Rightarrow> AssetAction res" where
  "from_compact value =
     (if value = [0] then Inr Mint
      else if value = [1] then Inr Transfer
      else if value = [2] then Inr Burn
      else if value = [3] then Inr Recycle
      else if value = [4] then Inr Renew
      else if value = [5] then Inr Update
      else Inl (Bail ''invalid identity item action bytes''))"

section \<open>The global bucket\<close>

datatype GlobalBucket = Dao | Token | Object | Identity | Protocol | Script | Ckb

definition ALL_BUCKETS :: "GlobalBucket list" where
  "ALL_BUCKETS = [Dao, Token, Object, Identity, Protocol, Script, Ckb]"

fun as_byte :: "GlobalBucket \<Rightarrow> u8" where
  "as_byte Dao = 1"
| "as_byte Token = 2"
| "as_byte Object = 3"
| "as_byte Identity = 4"
| "as_byte Protocol = 5"
| "as_byte Script = 6"
| "as_byte Ckb = 7"

text \<open>The derived order of the enum is the order of its discriminants.\<close>

lemma as_byte_inj [simp]: "as_byte a = as_byte b \<longleftrightarrow> a = b"
  by (cases a; cases b) auto

instantiation GlobalBucket :: linorder
begin

definition less_eq_GlobalBucket :: "GlobalBucket \<Rightarrow> GlobalBucket \<Rightarrow> bool" where
  "a \<le> b \<longleftrightarrow> as_byte a \<le> as_byte b"

definition less_GlobalBucket :: "GlobalBucket \<Rightarrow> GlobalBucket \<Rightarrow> bool" where
  "a < b \<longleftrightarrow> as_byte a < as_byte b"

instance
  by standard (auto simp: less_eq_GlobalBucket_def less_GlobalBucket_def order_less_le dest: antisym)

end

definition from_byte :: "u8 \<Rightarrow> GlobalBucket res" where
  "from_byte b = ok_or (find (\<lambda>bucket. as_byte bucket = b) ALL_BUCKETS)
     (Bail ''unknown global activity bucket byte'')"

fun as_filter :: "GlobalBucket \<Rightarrow> string" where
  "as_filter Dao = ''dao''"
| "as_filter Token = ''token''"
| "as_filter Object = ''object''"
| "as_filter Identity = ''identity''"
| "as_filter Protocol = ''protocol''"
| "as_filter Script = ''script''"
| "as_filter Ckb = ''ckb''"

definition from_filter :: "string \<Rightarrow> GlobalBucket option" where
  "from_filter filter_value = find (\<lambda>bucket. as_filter bucket = filter_value) ALL_BUCKETS"

definition protocol_item_bucket :: "string \<Rightarrow> GlobalBucket option" where
  "protocol_item_bucket p =
     (if p = ''dao'' then Some Dao
      else if p = ''dotbit'' \<or> p = ''dotcell'' then Some Identity
      else None)"

text \<open>\<open>Iterator::min\<close>: none for an empty iterator.\<close>

definition iter_min :: "'a::linorder list \<Rightarrow> 'a option" where
  "iter_min xs = (case xs of [] \<Rightarrow> None | x # r \<Rightarrow> Some (fold min r x))"

definition combined_tags :: "TxActions \<Rightarrow> u16" where
  "combined_tags a = fold (\<lambda>p acc. acc OR pd_tags p) (ta_participants a) 0"

definition classify_global_bucket :: "TxActions \<Rightarrow> GlobalBucket option" where
  "classify_global_bucket a =
     (if ta_is_cellbase a then None
      else case iter_min (List.map_filter (\<lambda>pa. protocol_item_bucket (pa_protocol pa)) (ta_protocol_actions a)) of
        Some bucket \<Rightarrow> Some bucket
      | None \<Rightarrow>
          if ta_protocol_actions a \<noteq> [] then Some Protocol
          else if combined_tags a AND TAG_DAO \<noteq> 0 then Some Dao
          else if combined_tags a AND TAG_TOKEN \<noteq> 0 then Some Token
          else if combined_tags a AND TAG_OBJECT \<noteq> 0 then Some Object
          else if combined_tags a AND TAG_IDENTITY \<noteq> 0 then Some Identity
          else if combined_tags a AND (TAG_TYPE_CALL OR TAG_LOCK_CALL) \<noteq> 0
            \<or> ta_type_calls a \<noteq> [] \<or> ta_lock_calls a \<noteq> [] then Some Script
          else Some Ckb)"

section \<open>Keys\<close>

definition TX_ACTIONS_KEY_SIZE :: nat where [simp]: "TX_ACTIONS_KEY_SIZE = 44"

definition encode_tx_actions_key :: "i64 \<Rightarrow> i32 \<Rightarrow> bytes \<Rightarrow> bytes res" where
  [enc_defs]: "encode_tx_actions_key block_num tx_idx tx_hash =
     rbind (assert_key_component_len ''encode_tx_actions_key'' ''tx_hash''
              (length tx_hash) HASH32_LEN) (\<lambda>_.
     rbind (encode_desc_block_num block_num) (\<lambda>block_desc.
     rbind (encode_desc_tx_idx tx_idx) (\<lambda>idx_desc.
     Inr (block_desc @ idx_desc @ take 32 tx_hash))))"

definition encode_tx_actions_seek_after_key :: "i64 \<Rightarrow> i32 \<Rightarrow> bytes res" where
  [enc_defs]: "encode_tx_actions_seek_after_key block_num tx_idx =
     rbind (encode_desc_block_num block_num) (\<lambda>block_desc.
     rbind (encode_desc_tx_idx tx_idx) (\<lambda>idx_desc.
     Inr (block_desc @ idx_desc @ replicate 32 0xFF)))"

definition decode_tx_actions_key :: "bytes \<Rightarrow> (i64 \<times> i32 \<times> bytes) res" where
  [dec_defs]: "decode_tx_actions_key key =
     rbind (ensure (length key = TX_ACTIONS_KEY_SIZE) (Panic ''decode_tx_actions_key'')) (\<lambda>_.
     rbind (slice 0 8 key) (\<lambda>b.
     rbind (decode_desc_block_num b) (\<lambda>block_num.
     rbind (slice 8 12 key) (\<lambda>i.
     rbind (decode_desc_tx_idx i) (\<lambda>tx_idx.
     rbind (slice 12 44 key) (\<lambda>tx_hash.
     Inr (block_num, tx_idx, tx_hash)))))))"

definition decode_stored_tx_actions_key :: "bytes \<Rightarrow> (i64 \<times> i32 \<times> bytes) res" where
  [dec_defs]: "decode_stored_tx_actions_key key =
     rbind (ensure (length key = TX_ACTIONS_KEY_SIZE) (Bail ''activities key width'')) (\<lambda>_.
     decode_tx_actions_key key)"

definition TX_ACTIONS_BY_BUCKET_KEY_SIZE :: nat where [simp]: "TX_ACTIONS_BY_BUCKET_KEY_SIZE = 13"

definition encode_tx_actions_by_bucket_key :: "GlobalBucket \<Rightarrow> i64 \<Rightarrow> i32 \<Rightarrow> bytes res" where
  [enc_defs]: "encode_tx_actions_by_bucket_key bucket block_num tx_idx =
     rbind (encode_desc_block_num block_num) (\<lambda>block_desc.
     rbind (encode_desc_tx_idx tx_idx) (\<lambda>idx_desc.
     Inr (as_byte bucket # block_desc @ idx_desc)))"

definition decode_tx_actions_by_bucket_key :: "bytes \<Rightarrow> (GlobalBucket \<times> i64 \<times> i32) res" where
  [dec_defs]: "decode_tx_actions_by_bucket_key key =
     rbind (ensure (length key = TX_ACTIONS_BY_BUCKET_KEY_SIZE)
              (Bail ''decode_tx_actions_by_bucket_key'')) (\<lambda>_.
     rbind (from_byte (hd key)) (\<lambda>bucket.
     rbind (slice 1 9 key) (\<lambda>b.
     rbind (decode_desc_block_num b) (\<lambda>block_num.
     rbind (slice 9 13 key) (\<lambda>i.
     rbind (decode_desc_tx_idx i) (\<lambda>tx_idx.
     Inr (bucket, block_num, tx_idx)))))))"

definition encode_tx_actions_position_prefix :: "i64 \<Rightarrow> i32 \<Rightarrow> bytes res" where
  [enc_defs]: "encode_tx_actions_position_prefix block_num tx_idx =
     rbind (encode_desc_block_num block_num) (\<lambda>block_desc.
     rbind (encode_desc_tx_idx tx_idx) (\<lambda>idx_desc.
     Inr (block_desc @ idx_desc)))"

definition tx_actions_bucket_key :: "TxActions \<Rightarrow> bytes option res" where
  "tx_actions_bucket_key a =
     (case classify_global_bucket a of
        None \<Rightarrow> Inr None
      | Some bucket \<Rightarrow>
          rbind (encode_tx_actions_by_bucket_key bucket (ta_block_number a) (ta_tx_index a))
            (\<lambda>key. Inr (Some key)))"

section \<open>Laws\<close>

subsection \<open>Received capacity\<close>

definition received :: "ParticipantDelta list \<Rightarrow> int" where
  "received ps = (\<Sum>p\<leftarrow>ps. max 0 (pd_ckb_delta p))"

lemma sum_received_spec:
  assumes "0 \<le> tot" and "\<forall>p \<in> set ps. 0 < pd_ckb_delta p"
  shows "sum_received ps tot =
    (if tot + received ps < 2 ^ 128 \<or> ps = [] then Inr (tot + received ps)
     else Inl (Panic ''CKB moved overflow''))"
  using assms
proof (induction ps arbitrary: tot)
  case Nil
  then show ?case by (simp add: received_def)
next
  case (Cons p ps)
  have nn: "0 \<le> received ps" by (induction ps) (simp_all add: received_def)
  show ?case
  proof (cases "tot + pd_ckb_delta p < 2 ^ 128")
    case True
    then have "sum_received (p # ps) tot = sum_received ps (tot + pd_ckb_delta p)"
      using Cons.prems by (simp add: checked_def fits_u128_def)
    moreover have "received (p # ps) = pd_ckb_delta p + received ps"
      using Cons.prems by (simp add: received_def)
    ultimately show ?thesis
      using Cons.IH [of "tot + pd_ckb_delta p"] Cons.prems True
      by (auto simp: algebra_simps received_def)
  next
    case False
    then show ?thesis using Cons.prems nn
      by (auto simp: checked_def fits_u128_def received_def)
  qed
qed

lemma received_filter: "received (filter (\<lambda>p. 0 < pd_ckb_delta p) ps) = received ps"
  by (induction ps) (auto simp: received_def)

subsection \<open>Buckets\<close>

lemma in_ALL_BUCKETS: "b \<in> set ALL_BUCKETS"
  by (cases b) (simp_all add: ALL_BUCKETS_def)

lemma sorted_ALL_BUCKETS: "sorted_wrt (<) ALL_BUCKETS"
  by (simp add: ALL_BUCKETS_def less_GlobalBucket_def)

lemma from_byte_as_byte [simp]: "from_byte (as_byte b) = Inr b"
  by (cases b) (simp_all add: from_byte_def ALL_BUCKETS_def)

lemma from_byte_Inr_iff [res_simps]: "from_byte x = Inr b \<longleftrightarrow> x = as_byte b"
  by (cases b) (auto simp: from_byte_def ALL_BUCKETS_def ok_or_def split: if_splits)

lemma iter_min_eq: "iter_min xs = (if xs = [] then None else Some (Min (set xs)))"
  by (cases xs) (simp_all add: iter_min_def Min.set_eq_fold [symmetric])

lemma combined_tags_bits: "combined_tags a AND m \<noteq> 0 \<longleftrightarrow> (\<exists>p \<in> set (ta_participants a). pd_tags p AND m \<noteq> 0)"
proof -
  have "fold (\<lambda>p acc. acc OR pd_tags p) ps t AND m \<noteq> 0 \<longleftrightarrow>
      t AND m \<noteq> 0 \<or> (\<exists>p \<in> set ps. pd_tags p AND m \<noteq> 0)" for ps :: "ParticipantDelta list" and t
    by (induction ps arbitrary: t)
      (auto simp: bit.conj_disj_distrib2 or_eq_0_iff)
  then show ?thesis by (simp add: combined_tags_def)
qed

subsection \<open>Key contracts\<close>

interpretation tx_actions_codec:
  key_codec "\<lambda>(b, i, h). encode_tx_actions_key b i h" decode_stored_tx_actions_key id
  by unfold_locales (auto simp: enc_defs dec_defs res_simps)

interpretation tx_actions_by_bucket_codec:
  key_codec "\<lambda>(g, b, i). encode_tx_actions_by_bucket_key g b i" decode_tx_actions_by_bucket_key id
  by unfold_locales (auto simp: enc_defs dec_defs res_simps)

interpretation tx_actions_position_scan:
  prefix_scan "\<lambda>(b, i, h). encode_tx_actions_key b i h"
    "\<lambda>(b, i). encode_tx_actions_position_prefix b i" "\<lambda>(b', i') (b, i, h). b = b' \<and> i = i'"
  by unfold_locales (auto simp: enc_defs res_simps prefix_def)

end
