(* ===== verification/Ordered_Map.thy ===== *)
theory Ordered_Map
  imports Prelude
begin

text \<open>
  Maps kept in key order, as an association list with strictly ascending keys.
  They are the \<open>BTreeMap\<close>s of the Rust sources, and the rows of one column family
  in the order an iterator visits them. Two such maps with the same lookups are
  the same list, so equations between them are equations of contents.
\<close>

type_synonym ('k, 'v) omap = "('k \<times> 'v) list"

definition om_sorted :: "('k::linorder, 'v) omap \<Rightarrow> bool" where
  "om_sorted m \<longleftrightarrow> sorted_wrt (<) (map fst m)"

abbreviation om_get :: "('k, 'v) omap \<Rightarrow> 'k \<Rightarrow> 'v option" where
  "om_get \<equiv> map_of"

fun om_put :: "'k::linorder \<Rightarrow> 'v \<Rightarrow> ('k, 'v) omap \<Rightarrow> ('k, 'v) omap" where
  "om_put k v [] = [(k, v)]"
| "om_put k v ((k', v') # m) =
     (if k < k' then (k, v) # (k', v') # m
      else if k = k' then (k, v) # m
      else (k', v') # om_put k v m)"

definition om_del :: "'k \<Rightarrow> ('k, 'v) omap \<Rightarrow> ('k, 'v) omap" where
  "om_del k m = filter (\<lambda>(k', v). k' \<noteq> k) m"

definition om_from :: "'k::linorder \<Rightarrow> ('k, 'v) omap \<Rightarrow> ('k, 'v) omap" where
  "om_from k m = filter (\<lambda>(k', v). k \<le> k') m"

lemma om_sorted_Nil [simp]: "om_sorted []"
  by (simp add: om_sorted_def)

lemma om_sorted_Cons: "om_sorted ((k, v) # m) \<longleftrightarrow> (\<forall>k' \<in> fst ` set m. k < k') \<and> om_sorted m"
  by (auto simp: om_sorted_def)

lemma om_get_put [simp]: "om_get (om_put k v m) = (om_get m)(k \<mapsto> v)"
  by (induction k v m rule: om_put.induct) (auto simp: fun_eq_iff)

lemma fst_om_put: "fst ` set (om_put k v m) = insert k (fst ` set m)"
  by (induction k v m rule: om_put.induct) auto

lemma om_sorted_put [simp]: "om_sorted m \<Longrightarrow> om_sorted (om_put k v m)"
  by (induction k v m rule: om_put.induct) (auto simp: om_sorted_Cons fst_om_put)

lemma om_get_del [simp]: "om_get (om_del k m) = (om_get m)(k := None)"
  by (induction m) (auto simp: om_del_def fun_eq_iff)

lemma om_sorted_filter [simp]: "om_sorted m \<Longrightarrow> om_sorted (filter P m)"
  by (induction m) (auto simp: om_sorted_Cons)

lemma om_sorted_del [simp]: "om_sorted m \<Longrightarrow> om_sorted (om_del k m)"
  by (simp add: om_del_def)

lemma om_distinct: "om_sorted m \<Longrightarrow> distinct (map fst m)"
  unfolding om_sorted_def by (metis strict_sorted_iff)

lemma om_get_iff: "om_sorted m \<Longrightarrow> om_get m k = Some v \<longleftrightarrow> (k, v) \<in> set m"
  by (simp add: om_distinct)

lemma map_of_eqI_sorted:
  fixes m m' :: "('k::linorder, 'v) omap"
  shows "sorted_wrt (<) (map fst m) \<Longrightarrow> sorted_wrt (<) (map fst m') \<Longrightarrow> map_of m = map_of m' \<Longrightarrow> m = m'"
proof (induction m arbitrary: m')
  case Nil
  then show ?case by simp
next
  case (Cons r m)
  then obtain r' n where m': "m' = r' # n" by (cases m') (auto simp: fun_eq_iff split: if_splits)
  have k: "fst r = fst r'"
  proof (rule ccontr)
    assume ne: "fst r \<noteq> fst r'"
    have "fst r \<in> dom (map_of m')" "fst r' \<in> dom (map_of (r # m))"
      using Cons.prems(3) m' by (metis dom_map_of_conv_image_fst image_eqI list.set_intros(1))+
    then have "fst r \<in> fst ` set n" "fst r' \<in> fst ` set m"
      using ne m' by (auto simp: dom_map_of_conv_image_fst)
    then have "fst r' < fst r" "fst r < fst r'" using Cons.prems(1,2) m' by auto
    then show False by simp
  qed
  moreover have "snd r = snd r'"
    using Cons.prems(3) m' k by (metis map_of_Cons_code(2) option.inject surjective_pairing)
  moreover have "map_of m = map_of n"
  proof
    fix x
    have "fst r \<notin> fst ` set m" "fst r \<notin> fst ` set n" using Cons.prems(1,2) m' k by auto
    then have "map_of m (fst r) = None" "map_of n (fst r) = None"
      by (simp_all add: map_of_eq_None_iff)
    then show "map_of m x = map_of n x"
      using fun_cong [OF Cons.prems(3), of x] m' k by (cases "x = fst r") auto
  qed
  ultimately show ?case using Cons m' by (auto simp: prod_eq_iff)
qed

lemma om_ext:
  assumes "om_sorted m" and "om_sorted m'" and "om_get m = om_get m'"
  shows "m = m'"
proof (rule map_of_eqI_sorted)
  show "sorted_wrt (<) (map fst m)" "sorted_wrt (<) (map fst m')" "om_get m = om_get m'"
    using assms by (auto simp: om_sorted_def)
qed

lemma om_from_set: "set (om_from k m) = {(k', v) \<in> set m. k \<le> k'}"
  by (auto simp: om_from_def)

lemma om_sorted_from [simp]: "om_sorted m \<Longrightarrow> om_sorted (om_from k m)"
  by (simp add: om_from_def)

text \<open>Collecting pairs into a map, and keeping some of them.\<close>

lemma om_sorted_fold_put: "om_sorted m \<Longrightarrow> om_sorted (fold (\<lambda>(k, v). om_put k v) xs m)"
  by (induction xs arbitrary: m) auto

lemma om_get_fold_put: "distinct (map fst xs) \<Longrightarrow> om_get (fold (\<lambda>(k, v). om_put k v) xs m) = om_get m ++ map_of xs"
  by (induction xs arbitrary: m) (auto simp: map_add_upd_left map_of_eq_None_iff dom_map_of_conv_image_fst)

lemma fold_put_sorted: "om_sorted xs \<Longrightarrow> fold (\<lambda>(k, v). om_put k v) xs [] = xs"
  by (rule om_ext) (auto simp: om_sorted_fold_put om_get_fold_put om_distinct)

lemma om_get_filter:
  "om_sorted m \<Longrightarrow> om_get (filter P m) k = (case om_get m k of None \<Rightarrow> None | Some v \<Rightarrow> if P (k, v) then Some v else None)"
proof (induction m)
  case Nil
  then show ?case by simp
next
  case (Cons p m)
  obtain k' v where p: "p = (k', v)" by (cases p)
  have "om_get m k = None" if "k = k'" using Cons.prems that by (force simp: p om_sorted_Cons map_of_eq_None_iff)
  then show ?case using Cons by (auto simp: p om_sorted_Cons)
qed

end
