(* ===== verification/Keys_Stats.thy ===== *)
theory Keys_Stats
  imports Keys_Core
begin

text \<open>
  The statistics keys of \<^verbatim>\<open>crates/ckbadger-store/src/keys.rs\<close>: the family
  prefix byte of every key in the statistics column families, the per-entity
  daily and hourly keys, the outpoint lookup keys with their reverse indexes,
  and the collection and owner indexes. One definition per encoder, decoder and
  scan prefix of the source.
\<close>

section \<open>Family prefixes\<close>

definition STATS_PREFIX_DAILY :: u8 where [simp]: "STATS_PREFIX_DAILY = 0x01"
definition STATS_PREFIX_HOURLY :: u8 where [simp]: "STATS_PREFIX_HOURLY = 0x02"
definition STATS_PREFIX_EPOCH :: u8 where [simp]: "STATS_PREFIX_EPOCH = 0x03"
definition STATS_PREFIX_MINER :: u8 where [simp]: "STATS_PREFIX_MINER = 0x04"
definition STATS_PREFIX_BLOCK_TIME_DIST :: u8 where [simp]: "STATS_PREFIX_BLOCK_TIME_DIST = 0x05"
definition STATS_PREFIX_EPOCH_TIME_DIST :: u8 where [simp]: "STATS_PREFIX_EPOCH_TIME_DIST = 0x06"
definition STATS_PREFIX_DAILY_BLOCK :: u8 where [simp]: "STATS_PREFIX_DAILY_BLOCK = 0x07"
definition STATS_PREFIX_DAO_DAILY_SNAPSHOT :: u8 where [simp]: "STATS_PREFIX_DAO_DAILY_SNAPSHOT = 0x08"
definition STATS_PREFIX_TOKEN_TRANSFERS :: u8 where [simp]: "STATS_PREFIX_TOKEN_TRANSFERS = 0x09"
definition STATS_PREFIX_TOKEN_HOURLY :: u8 where [simp]: "STATS_PREFIX_TOKEN_HOURLY = 0x0A"
definition STATS_PREFIX_HODL_WAVE :: u8 where [simp]: "STATS_PREFIX_HODL_WAVE = 0x0B"
definition STATS_PREFIX_CLUSTER_OWNER :: u8 where [simp]: "STATS_PREFIX_CLUSTER_OWNER = 0x0C"
definition STATS_PREFIX_SPORE_HOURLY :: u8 where [simp]: "STATS_PREFIX_SPORE_HOURLY = 0x0D"
definition STATS_PREFIX_OBJECT_HOURLY :: u8 where [simp]: "STATS_PREFIX_OBJECT_HOURLY = 0x0E"
definition STATS_PREFIX_SCRIPT_DAILY :: u8 where [simp]: "STATS_PREFIX_SCRIPT_DAILY = 0x0F"
definition STATS_PREFIX_TOKEN_DAILY :: u8 where [simp]: "STATS_PREFIX_TOKEN_DAILY = 0x10"
definition STATS_PREFIX_CLUSTER_DAILY :: u8 where [simp]: "STATS_PREFIX_CLUSTER_DAILY = 0x11"
definition STATS_PREFIX_SPORE_DAILY :: u8 where [simp]: "STATS_PREFIX_SPORE_DAILY = 0x12"
definition STATS_PREFIX_SPORE_OUTPOINT :: u8 where [simp]: "STATS_PREFIX_SPORE_OUTPOINT = 0x13"
definition STATS_PREFIX_SPORE_TYPE_INDEX :: u8 where [simp]: "STATS_PREFIX_SPORE_TYPE_INDEX = 0x14"
definition STATS_PREFIX_OBJECT_DAILY :: u8 where [simp]: "STATS_PREFIX_OBJECT_DAILY = 0x15"
definition STATS_PREFIX_OBJECT_TYPE_INDEX :: u8 where [simp]: "STATS_PREFIX_OBJECT_TYPE_INDEX = 0x16"
definition STATS_PREFIX_MNFT_CLASS_OUTPOINT :: u8 where [simp]: "STATS_PREFIX_MNFT_CLASS_OUTPOINT = 0x17"
definition STATS_PREFIX_MNFT_TOKEN_OUTPOINT :: u8 where [simp]: "STATS_PREFIX_MNFT_TOKEN_OUTPOINT = 0x18"
definition STATS_PREFIX_DOTBIT_ACCOUNT_OUTPOINT :: u8 where [simp]: "STATS_PREFIX_DOTBIT_ACCOUNT_OUTPOINT = 0x19"
definition STATS_PREFIX_SPORE_OUTPOINT_BY_ID :: u8 where [simp]: "STATS_PREFIX_SPORE_OUTPOINT_BY_ID = 0x1A"
definition STATS_PREFIX_DAO_LATEST_STATS :: u8 where [simp]: "STATS_PREFIX_DAO_LATEST_STATS = 0x1B"
definition STATS_PREFIX_OBJECT_COLLECTION_OWNER :: u8 where [simp]: "STATS_PREFIX_OBJECT_COLLECTION_OWNER = 0x1C"
definition STATS_PREFIX_ACTIVITY_DAILY :: u8 where [simp]: "STATS_PREFIX_ACTIVITY_DAILY = 0x1D"
definition STATS_PREFIX_ACTIVITY_HOURLY :: u8 where [simp]: "STATS_PREFIX_ACTIVITY_HOURLY = 0x1E"
definition STATS_PREFIX_DOTBIT_OUTPOINT_BY_ACCOUNT_ID :: u8 where [simp]: "STATS_PREFIX_DOTBIT_OUTPOINT_BY_ACCOUNT_ID = 0x1F"
definition STATS_PREFIX_DAO_TOP_DEPOSITORS :: u8 where [simp]: "STATS_PREFIX_DAO_TOP_DEPOSITORS = 0x20"
definition STATS_PREFIX_CELL_DISTRIBUTION :: u8 where [simp]: "STATS_PREFIX_CELL_DISTRIBUTION = 0x21"
definition STATS_PREFIX_ADDR_COHORT :: u8 where [simp]: "STATS_PREFIX_ADDR_COHORT = 0x22"
definition STATS_PREFIX_ACTIVITY_DAILY_ADDR_SET :: u8 where [simp]: "STATS_PREFIX_ACTIVITY_DAILY_ADDR_SET = 0x23"
definition STATS_PREFIX_ACTIVITY_HOURLY_ADDR_SET :: u8 where [simp]: "STATS_PREFIX_ACTIVITY_HOURLY_ADDR_SET = 0x24"
definition STATS_PREFIX_DOTBIT_UNINDEXED_OUTPOINT :: u8 where [simp]: "STATS_PREFIX_DOTBIT_UNINDEXED_OUTPOINT = 0x25"

text \<open>The families in the order of their bytes.\<close>

definition stats_prefixes :: "u8 list" where
  "stats_prefixes = [
     STATS_PREFIX_DAILY, STATS_PREFIX_HOURLY,
     STATS_PREFIX_EPOCH, STATS_PREFIX_MINER,
     STATS_PREFIX_BLOCK_TIME_DIST, STATS_PREFIX_EPOCH_TIME_DIST,
     STATS_PREFIX_DAILY_BLOCK, STATS_PREFIX_DAO_DAILY_SNAPSHOT,
     STATS_PREFIX_TOKEN_TRANSFERS, STATS_PREFIX_TOKEN_HOURLY,
     STATS_PREFIX_HODL_WAVE, STATS_PREFIX_CLUSTER_OWNER,
     STATS_PREFIX_SPORE_HOURLY, STATS_PREFIX_OBJECT_HOURLY,
     STATS_PREFIX_SCRIPT_DAILY, STATS_PREFIX_TOKEN_DAILY,
     STATS_PREFIX_CLUSTER_DAILY, STATS_PREFIX_SPORE_DAILY,
     STATS_PREFIX_SPORE_OUTPOINT, STATS_PREFIX_SPORE_TYPE_INDEX,
     STATS_PREFIX_OBJECT_DAILY, STATS_PREFIX_OBJECT_TYPE_INDEX,
     STATS_PREFIX_MNFT_CLASS_OUTPOINT, STATS_PREFIX_MNFT_TOKEN_OUTPOINT,
     STATS_PREFIX_DOTBIT_ACCOUNT_OUTPOINT, STATS_PREFIX_SPORE_OUTPOINT_BY_ID,
     STATS_PREFIX_DAO_LATEST_STATS, STATS_PREFIX_OBJECT_COLLECTION_OWNER,
     STATS_PREFIX_ACTIVITY_DAILY, STATS_PREFIX_ACTIVITY_HOURLY,
     STATS_PREFIX_DOTBIT_OUTPOINT_BY_ACCOUNT_ID, STATS_PREFIX_DAO_TOP_DEPOSITORS,
     STATS_PREFIX_CELL_DISTRIBUTION, STATS_PREFIX_ADDR_COHORT,
     STATS_PREFIX_ACTIVITY_DAILY_ADDR_SET, STATS_PREFIX_ACTIVITY_HOURLY_ADDR_SET,
     STATS_PREFIX_DOTBIT_UNINDEXED_OUTPOINT]"

definition encode_stats_key :: "u8 \<Rightarrow> bytes \<Rightarrow> bytes" where
  [enc_defs]: "encode_stats_key pre sfx = pre # sfx"

section \<open>Token, cluster and spore statistics\<close>

definition encode_token_transfers_key :: "bytes \<Rightarrow> bytes res" where
  [enc_defs]: "encode_token_transfers_key type_hash =
     rbind (assert_key_component_len ''encode_token_transfers_key'' ''type_hash''
              (length type_hash) HASH32_LEN) (\<lambda>_.
     Inr (STATS_PREFIX_TOKEN_TRANSFERS # take 32 type_hash))"

definition encode_token_hourly_key :: "bytes \<Rightarrow> i64 \<Rightarrow> bytes res" where
  [enc_defs]: "encode_token_hourly_key type_hash hour_bucket =
     rbind (assert_key_component_len ''encode_token_hourly_key'' ''type_hash''
              (length type_hash) HASH32_LEN) (\<lambda>_.
     Inr (STATS_PREFIX_TOKEN_HOURLY # take 32 type_hash @ to_be_bytes hour_bucket))"

definition encode_token_hourly_prefix :: "bytes \<Rightarrow> bytes res" where
  [enc_defs]: "encode_token_hourly_prefix type_hash =
     rbind (assert_key_component_len ''encode_token_hourly_prefix'' ''type_hash''
              (length type_hash) HASH32_LEN) (\<lambda>_.
     Inr (STATS_PREFIX_TOKEN_HOURLY # take 32 type_hash))"

definition TOKEN_DAILY_KEY_SIZE :: nat where [simp]: "TOKEN_DAILY_KEY_SIZE = 37"

definition encode_token_daily_key :: "bytes \<Rightarrow> u32 \<Rightarrow> bytes res" where
  [enc_defs]: "encode_token_daily_key type_hash date_yyyymmdd =
     rbind (assert_key_component_len ''encode_token_daily_key'' ''type_hash''
              (length type_hash) HASH32_LEN) (\<lambda>_.
     Inr (STATS_PREFIX_TOKEN_DAILY # take 32 type_hash @ to_be_bytes date_yyyymmdd))"

definition encode_token_daily_prefix :: "bytes \<Rightarrow> bytes res" where
  [enc_defs]: "encode_token_daily_prefix type_hash =
     rbind (assert_key_component_len ''encode_token_daily_prefix'' ''type_hash''
              (length type_hash) HASH32_LEN) (\<lambda>_.
     Inr (STATS_PREFIX_TOKEN_DAILY # take 32 type_hash))"

definition decode_token_daily_key :: "bytes \<Rightarrow> (bytes \<times> u32) res" where
  [dec_defs]: "decode_token_daily_key key =
     rbind (slice 1 33 key) (\<lambda>type_hash.
     rbind (slice 33 37 key) (\<lambda>d.
     Inr (type_hash, from_be_bytes d)))"

definition CLUSTER_DAILY_KEY_SIZE :: nat where [simp]: "CLUSTER_DAILY_KEY_SIZE = 37"

definition encode_cluster_daily_key :: "bytes \<Rightarrow> u32 \<Rightarrow> bytes res" where
  [enc_defs]: "encode_cluster_daily_key cluster_id date_yyyymmdd =
     rbind (assert_key_component_len ''encode_cluster_daily_key'' ''cluster_id''
              (length cluster_id) HASH32_LEN) (\<lambda>_.
     Inr (STATS_PREFIX_CLUSTER_DAILY # take 32 cluster_id @ to_be_bytes date_yyyymmdd))"

definition encode_cluster_daily_prefix :: "bytes \<Rightarrow> bytes res" where
  [enc_defs]: "encode_cluster_daily_prefix cluster_id =
     rbind (assert_key_component_len ''encode_cluster_daily_prefix'' ''cluster_id''
              (length cluster_id) HASH32_LEN) (\<lambda>_.
     Inr (STATS_PREFIX_CLUSTER_DAILY # take 32 cluster_id))"

definition decode_cluster_daily_key :: "bytes \<Rightarrow> (bytes \<times> u32) res" where
  [dec_defs]: "decode_cluster_daily_key key =
     rbind (slice 1 33 key) (\<lambda>cluster_id.
     rbind (slice 33 37 key) (\<lambda>d.
     Inr (cluster_id, from_be_bytes d)))"

definition SPORE_DAILY_KEY_SIZE :: nat where [simp]: "SPORE_DAILY_KEY_SIZE = 37"

definition encode_spore_daily_key :: "bytes \<Rightarrow> u32 \<Rightarrow> bytes res" where
  [enc_defs]: "encode_spore_daily_key spore_id date_yyyymmdd =
     rbind (assert_key_component_len ''encode_spore_daily_key'' ''spore_id''
              (length spore_id) HASH32_LEN) (\<lambda>_.
     Inr (STATS_PREFIX_SPORE_DAILY # take 32 spore_id @ to_be_bytes date_yyyymmdd))"

definition encode_spore_daily_prefix :: "bytes \<Rightarrow> bytes res" where
  [enc_defs]: "encode_spore_daily_prefix spore_id =
     rbind (assert_key_component_len ''encode_spore_daily_prefix'' ''spore_id''
              (length spore_id) HASH32_LEN) (\<lambda>_.
     Inr (STATS_PREFIX_SPORE_DAILY # take 32 spore_id))"

definition decode_spore_daily_key :: "bytes \<Rightarrow> (bytes \<times> u32) res" where
  [dec_defs]: "decode_spore_daily_key key =
     rbind (slice 1 33 key) (\<lambda>spore_id.
     rbind (slice 33 37 key) (\<lambda>d.
     Inr (spore_id, from_be_bytes d)))"

section \<open>Outpoint lookups\<close>

definition SPORE_OUTPOINT_KEY_SIZE :: nat where [simp]: "SPORE_OUTPOINT_KEY_SIZE = 35"

definition encode_spore_outpoint_key :: "bytes \<Rightarrow> i16 \<Rightarrow> bytes res" where
  [enc_defs]: "encode_spore_outpoint_key tx_hash output_index =
     rbind (encode_outpoint tx_hash output_index) (\<lambda>outpoint.
     Inr (STATS_PREFIX_SPORE_OUTPOINT # outpoint))"

definition decode_spore_outpoint_key :: "bytes \<Rightarrow> (bytes \<times> i16) res" where
  [dec_defs]: "decode_spore_outpoint_key key =
     rbind (slice 1 35 key) (\<lambda>outpoint.
     decode_outpoint outpoint)"

definition SPORE_OUTPOINT_BY_ID_MAX_ID_LEN :: nat where [simp]: "SPORE_OUTPOINT_BY_ID_MAX_ID_LEN = HASH32_LEN"

definition spore_outpoint_by_id_key_len :: "nat \<Rightarrow> nat" where
  [simp]: "spore_outpoint_by_id_key_len id_len = 1 + id_len + OUTPOINT_KEY_SIZE"

definition assert_by_id_len :: "string \<Rightarrow> nat \<Rightarrow> unit res" where
  [enc_defs]: "assert_by_id_len encoder id_len =
     ensure (1 \<le> id_len \<and> id_len \<le> SPORE_OUTPOINT_BY_ID_MAX_ID_LEN)
       (PanicKeyLen encoder ''id'' id_len SPORE_OUTPOINT_BY_ID_MAX_ID_LEN)"

definition encode_spore_outpoint_by_id_key ::
    "bytes \<Rightarrow> bytes \<Rightarrow> i16 \<Rightarrow> bytes res" where
  [enc_defs]: "encode_spore_outpoint_by_id_key spore_id tx_hash output_index =
     rbind (assert_by_id_len ''encode_spore_outpoint_by_id_key'' (length spore_id)) (\<lambda>_.
     rbind (encode_outpoint tx_hash output_index) (\<lambda>outpoint.
     Inr (STATS_PREFIX_SPORE_OUTPOINT_BY_ID # spore_id @ outpoint)))"

definition encode_spore_outpoint_by_id_prefix :: "bytes \<Rightarrow> bytes res" where
  [enc_defs]: "encode_spore_outpoint_by_id_prefix spore_id =
     rbind (assert_by_id_len ''encode_spore_outpoint_by_id_prefix'' (length spore_id)) (\<lambda>_.
     Inr (STATS_PREFIX_SPORE_OUTPOINT_BY_ID # spore_id))"

definition decode_spore_outpoint_by_id_key :: "bytes \<Rightarrow> (bytes \<times> i16) res" where
  [dec_defs]: "decode_spore_outpoint_by_id_key key =
     rbind (ensure (spore_outpoint_by_id_key_len 1 \<le> length key)
              (Panic ''decode_spore_outpoint_by_id_key'')) (\<lambda>_.
     rbind (slice (length key - OUTPOINT_KEY_SIZE) (length key) key) (\<lambda>outpoint.
     decode_outpoint outpoint))"

definition MNFT_CLASS_OUTPOINT_KEY_SIZE :: nat where [simp]: "MNFT_CLASS_OUTPOINT_KEY_SIZE = 35"

definition encode_mnft_class_outpoint_key ::
    "bytes \<Rightarrow> i16 \<Rightarrow> bytes res" where
  [enc_defs]: "encode_mnft_class_outpoint_key tx_hash output_index =
     rbind (encode_outpoint tx_hash output_index) (\<lambda>outpoint.
     Inr (STATS_PREFIX_MNFT_CLASS_OUTPOINT # outpoint))"

definition encode_mnft_class_outpoint_tx_prefix :: "bytes \<Rightarrow> bytes res" where
  [enc_defs]: "encode_mnft_class_outpoint_tx_prefix tx_hash =
     rbind (assert_key_component_len ''encode_mnft_class_outpoint_tx_prefix'' ''tx_hash''
              (length tx_hash) HASH32_LEN) (\<lambda>_.
     Inr (STATS_PREFIX_MNFT_CLASS_OUTPOINT # tx_hash))"

definition MNFT_TOKEN_OUTPOINT_KEY_SIZE :: nat where [simp]: "MNFT_TOKEN_OUTPOINT_KEY_SIZE = 35"

definition encode_mnft_token_outpoint_key ::
    "bytes \<Rightarrow> i16 \<Rightarrow> bytes res" where
  [enc_defs]: "encode_mnft_token_outpoint_key tx_hash output_index =
     rbind (encode_outpoint tx_hash output_index) (\<lambda>outpoint.
     Inr (STATS_PREFIX_MNFT_TOKEN_OUTPOINT # outpoint))"

definition DOTBIT_ACCOUNT_OUTPOINT_KEY_SIZE :: nat where [simp]: "DOTBIT_ACCOUNT_OUTPOINT_KEY_SIZE = 35"

definition encode_dotbit_account_outpoint_key ::
    "bytes \<Rightarrow> i16 \<Rightarrow> bytes res" where
  [enc_defs]: "encode_dotbit_account_outpoint_key tx_hash output_index =
     rbind (encode_outpoint tx_hash output_index) (\<lambda>outpoint.
     Inr (STATS_PREFIX_DOTBIT_ACCOUNT_OUTPOINT # outpoint))"

definition decode_dotbit_account_outpoint_key ::
    "bytes \<Rightarrow> (bytes \<times> i16) res" where
  [dec_defs]: "decode_dotbit_account_outpoint_key key =
     rbind (slice 1 35 key) (\<lambda>outpoint.
     decode_outpoint outpoint)"

definition DOTBIT_UNINDEXED_OUTPOINT_KEY_SIZE :: nat where [simp]: "DOTBIT_UNINDEXED_OUTPOINT_KEY_SIZE = 35"

definition encode_dotbit_unindexed_outpoint_key ::
    "bytes \<Rightarrow> i16 \<Rightarrow> bytes res" where
  [enc_defs]: "encode_dotbit_unindexed_outpoint_key tx_hash output_index =
     rbind (encode_outpoint tx_hash output_index) (\<lambda>outpoint.
     Inr (STATS_PREFIX_DOTBIT_UNINDEXED_OUTPOINT # outpoint))"

definition DOTBIT_OUTPOINT_BY_ACCOUNT_ID_KEY_SIZE :: nat where [simp]: "DOTBIT_OUTPOINT_BY_ACCOUNT_ID_KEY_SIZE = 55"
definition DOTBIT_OUTPOINT_BY_ACCOUNT_ID_PREFIX_SIZE :: nat where [simp]: "DOTBIT_OUTPOINT_BY_ACCOUNT_ID_PREFIX_SIZE = 21"

definition encode_dotbit_outpoint_by_account_id_key ::
    "bytes \<Rightarrow> bytes \<Rightarrow> i16 \<Rightarrow> bytes res" where
  [enc_defs]: "encode_dotbit_outpoint_by_account_id_key account_id tx_hash output_index =
     rbind (assert_key_component_len ''encode_dotbit_outpoint_by_account_id_key'' ''account_id''
              (length account_id) DOTBIT_ACCOUNT_ID_LEN) (\<lambda>_.
     rbind (encode_outpoint tx_hash output_index) (\<lambda>outpoint.
     Inr (STATS_PREFIX_DOTBIT_OUTPOINT_BY_ACCOUNT_ID # take 20 account_id @ outpoint)))"

definition encode_dotbit_outpoint_by_account_id_prefix :: "bytes \<Rightarrow> bytes res" where
  [enc_defs]: "encode_dotbit_outpoint_by_account_id_prefix account_id =
     rbind (assert_key_component_len ''encode_dotbit_outpoint_by_account_id_prefix'' ''account_id''
              (length account_id) DOTBIT_ACCOUNT_ID_LEN) (\<lambda>_.
     Inr (STATS_PREFIX_DOTBIT_OUTPOINT_BY_ACCOUNT_ID # take 20 account_id))"

definition decode_dotbit_outpoint_by_account_id_key ::
    "bytes \<Rightarrow> (bytes \<times> i16) res" where
  [dec_defs]: "decode_dotbit_outpoint_by_account_id_key key =
     rbind (slice 21 55 key) (\<lambda>outpoint.
     decode_outpoint outpoint)"

definition SPORE_TYPE_INDEX_KEY_SIZE :: nat where [simp]: "SPORE_TYPE_INDEX_KEY_SIZE = 33"

definition encode_spore_type_index_key :: "bytes \<Rightarrow> bytes res" where
  [enc_defs]: "encode_spore_type_index_key type_script_hash =
     rbind (assert_key_component_len ''encode_spore_type_index_key'' ''type_script_hash''
              (length type_script_hash) HASH32_LEN) (\<lambda>_.
     Inr (STATS_PREFIX_SPORE_TYPE_INDEX # take 32 type_script_hash))"

section \<open>Object collections\<close>

definition OBJECT_DAILY_KEY_SIZE :: nat where [simp]: "OBJECT_DAILY_KEY_SIZE = 37"

definition encode_object_daily_key :: "bytes \<Rightarrow> u32 \<Rightarrow> bytes res" where
  [enc_defs]: "encode_object_daily_key collection_id date_yyyymmdd =
     rbind (pad_id_32 collection_id) (\<lambda>padded.
     Inr (STATS_PREFIX_OBJECT_DAILY # padded @ to_be_bytes date_yyyymmdd))"

definition encode_object_daily_prefix :: "bytes \<Rightarrow> bytes res" where
  [enc_defs]: "encode_object_daily_prefix collection_id =
     rbind (pad_id_32 collection_id) (\<lambda>padded.
     Inr (STATS_PREFIX_OBJECT_DAILY # padded))"

definition OBJECT_COLLECTION_OWNER_KEY_SIZE :: nat where [simp]: "OBJECT_COLLECTION_OWNER_KEY_SIZE = 65"

definition encode_object_collection_owner_key ::
    "bytes \<Rightarrow> bytes \<Rightarrow> bytes res" where
  [enc_defs]: "encode_object_collection_owner_key collection_id lock_hash =
     rbind (assert_key_component_len ''encode_object_collection_owner_key'' ''lock_hash''
              (length lock_hash) HASH32_LEN) (\<lambda>_.
     rbind (pad_id_32 collection_id) (\<lambda>padded.
     Inr (STATS_PREFIX_OBJECT_COLLECTION_OWNER # padded @ lock_hash)))"

definition encode_object_collection_owner_prefix :: "bytes \<Rightarrow> bytes res" where
  [enc_defs]: "encode_object_collection_owner_prefix collection_id =
     rbind (pad_id_32 collection_id) (\<lambda>padded.
     Inr (STATS_PREFIX_OBJECT_COLLECTION_OWNER # padded))"

definition decode_object_daily_key :: "bytes \<Rightarrow> (bytes \<times> u32) res" where
  [dec_defs]: "decode_object_daily_key key =
     rbind (slice 1 33 key) (\<lambda>collection_id.
     rbind (slice 33 37 key) (\<lambda>d.
     Inr (collection_id, from_be_bytes d)))"

definition OBJECT_TYPE_INDEX_KEY_SIZE :: nat where [simp]: "OBJECT_TYPE_INDEX_KEY_SIZE = 33"

definition encode_object_type_index_key :: "bytes \<Rightarrow> bytes res" where
  [enc_defs]: "encode_object_type_index_key type_script_hash =
     rbind (assert_key_component_len ''encode_object_type_index_key'' ''type_script_hash''
              (length type_script_hash) HASH32_LEN) (\<lambda>_.
     Inr (STATS_PREFIX_OBJECT_TYPE_INDEX # take 32 type_script_hash))"

definition encode_object_by_collection_key ::
    "bytes \<Rightarrow> bytes \<Rightarrow> bytes res" where
  [enc_defs]: "encode_object_by_collection_key collection_id object_id =
     rbind (pad_id_32 collection_id) (\<lambda>padded.
     Inr (padded @ object_id))"

definition encode_object_by_collection_prefix :: "bytes \<Rightarrow> bytes res" where
  [enc_defs]: "encode_object_by_collection_prefix collection_id =
     pad_id_32 collection_id"

definition decode_object_by_collection_key :: "bytes \<Rightarrow> (bytes \<times> bytes) option" where
  [dec_defs]: "decode_object_by_collection_key key =
     (if length key < 32 then None else Some (take 32 key, drop 32 key))"

section \<open>Identities\<close>

definition encode_identity_by_collection_key ::
    "bytes \<Rightarrow> bytes \<Rightarrow> bytes res" where
  [enc_defs]: "encode_identity_by_collection_key collection_id identity_id =
     rbind (pad_id_32 collection_id) (\<lambda>padded.
     Inr (padded @ identity_id))"

definition encode_identity_by_collection_prefix :: "bytes \<Rightarrow> bytes res" where
  [enc_defs]: "encode_identity_by_collection_prefix collection_id =
     pad_id_32 collection_id"

definition IDENTITY_OWNER_KEY_SIZE :: nat where [simp]: "IDENTITY_OWNER_KEY_SIZE = 64"
definition DOTCELL_ID_LEN :: nat where [simp]: "DOTCELL_ID_LEN = 20"

definition encode_identity_owner_key :: "bytes \<Rightarrow> bytes \<Rightarrow> bytes res" where
  [enc_defs]: "encode_identity_owner_key collection_id lock_hash =
     rbind (assert_key_component_len ''encode_identity_owner_key'' ''lock_hash''
              (length lock_hash) HASH32_LEN) (\<lambda>_.
     rbind (pad_id_32 collection_id) (\<lambda>padded.
     Inr (padded @ lock_hash)))"

definition encode_identity_owner_prefix :: "bytes \<Rightarrow> bytes res" where
  [enc_defs]: "encode_identity_owner_prefix collection_id =
     pad_id_32 collection_id"

definition encode_identity_owner20_key ::
    "bytes \<Rightarrow> bytes \<Rightarrow> bytes res" where
  [enc_defs]: "encode_identity_owner20_key collection_id owner20 =
     rbind (assert_key_component_len ''encode_identity_owner20_key'' ''owner20''
              (length owner20) DOTCELL_ID_LEN) (\<lambda>_.
     rbind (pad_id_32 collection_id) (\<lambda>padded.
     Inr (padded @ owner20 @ replicate 12 0)))"

definition try_decode_identity_owner20 :: "bytes \<Rightarrow> bytes res" where
  [dec_defs]: "try_decode_identity_owner20 owner_segment =
     rbind (ensure (length owner_segment = HASH32_LEN)
              (Bail ''identity owner segment must be exactly 32 bytes'')) (\<lambda>_.
     rbind (slice 20 (length owner_segment) owner_segment) (\<lambda>padding.
     rbind (ensure (\<forall>b \<in> set padding. b = 0)
              (Bail ''owner segment is not a 20-byte prefix padded with zeros'')) (\<lambda>_.
     slice 0 20 owner_segment)))"

definition decode_identity_owner20 :: "bytes \<Rightarrow> bytes res" where
  [dec_defs]: "decode_identity_owner20 owner_segment =
     (case try_decode_identity_owner20 owner_segment of
        Inl e \<Rightarrow> Inl (Panic ''decode_identity_owner20'')
      | Inr owner20 \<Rightarrow> Inr owner20)"

definition DOTCELL_NAME_BY_OWNER_KEY_SIZE :: nat where [simp]: "DOTCELL_NAME_BY_OWNER_KEY_SIZE = 40"

definition encode_dotcell_name_by_owner_key ::
    "bytes \<Rightarrow> bytes \<Rightarrow> bytes res" where
  [enc_defs]: "encode_dotcell_name_by_owner_key owner20 name_id =
     rbind (assert_key_component_len ''encode_dotcell_name_by_owner_key'' ''owner20''
              (length owner20) DOTCELL_ID_LEN) (\<lambda>_.
     rbind (assert_key_component_len ''encode_dotcell_name_by_owner_key'' ''name_id''
              (length name_id) DOTCELL_ID_LEN) (\<lambda>_.
     Inr (owner20 @ name_id)))"

definition encode_dotcell_name_by_owner_prefix :: "bytes \<Rightarrow> bytes res" where
  [enc_defs]: "encode_dotcell_name_by_owner_prefix owner20 =
     rbind (assert_key_component_len ''encode_dotcell_name_by_owner_prefix'' ''owner20''
              (length owner20) DOTCELL_ID_LEN) (\<lambda>_.
     Inr owner20)"

definition decode_dotcell_name_by_owner_key ::
    "bytes \<Rightarrow> (bytes \<times> bytes) res" where
  [dec_defs]: "decode_dotcell_name_by_owner_key key =
     rbind (assert_key_component_len ''decode_dotcell_name_by_owner_key'' ''key''
              (length key) DOTCELL_NAME_BY_OWNER_KEY_SIZE) (\<lambda>_.
     rbind (slice 0 20 key) (\<lambda>owner20.
     rbind (slice 20 40 key) (\<lambda>name_id.
     Inr (owner20, name_id))))"

section \<open>Hourly and script statistics\<close>

definition encode_spore_hourly_key :: "bytes \<Rightarrow> i64 \<Rightarrow> bytes res" where
  [enc_defs]: "encode_spore_hourly_key cluster_id hour_bucket =
     rbind (pad_id_32 cluster_id) (\<lambda>padded.
     Inr (STATS_PREFIX_SPORE_HOURLY # padded @ to_be_bytes hour_bucket))"

definition encode_spore_hourly_prefix :: "bytes \<Rightarrow> bytes res" where
  [enc_defs]: "encode_spore_hourly_prefix cluster_id =
     rbind (pad_id_32 cluster_id) (\<lambda>padded.
     Inr (STATS_PREFIX_SPORE_HOURLY # padded))"

definition encode_object_hourly_key :: "bytes \<Rightarrow> i64 \<Rightarrow> bytes res" where
  [enc_defs]: "encode_object_hourly_key collection_id hour_bucket =
     rbind (pad_id_32 collection_id) (\<lambda>padded.
     Inr (STATS_PREFIX_OBJECT_HOURLY # padded @ to_be_bytes hour_bucket))"

definition encode_object_hourly_prefix :: "bytes \<Rightarrow> bytes res" where
  [enc_defs]: "encode_object_hourly_prefix collection_id =
     rbind (pad_id_32 collection_id) (\<lambda>padded.
     Inr (STATS_PREFIX_OBJECT_HOURLY # padded))"

definition SCRIPT_DAILY_KEY_SIZE :: nat where [simp]: "SCRIPT_DAILY_KEY_SIZE = 39"

definition assert_script_hash_type :: "u8 \<Rightarrow> unit res" where
  [enc_defs]: "assert_script_hash_type hash_type =
     ensure (hash_type = 0 \<or> hash_type = 1 \<or> hash_type = 2 \<or> hash_type = 4)
       (Panic ''script daily key hash_type must be one of 0/1/2/4'')"

definition encode_script_daily_key ::
    "bytes \<Rightarrow> u8 \<Rightarrow> bool \<Rightarrow> u32 \<Rightarrow> bytes res" where
  [enc_defs]: "encode_script_daily_key code_hash hash_type is_type date_yyyymmdd =
     rbind (assert_key_component_len ''encode_script_daily_key'' ''code_hash''
              (length code_hash) HASH32_LEN) (\<lambda>_.
     rbind (assert_script_hash_type hash_type) (\<lambda>_.
     Inr (STATS_PREFIX_SCRIPT_DAILY # take 32 code_hash @ [hash_type, if is_type then 1 else 0] @
          to_be_bytes date_yyyymmdd)))"

definition encode_script_daily_prefix ::
    "bytes \<Rightarrow> u8 \<Rightarrow> bool \<Rightarrow> bytes res" where
  [enc_defs]: "encode_script_daily_prefix code_hash hash_type is_type =
     rbind (assert_key_component_len ''encode_script_daily_prefix'' ''code_hash''
              (length code_hash) HASH32_LEN) (\<lambda>_.
     rbind (assert_script_hash_type hash_type) (\<lambda>_.
     Inr (STATS_PREFIX_SCRIPT_DAILY # take 32 code_hash @ [hash_type, if is_type then 1 else 0])))"

definition encode_script_daily_code_hash_prefix :: "bytes \<Rightarrow> bytes res" where
  [enc_defs]: "encode_script_daily_code_hash_prefix code_hash =
     rbind (assert_key_component_len ''encode_script_daily_code_hash_prefix'' ''code_hash''
              (length code_hash) HASH32_LEN) (\<lambda>_.
     Inr (STATS_PREFIX_SCRIPT_DAILY # take 32 code_hash))"

definition decode_script_daily_key ::
    "bytes \<Rightarrow> (bytes \<times> u8 \<times> bool \<times> u32) res" where
  [dec_defs]: "decode_script_daily_key key =
     rbind (slice 1 33 key) (\<lambda>code_hash.
     rbind (slice 33 34 key) (\<lambda>hash_type.
     rbind (slice 34 35 key) (\<lambda>kind.
     rbind (slice 35 39 key) (\<lambda>d.
     Inr (code_hash, hd hash_type, hd kind = 1, from_be_bytes d)))))"

section \<open>Cluster owners and spores\<close>

definition CLUSTER_OWNER_KEY_SIZE :: nat where [simp]: "CLUSTER_OWNER_KEY_SIZE = 65"

definition encode_cluster_owner_key :: "bytes \<Rightarrow> bytes \<Rightarrow> bytes res" where
  [enc_defs]: "encode_cluster_owner_key cluster_id lock_hash =
     rbind (assert_key_component_len ''encode_cluster_owner_key'' ''cluster_id''
              (length cluster_id) HASH32_LEN) (\<lambda>_.
     rbind (assert_key_component_len ''encode_cluster_owner_key'' ''lock_hash''
              (length lock_hash) HASH32_LEN) (\<lambda>_.
     Inr (STATS_PREFIX_CLUSTER_OWNER # take 32 cluster_id @ take 32 lock_hash)))"

definition encode_cluster_owner_prefix :: "bytes \<Rightarrow> bytes res" where
  [enc_defs]: "encode_cluster_owner_prefix cluster_id =
     rbind (assert_key_component_len ''encode_cluster_owner_prefix'' ''cluster_id''
              (length cluster_id) HASH32_LEN) (\<lambda>_.
     Inr (STATS_PREFIX_CLUSTER_OWNER # take 32 cluster_id))"

definition encode_spore_by_cluster_key ::
    "bytes \<Rightarrow> bytes \<Rightarrow> bytes res" where
  [enc_defs]: "encode_spore_by_cluster_key cluster_id spore_id =
     rbind (assert_key_component_len ''encode_spore_by_cluster_key'' ''cluster_id''
              (length cluster_id) HASH32_LEN) (\<lambda>_.
     rbind (assert_key_component_len ''encode_spore_by_cluster_key'' ''spore_id''
              (length spore_id) HASH32_LEN) (\<lambda>_.
     Inr (take 32 cluster_id @ take 32 spore_id)))"
section \<open>Laws\<close>

lemma prefix_cons_append:
  "length p = length q \<Longrightarrow> prefix (x # p) (y # q @ r) \<longleftrightarrow> x = y \<and> p = q"
  "length p = length q \<Longrightarrow> prefix p (q @ r) \<longleftrightarrow> p = q"
  by (auto simp: prefix_def)

lemma pad_id_32_Inr [res_simps]:
  "pad_id_32 i = Inr p \<longleftrightarrow> length i \<le> 32 \<and> p = i @ replicate (32 - length i) 0"
  by (auto simp: pad_id_32_def res_simps)

lemma prefix_padded:
  assumes "length a \<le> 32" and "length g \<le> 32"
  shows "prefix (g @ replicate (32 - length g) 0) (a @ replicate (32 - length a) 0 @ r) \<longleftrightarrow>
    a @ replicate (32 - length a) 0 = g @ replicate (32 - length g) (0 :: byte)"
proof -
  have "length (g @ replicate (32 - length g) (0 :: byte)) = length (a @ replicate (32 - length a) 0)"
    using assms by simp
  then show ?thesis using prefix_cons_append(2) by (metis append.assoc)
qed

lemma prefix_padded_self:
  assumes "length a \<le> 32" and "length g \<le> 32"
  shows "prefix (g @ replicate (32 - length g) 0) (a @ replicate (32 - length a) 0) \<longleftrightarrow>
    a @ replicate (32 - length a) 0 = g @ replicate (32 - length g) (0 :: byte)"
  using prefix_padded [OF assms, of "[]"] by simp

lemma drop_id_hash: "length h = 32 \<Longrightarrow> drop (33 + length a) (x # a @ h @ r) = r"
  by (simp add: drop_Cons')

lemmas scan_simps = prefix_cons_append prefix_padded prefix_padded_self

lemma length_pad_id_32: "pad_id_32 i = Inr p \<Longrightarrow> length p = 32"
  by (auto simp: res_simps)

text \<open>Padding loses the width: it is injective on ids of one width, and only there.\<close>

lemma pad_id_32_inj: "pad_id_32 i = Inr p \<Longrightarrow> pad_id_32 j = Inr p \<Longrightarrow> length i = length j \<Longrightarrow> i = j"
  by (auto simp: res_simps)

interpretation token_daily_codec:
  key_codec "\<lambda>(h, d). encode_token_daily_key h d" decode_token_daily_key id
  by unfold_locales (auto simp: enc_defs dec_defs res_simps)

interpretation cluster_daily_codec:
  key_codec "\<lambda>(h, d). encode_cluster_daily_key h d" decode_cluster_daily_key id
  by unfold_locales (auto simp: enc_defs dec_defs res_simps)

interpretation spore_daily_codec:
  key_codec "\<lambda>(h, d). encode_spore_daily_key h d" decode_spore_daily_key id
  by unfold_locales (auto simp: enc_defs dec_defs res_simps)

interpretation object_daily_codec:
  key_codec "\<lambda>(c, d). encode_object_daily_key c d" decode_object_daily_key
    "\<lambda>(c, d). (c @ replicate (32 - length c) 0, d)"
  by unfold_locales (auto simp: enc_defs dec_defs res_simps)

interpretation spore_outpoint_codec:
  key_codec "\<lambda>(h, i). encode_spore_outpoint_key h i" decode_spore_outpoint_key id
  by unfold_locales (auto simp: enc_defs dec_defs res_simps)

interpretation dotbit_account_outpoint_codec:
  key_codec "\<lambda>(h, i). encode_dotbit_account_outpoint_key h i" decode_dotbit_account_outpoint_key id
  by unfold_locales (auto simp: enc_defs dec_defs res_simps)

interpretation spore_outpoint_by_id_codec:
  key_codec "\<lambda>(s, h, i). encode_spore_outpoint_by_id_key s h i" decode_spore_outpoint_by_id_key snd
  by unfold_locales (auto simp: enc_defs dec_defs res_simps drop_id_hash)

interpretation dotbit_outpoint_by_account_id_codec:
  key_codec "\<lambda>(a, h, i). encode_dotbit_outpoint_by_account_id_key a h i"
    decode_dotbit_outpoint_by_account_id_key snd
  by unfold_locales (auto simp: enc_defs dec_defs res_simps)

interpretation dotcell_name_by_owner_codec:
  key_codec "\<lambda>(w, n). encode_dotcell_name_by_owner_key w n" decode_dotcell_name_by_owner_key id
  by unfold_locales (auto simp: enc_defs dec_defs res_simps)

interpretation script_daily_codec:
  key_codec "\<lambda>(h, t, k, d). encode_script_daily_key h t k d" decode_script_daily_key id
  by unfold_locales (auto simp: enc_defs dec_defs res_simps split: if_splits)

interpretation token_hourly_scan:
  prefix_scan "\<lambda>(h, b). encode_token_hourly_key h b" encode_token_hourly_prefix
    "\<lambda>g (h, b). h = g"
  by unfold_locales (auto simp: enc_defs res_simps scan_simps)

interpretation token_daily_scan:
  prefix_scan "\<lambda>(h, d). encode_token_daily_key h d" encode_token_daily_prefix
    "\<lambda>g (h, d). h = g"
  by unfold_locales (auto simp: enc_defs res_simps scan_simps)

interpretation cluster_daily_scan:
  prefix_scan "\<lambda>(h, d). encode_cluster_daily_key h d" encode_cluster_daily_prefix
    "\<lambda>g (h, d). h = g"
  by unfold_locales (auto simp: enc_defs res_simps scan_simps)

interpretation spore_daily_scan:
  prefix_scan "\<lambda>(h, d). encode_spore_daily_key h d" encode_spore_daily_prefix
    "\<lambda>g (h, d). h = g"
  by unfold_locales (auto simp: enc_defs res_simps scan_simps)

interpretation object_daily_scan:
  prefix_scan "\<lambda>(c, d). encode_object_daily_key c d" encode_object_daily_prefix
    "\<lambda>g (c, d). pad_id_32 c = pad_id_32 g"
  by unfold_locales (auto simp: enc_defs res_simps scan_simps)

interpretation object_hourly_scan:
  prefix_scan "\<lambda>(c, b). encode_object_hourly_key c b" encode_object_hourly_prefix
    "\<lambda>g (c, b). pad_id_32 c = pad_id_32 g"
  by unfold_locales (auto simp: enc_defs res_simps scan_simps)

interpretation spore_hourly_scan:
  prefix_scan "\<lambda>(c, b). encode_spore_hourly_key c b" encode_spore_hourly_prefix
    "\<lambda>g (c, b). pad_id_32 c = pad_id_32 g"
  by unfold_locales (auto simp: enc_defs res_simps scan_simps)

interpretation mnft_class_outpoint_scan:
  prefix_scan "\<lambda>(h, i). encode_mnft_class_outpoint_key h i" encode_mnft_class_outpoint_tx_prefix
    "\<lambda>g (h, i). h = g"
  by unfold_locales (auto simp: enc_defs res_simps scan_simps)

interpretation dotbit_outpoint_by_account_id_scan:
  prefix_scan "\<lambda>(a, h, i). encode_dotbit_outpoint_by_account_id_key a h i"
    encode_dotbit_outpoint_by_account_id_prefix "\<lambda>g (a, h, i). a = g"
  by unfold_locales (auto simp: enc_defs res_simps scan_simps)

interpretation object_collection_owner_scan:
  prefix_scan "\<lambda>(c, l). encode_object_collection_owner_key c l"
    encode_object_collection_owner_prefix "\<lambda>g (c, l). pad_id_32 c = pad_id_32 g"
  by unfold_locales (auto simp: enc_defs res_simps scan_simps)

interpretation object_by_collection_scan:
  prefix_scan "\<lambda>(c, x). encode_object_by_collection_key c x"
    encode_object_by_collection_prefix "\<lambda>g (c, x). pad_id_32 c = pad_id_32 g"
  by unfold_locales (auto simp: enc_defs res_simps scan_simps)

interpretation identity_by_collection_scan:
  prefix_scan "\<lambda>(c, x). encode_identity_by_collection_key c x"
    encode_identity_by_collection_prefix "\<lambda>g (c, x). pad_id_32 c = pad_id_32 g"
  by unfold_locales (auto simp: enc_defs res_simps scan_simps)

interpretation identity_owner_scan:
  prefix_scan "\<lambda>(c, l). encode_identity_owner_key c l"
    encode_identity_owner_prefix "\<lambda>g (c, l). pad_id_32 c = pad_id_32 g"
  by unfold_locales (auto simp: enc_defs res_simps scan_simps)

interpretation dotcell_name_by_owner_scan:
  prefix_scan "\<lambda>(w, n). encode_dotcell_name_by_owner_key w n"
    encode_dotcell_name_by_owner_prefix "\<lambda>g (w, n). w = g"
  by unfold_locales (auto simp: enc_defs res_simps scan_simps)

interpretation script_daily_scan:
  prefix_scan "\<lambda>(h, t, k, d). encode_script_daily_key h t k d"
    "\<lambda>(h, t, k). encode_script_daily_prefix h t k"
    "\<lambda>(h', t', k') (h, t, k, d). h = h' \<and> t = t' \<and> k = k'"
  by unfold_locales (auto simp: enc_defs res_simps prefix_def split: if_splits)

interpretation script_daily_code_scan:
  prefix_scan "\<lambda>(h, t, k, d). encode_script_daily_key h t k d"
    encode_script_daily_code_hash_prefix "\<lambda>g (h, t, k, d). h = g"
  by unfold_locales (auto simp: enc_defs res_simps scan_simps)

interpretation cluster_owner_scan:
  prefix_scan "\<lambda>(c, l). encode_cluster_owner_key c l" encode_cluster_owner_prefix
    "\<lambda>g (c, l). c = g"
  by unfold_locales (auto simp: enc_defs res_simps scan_simps)

end
