(* ===== verification/Store_Schema.thy ===== *)
theory Store_Schema
  imports Keys_Stats
begin

text \<open>
  The column families of \<^verbatim>\<open>crates/ckbadger-store/src/store.rs\<close>: their names, the
  write policy of each, the store classes with the families they open, and the
  routing of statistics keys to families by prefix byte. A column family handle
  is the name it was resolved from.
\<close>

section \<open>Names\<close>

type_synonym cf = string

definition CF_CELLS :: cf where "CF_CELLS = ''cells''"
definition CF_LIVE_CELLS :: cf where "CF_LIVE_CELLS = ''live_cells''"
definition CF_CONSUMED_CELLS :: cf where "CF_CONSUMED_CELLS = ''consumed_cells''"
definition CF_REORG_UNDO_LOG_BY_BLOCK :: cf where "CF_REORG_UNDO_LOG_BY_BLOCK = ''reorg_undo_log_by_block''"
definition CF_BLOCK_HEADERS :: cf where "CF_BLOCK_HEADERS = ''block_headers''"
definition CF_BLOCK_HASH_INDEX :: cf where "CF_BLOCK_HASH_INDEX = ''block_hash_index''"
definition CF_CELL_BY_LOCK :: cf where "CF_CELL_BY_LOCK = ''cell_by_lock''"
definition CF_CELL_BY_TYPE :: cf where "CF_CELL_BY_TYPE = ''cell_by_type''"
definition CF_CELL_BY_DATA_HASH :: cf where "CF_CELL_BY_DATA_HASH = ''cell_by_data_hash''"
definition CF_TX_INDEX :: cf where "CF_TX_INDEX = ''tx_index''"
definition CF_TX_HASH_MAP :: cf where "CF_TX_HASH_MAP = ''tx_hash_map''"
definition CF_ADDR_BALANCE :: cf where "CF_ADDR_BALANCE = ''addr_balance''"
definition CF_ADDR_TXS :: cf where "CF_ADDR_TXS = ''addr_txs''"
definition CF_DAO_DEPOSITS :: cf where "CF_DAO_DEPOSITS = ''dao_deposits''"
definition CF_DAO_BY_WITHDRAW_TX :: cf where "CF_DAO_BY_WITHDRAW_TX = ''dao_by_withdraw_tx''"
definition CF_DAO_BY_BLOCK :: cf where "CF_DAO_BY_BLOCK = ''dao_by_block''"
definition CF_DAO_BY_LOCK_BLOCK :: cf where "CF_DAO_BY_LOCK_BLOCK = ''dao_by_lock_block''"
definition CF_DAO_BY_STATUS_BLOCK :: cf where "CF_DAO_BY_STATUS_BLOCK = ''dao_by_status_block''"
definition CF_TOKENS :: cf where "CF_TOKENS = ''tokens''"
definition CF_TOKEN_HOLDERS :: cf where "CF_TOKEN_HOLDERS = ''token_holders''"
definition CF_TOKEN_HOLDERS_BY_BALANCE :: cf where "CF_TOKEN_HOLDERS_BY_BALANCE = ''token_holders_by_balance''"
definition CF_ADDR_TOKENS_BY_BALANCE :: cf where "CF_ADDR_TOKENS_BY_BALANCE = ''addr_tokens_by_balance''"
definition CF_SPORE_DATA :: cf where "CF_SPORE_DATA = ''spore_data''"
definition CF_MNFT_DATA :: cf where "CF_MNFT_DATA = ''mnft_data''"
definition CF_MNFT_BY_COLLECTION :: cf where "CF_MNFT_BY_COLLECTION = ''mnft_by_collection''"
definition CF_IDENTITY_DATA :: cf where "CF_IDENTITY_DATA = ''identity_data''"
definition CF_IDENTITY_BY_COLLECTION :: cf where "CF_IDENTITY_BY_COLLECTION = ''identity_by_collection''"
definition CF_STATS_IDENTITY :: cf where "CF_STATS_IDENTITY = ''stats_identity''"
definition CF_STATS_CHAIN :: cf where "CF_STATS_CHAIN = ''stats_chain''"
definition CF_STATS_DAO :: cf where "CF_STATS_DAO = ''stats_dao''"
definition CF_STATS_HODL :: cf where "CF_STATS_HODL = ''stats_hodl''"
definition CF_STATS_SCRIPT :: cf where "CF_STATS_SCRIPT = ''stats_script''"
definition CF_STATS_TOKEN :: cf where "CF_STATS_TOKEN = ''stats_token''"
definition CF_STATS_SPORE :: cf where "CF_STATS_SPORE = ''stats_spore''"
definition CF_STATS_MNFT :: cf where "CF_STATS_MNFT = ''stats_mnft''"
definition CF_SCRIPT_INFO :: cf where "CF_SCRIPT_INFO = ''script_info''"
definition CF_SCRIPT_VERSIONS :: cf where "CF_SCRIPT_VERSIONS = ''script_versions''"
definition CF_SCRIPT_VERSIONS_BY_LABEL :: cf where "CF_SCRIPT_VERSIONS_BY_LABEL = ''script_versions_by_label''"
definition CF_SCRIPT_FAMILIES :: cf where "CF_SCRIPT_FAMILIES = ''script_families''"
definition CF_SCRIPT_VERSIONS_BY_FAMILY :: cf where "CF_SCRIPT_VERSIONS_BY_FAMILY = ''script_versions_by_family''"
definition CF_SCRIPT_REFERENCE_INFO :: cf where "CF_SCRIPT_REFERENCE_INFO = ''script_reference_info''"
definition CF_SCRIPT_REFERENCE_TO_VERSION :: cf where "CF_SCRIPT_REFERENCE_TO_VERSION = ''script_reference_to_version''"
definition CF_SCRIPT_FAMILY_BY_NAME :: cf where "CF_SCRIPT_FAMILY_BY_NAME = ''script_family_by_name''"
definition CF_SYNC_META :: cf where "CF_SYNC_META = ''sync_meta''"
definition CF_SPORE_BY_CLUSTER :: cf where "CF_SPORE_BY_CLUSTER = ''spore_by_cluster''"
definition CF_CELL_BY_LOCK_CODE :: cf where "CF_CELL_BY_LOCK_CODE = ''cell_by_lock_code''"
definition CF_CELL_BY_TYPE_CODE :: cf where "CF_CELL_BY_TYPE_CODE = ''cell_by_type_code''"
definition CF_TOKEN_TRANSFERS :: cf where "CF_TOKEN_TRANSFERS = ''token_transfers''"
definition CF_TX_ACTIONS :: cf where "CF_TX_ACTIONS = ''activities''"
definition CF_TX_ACTIONS_BY_BUCKET :: cf where "CF_TX_ACTIONS_BY_BUCKET = ''tx_actions_by_bucket''"
definition CF_COLLECTION_ACTIVITY_DAILY :: cf where "CF_COLLECTION_ACTIVITY_DAILY = ''collection_activity_daily''"
definition CF_DAO_LIVE_AGG :: cf where "CF_DAO_LIVE_AGG = ''dao_live_agg''"
definition CF_OBJECT_COLLECTION_ACTIVITY_COUNT :: cf where "CF_OBJECT_COLLECTION_ACTIVITY_COUNT = ''object_collection_activity_count''"
definition CF_BIT_CELL_BY_ACCOUNT :: cf where "CF_BIT_CELL_BY_ACCOUNT = ''bit_cell_by_account''"
definition CF_CLUSTER_AGG :: cf where "CF_CLUSTER_AGG = ''cluster_agg''"
definition CF_MNFT_COLLECTION_AGG :: cf where "CF_MNFT_COLLECTION_AGG = ''mnft_collection_agg''"
definition CF_OBJECT_COLLECTION_ACTIVITIES :: cf where "CF_OBJECT_COLLECTION_ACTIVITIES = ''object_collection_activities''"
definition CF_IDENTITY_AGG :: cf where "CF_IDENTITY_AGG = ''identity_agg''"
definition CF_IDENTITY_COLLECTION_ACTIVITIES :: cf where "CF_IDENTITY_COLLECTION_ACTIVITIES = ''identity_collection_activities''"
definition CF_PENDING_PROPOSALS :: cf where "CF_PENDING_PROPOSALS = ''pending_proposals''"
definition CF_FIBER_CHANNELS :: cf where "CF_FIBER_CHANNELS = ''fiber_channels''"
definition CF_FIBER_CHANNEL_BY_COMMITMENT :: cf where "CF_FIBER_CHANNEL_BY_COMMITMENT = ''fiber_channel_by_commitment''"
definition CF_ADDR_FIBER_CHANNELS :: cf where "CF_ADDR_FIBER_CHANNELS = ''addr_fiber_channels''"
definition CF_DOB_DECODED :: cf where "CF_DOB_DECODED = ''dob_decoded''"
definition CF_LOCK_SCRIPTS :: cf where "CF_LOCK_SCRIPTS = ''lock_scripts''"
definition CF_ADDR_TXS_BY_PREFIX :: cf where "CF_ADDR_TXS_BY_PREFIX = ''addr_txs_by_prefix''"
definition CF_ADDR_PREFIX_STATS :: cf where "CF_ADDR_PREFIX_STATS = ''addr_prefix_stats''"
definition CF_DOTCELL_NAME_BY_OWNER :: cf where "CF_DOTCELL_NAME_BY_OWNER = ''dotcell_name_by_owner''"
definition CF_DOTCELL_RING :: cf where "CF_DOTCELL_RING = ''dotcell_ring''"
definition CF_NET_NODES :: cf where "CF_NET_NODES = ''net_nodes''"
definition CF_NET_STATS :: cf where "CF_NET_STATS = ''net_stats''"
definition CF_NET_CRAWL :: cf where "CF_NET_CRAWL = ''net_crawl''"

lemmas cf_defs =
  CF_CELLS_def CF_LIVE_CELLS_def CF_CONSUMED_CELLS_def CF_REORG_UNDO_LOG_BY_BLOCK_def
  CF_BLOCK_HEADERS_def CF_BLOCK_HASH_INDEX_def CF_CELL_BY_LOCK_def CF_CELL_BY_TYPE_def
  CF_CELL_BY_DATA_HASH_def CF_TX_INDEX_def CF_TX_HASH_MAP_def CF_ADDR_BALANCE_def CF_ADDR_TXS_def
  CF_DAO_DEPOSITS_def CF_DAO_BY_WITHDRAW_TX_def CF_DAO_BY_BLOCK_def CF_DAO_BY_LOCK_BLOCK_def
  CF_DAO_BY_STATUS_BLOCK_def CF_TOKENS_def CF_TOKEN_HOLDERS_def CF_TOKEN_HOLDERS_BY_BALANCE_def
  CF_ADDR_TOKENS_BY_BALANCE_def CF_SPORE_DATA_def CF_MNFT_DATA_def CF_MNFT_BY_COLLECTION_def
  CF_IDENTITY_DATA_def CF_IDENTITY_BY_COLLECTION_def CF_STATS_IDENTITY_def CF_STATS_CHAIN_def
  CF_STATS_DAO_def CF_STATS_HODL_def CF_STATS_SCRIPT_def CF_STATS_TOKEN_def CF_STATS_SPORE_def
  CF_STATS_MNFT_def CF_SCRIPT_INFO_def CF_SCRIPT_VERSIONS_def CF_SCRIPT_VERSIONS_BY_LABEL_def
  CF_SCRIPT_FAMILIES_def CF_SCRIPT_VERSIONS_BY_FAMILY_def CF_SCRIPT_REFERENCE_INFO_def
  CF_SCRIPT_REFERENCE_TO_VERSION_def CF_SCRIPT_FAMILY_BY_NAME_def CF_SYNC_META_def
  CF_SPORE_BY_CLUSTER_def CF_CELL_BY_LOCK_CODE_def CF_CELL_BY_TYPE_CODE_def
  CF_TOKEN_TRANSFERS_def CF_TX_ACTIONS_def CF_TX_ACTIONS_BY_BUCKET_def
  CF_COLLECTION_ACTIVITY_DAILY_def CF_DAO_LIVE_AGG_def CF_OBJECT_COLLECTION_ACTIVITY_COUNT_def
  CF_BIT_CELL_BY_ACCOUNT_def CF_CLUSTER_AGG_def CF_MNFT_COLLECTION_AGG_def
  CF_OBJECT_COLLECTION_ACTIVITIES_def CF_IDENTITY_AGG_def CF_IDENTITY_COLLECTION_ACTIVITIES_def
  CF_PENDING_PROPOSALS_def CF_FIBER_CHANNELS_def CF_FIBER_CHANNEL_BY_COMMITMENT_def
  CF_ADDR_FIBER_CHANNELS_def CF_DOB_DECODED_def CF_LOCK_SCRIPTS_def CF_ADDR_TXS_BY_PREFIX_def
  CF_ADDR_PREFIX_STATS_def CF_DOTCELL_NAME_BY_OWNER_def CF_DOTCELL_RING_def CF_NET_NODES_def
  CF_NET_STATS_def CF_NET_CRAWL_def

section \<open>Write policies\<close>

datatype CfWritePolicy = AppendOnlyPolicy | FinalSnapshot | SealedAggregate | BulkDisabled

definition CF_WRITE_POLICY_APPEND_ONLY :: "cf list" where
  "CF_WRITE_POLICY_APPEND_ONLY = [
    CF_CELLS, CF_BLOCK_HEADERS, CF_BLOCK_HASH_INDEX, CF_TX_INDEX, CF_TX_HASH_MAP,
    CF_CONSUMED_CELLS, CF_CELL_BY_DATA_HASH, CF_ADDR_TXS, CF_ADDR_TXS_BY_PREFIX,
    CF_TOKEN_TRANSFERS, CF_TX_ACTIONS, CF_TX_ACTIONS_BY_BUCKET, CF_OBJECT_COLLECTION_ACTIVITIES,
    CF_IDENTITY_COLLECTION_ACTIVITIES, CF_LOCK_SCRIPTS]"

definition CF_WRITE_POLICY_SEALED_AGGREGATE :: "cf list" where
  "CF_WRITE_POLICY_SEALED_AGGREGATE = [
    CF_COLLECTION_ACTIVITY_DAILY, CF_STATS_CHAIN, CF_STATS_DAO, CF_STATS_HODL, CF_STATS_SCRIPT,
    CF_STATS_TOKEN, CF_STATS_SPORE, CF_STATS_MNFT]"

definition CF_WRITE_POLICY_BULK_DISABLED :: "cf list" where
  "CF_WRITE_POLICY_BULK_DISABLED = [
    CF_REORG_UNDO_LOG_BY_BLOCK, CF_PENDING_PROPOSALS, CF_DOB_DECODED, CF_DAO_LIVE_AGG,
    CF_OBJECT_COLLECTION_ACTIVITY_COUNT, CF_BIT_CELL_BY_ACCOUNT]"

definition CF_WRITE_POLICY_FINAL_SNAPSHOT :: "cf list" where
  "CF_WRITE_POLICY_FINAL_SNAPSHOT = [
    CF_LIVE_CELLS, CF_CELL_BY_LOCK, CF_CELL_BY_TYPE, CF_ADDR_BALANCE, CF_ADDR_PREFIX_STATS,
    CF_DOTCELL_NAME_BY_OWNER, CF_DOTCELL_RING, CF_DAO_DEPOSITS, CF_DAO_BY_WITHDRAW_TX,
    CF_DAO_BY_BLOCK, CF_DAO_BY_LOCK_BLOCK, CF_DAO_BY_STATUS_BLOCK, CF_TOKENS, CF_TOKEN_HOLDERS,
    CF_TOKEN_HOLDERS_BY_BALANCE, CF_ADDR_TOKENS_BY_BALANCE, CF_SPORE_DATA, CF_MNFT_DATA,
    CF_MNFT_BY_COLLECTION, CF_IDENTITY_DATA, CF_IDENTITY_BY_COLLECTION, CF_STATS_IDENTITY,
    CF_SCRIPT_INFO, CF_SCRIPT_VERSIONS, CF_SCRIPT_VERSIONS_BY_LABEL, CF_SCRIPT_FAMILIES,
    CF_SCRIPT_VERSIONS_BY_FAMILY, CF_SCRIPT_REFERENCE_INFO, CF_SCRIPT_REFERENCE_TO_VERSION,
    CF_SCRIPT_FAMILY_BY_NAME, CF_SYNC_META, CF_SPORE_BY_CLUSTER, CF_CELL_BY_LOCK_CODE,
    CF_CELL_BY_TYPE_CODE, CF_CLUSTER_AGG, CF_MNFT_COLLECTION_AGG, CF_IDENTITY_AGG,
    CF_FIBER_CHANNELS, CF_FIBER_CHANNEL_BY_COMMITMENT, CF_ADDR_FIBER_CHANNELS, CF_NET_NODES,
    CF_NET_STATS, CF_NET_CRAWL]"

definition cf_write_policy :: "cf \<Rightarrow> CfWritePolicy res" where
  "cf_write_policy cf_name =
     (if cf_name \<in> set CF_WRITE_POLICY_APPEND_ONLY then Inr AppendOnlyPolicy
      else if cf_name \<in> set CF_WRITE_POLICY_SEALED_AGGREGATE then Inr SealedAggregate
      else if cf_name \<in> set CF_WRITE_POLICY_BULK_DISABLED then Inr BulkDisabled
      else if cf_name \<in> set CF_WRITE_POLICY_FINAL_SNAPSHOT then Inr FinalSnapshot
      else Inl (Panic ''unknown column family write policy''))"

section \<open>Store classes\<close>

datatype StoreClass = Domain | AppendOnly | TestUnified | Network

datatype StoreWriteIntent = Normal | AppendValidated | BulkSyncAppendValidated

definition ALL_CFS :: "cf list" where
  "ALL_CFS = [
    CF_CELLS, CF_LIVE_CELLS, CF_CONSUMED_CELLS, CF_REORG_UNDO_LOG_BY_BLOCK, CF_BLOCK_HEADERS,
    CF_BLOCK_HASH_INDEX, CF_CELL_BY_LOCK, CF_CELL_BY_TYPE, CF_CELL_BY_LOCK_CODE,
    CF_CELL_BY_TYPE_CODE, CF_CELL_BY_DATA_HASH, CF_TX_INDEX, CF_TX_HASH_MAP, CF_ADDR_BALANCE,
    CF_ADDR_TXS, CF_DAO_DEPOSITS, CF_DAO_BY_WITHDRAW_TX, CF_DAO_BY_BLOCK, CF_DAO_BY_LOCK_BLOCK,
    CF_DAO_BY_STATUS_BLOCK, CF_TOKENS, CF_TOKEN_HOLDERS, CF_TOKEN_HOLDERS_BY_BALANCE,
    CF_ADDR_TOKENS_BY_BALANCE, CF_SPORE_DATA, CF_MNFT_DATA, CF_MNFT_BY_COLLECTION,
    CF_IDENTITY_DATA, CF_IDENTITY_BY_COLLECTION, CF_STATS_CHAIN, CF_STATS_DAO, CF_STATS_HODL,
    CF_STATS_SCRIPT, CF_STATS_TOKEN, CF_STATS_SPORE, CF_STATS_MNFT, CF_STATS_IDENTITY,
    CF_SCRIPT_INFO, CF_SCRIPT_VERSIONS, CF_SCRIPT_VERSIONS_BY_LABEL, CF_SCRIPT_FAMILIES,
    CF_SCRIPT_VERSIONS_BY_FAMILY, CF_SCRIPT_REFERENCE_INFO, CF_SCRIPT_REFERENCE_TO_VERSION,
    CF_SCRIPT_FAMILY_BY_NAME, CF_SYNC_META, CF_SPORE_BY_CLUSTER, CF_TOKEN_TRANSFERS,
    CF_TX_ACTIONS, CF_CLUSTER_AGG, CF_MNFT_COLLECTION_AGG, CF_OBJECT_COLLECTION_ACTIVITIES,
    CF_IDENTITY_AGG, CF_IDENTITY_COLLECTION_ACTIVITIES, CF_PENDING_PROPOSALS, CF_FIBER_CHANNELS,
    CF_FIBER_CHANNEL_BY_COMMITMENT, CF_ADDR_FIBER_CHANNELS, CF_DOB_DECODED, CF_LOCK_SCRIPTS,
    CF_ADDR_TXS_BY_PREFIX, CF_ADDR_PREFIX_STATS, CF_DOTCELL_NAME_BY_OWNER, CF_DOTCELL_RING,
    CF_TX_ACTIONS_BY_BUCKET, CF_COLLECTION_ACTIVITY_DAILY, CF_DAO_LIVE_AGG,
    CF_OBJECT_COLLECTION_ACTIVITY_COUNT, CF_BIT_CELL_BY_ACCOUNT]"

definition DOMAIN_CFS :: "cf list" where
  "DOMAIN_CFS = [
    CF_LIVE_CELLS, CF_CONSUMED_CELLS, CF_REORG_UNDO_LOG_BY_BLOCK, CF_BLOCK_HEADERS,
    CF_BLOCK_HASH_INDEX, CF_CELL_BY_LOCK, CF_CELL_BY_TYPE, CF_CELL_BY_LOCK_CODE,
    CF_CELL_BY_TYPE_CODE, CF_CELL_BY_DATA_HASH, CF_TX_INDEX, CF_TX_HASH_MAP, CF_ADDR_BALANCE,
    CF_ADDR_TXS, CF_DAO_DEPOSITS, CF_DAO_BY_WITHDRAW_TX, CF_DAO_BY_BLOCK, CF_DAO_BY_LOCK_BLOCK,
    CF_DAO_BY_STATUS_BLOCK, CF_TOKENS, CF_TOKEN_HOLDERS, CF_TOKEN_HOLDERS_BY_BALANCE,
    CF_ADDR_TOKENS_BY_BALANCE, CF_SPORE_DATA, CF_MNFT_DATA, CF_MNFT_BY_COLLECTION,
    CF_IDENTITY_DATA, CF_IDENTITY_BY_COLLECTION, CF_STATS_CHAIN, CF_STATS_DAO, CF_STATS_HODL,
    CF_STATS_SCRIPT, CF_STATS_TOKEN, CF_STATS_SPORE, CF_STATS_MNFT, CF_STATS_IDENTITY,
    CF_SCRIPT_INFO, CF_SCRIPT_VERSIONS, CF_SCRIPT_VERSIONS_BY_LABEL, CF_SCRIPT_FAMILIES,
    CF_SCRIPT_VERSIONS_BY_FAMILY, CF_SCRIPT_REFERENCE_INFO, CF_SCRIPT_REFERENCE_TO_VERSION,
    CF_SCRIPT_FAMILY_BY_NAME, CF_SYNC_META, CF_SPORE_BY_CLUSTER, CF_TOKEN_TRANSFERS,
    CF_TX_ACTIONS, CF_CLUSTER_AGG, CF_MNFT_COLLECTION_AGG, CF_OBJECT_COLLECTION_ACTIVITIES,
    CF_IDENTITY_AGG, CF_IDENTITY_COLLECTION_ACTIVITIES, CF_PENDING_PROPOSALS, CF_FIBER_CHANNELS,
    CF_FIBER_CHANNEL_BY_COMMITMENT, CF_ADDR_FIBER_CHANNELS, CF_DOB_DECODED, CF_LOCK_SCRIPTS,
    CF_ADDR_TXS_BY_PREFIX, CF_ADDR_PREFIX_STATS, CF_DOTCELL_NAME_BY_OWNER, CF_DOTCELL_RING,
    CF_TX_ACTIONS_BY_BUCKET, CF_COLLECTION_ACTIVITY_DAILY, CF_DAO_LIVE_AGG,
    CF_OBJECT_COLLECTION_ACTIVITY_COUNT, CF_BIT_CELL_BY_ACCOUNT]"

definition APPEND_CFS :: "cf list" where
  "APPEND_CFS = [
    CF_CELLS]"

definition NETWORK_CFS :: "cf list" where
  "NETWORK_CFS = [
    CF_NET_NODES, CF_NET_STATS, CF_NET_CRAWL]"

definition is_append_only_cf_name :: "cf \<Rightarrow> bool" where
  "is_append_only_cf_name cf_name \<longleftrightarrow> cf_name \<in> set APPEND_CFS"

fun cfs_for_class :: "StoreClass \<Rightarrow> cf list" where
  "cfs_for_class Domain = DOMAIN_CFS"
| "cfs_for_class AppendOnly = APPEND_CFS"
| "cfs_for_class TestUnified = ALL_CFS"
| "cfs_for_class Network = NETWORK_CFS"

fun cf_allowed :: "StoreClass \<Rightarrow> cf \<Rightarrow> bool" where
  "cf_allowed Domain name \<longleftrightarrow> name \<in> set DOMAIN_CFS"
| "cf_allowed AppendOnly name \<longleftrightarrow> name \<in> set APPEND_CFS"
| "cf_allowed TestUnified name \<longleftrightarrow> True"
| "cf_allowed Network name \<longleftrightarrow> name \<in> set NETWORK_CFS"

text \<open>
  \<open>DB::cf_handle\<close>: the database was opened with the families of its class, and
  always has RocksDB's own default family.
\<close>

definition cf_handle :: "StoreClass \<Rightarrow> cf \<Rightarrow> cf option" where
  "cf_handle c name = (if name \<in> set (''default'' # cfs_for_class c) then Some name else None)"

section \<open>Statistics families\<close>

definition stats_cf_name_by_prefix :: "u8 \<Rightarrow> cf res" where
  "stats_cf_name_by_prefix pre =
     (if pre \<in> set [
        STATS_PREFIX_DAILY, STATS_PREFIX_HOURLY, STATS_PREFIX_EPOCH, STATS_PREFIX_MINER,
        STATS_PREFIX_BLOCK_TIME_DIST, STATS_PREFIX_EPOCH_TIME_DIST, STATS_PREFIX_DAILY_BLOCK,
        STATS_PREFIX_ACTIVITY_DAILY, STATS_PREFIX_ACTIVITY_HOURLY,
        STATS_PREFIX_ACTIVITY_DAILY_ADDR_SET, STATS_PREFIX_ACTIVITY_HOURLY_ADDR_SET] then Inr CF_STATS_CHAIN
      else if pre \<in> set [
        STATS_PREFIX_DAO_DAILY_SNAPSHOT, STATS_PREFIX_DAO_LATEST_STATS,
        STATS_PREFIX_DAO_TOP_DEPOSITORS] then Inr CF_STATS_DAO
      else if pre \<in> set [
        STATS_PREFIX_HODL_WAVE, STATS_PREFIX_CELL_DISTRIBUTION, STATS_PREFIX_ADDR_COHORT] then Inr CF_STATS_HODL
      else if pre \<in> set [
        STATS_PREFIX_SCRIPT_DAILY] then Inr CF_STATS_SCRIPT
      else if pre \<in> set [
        STATS_PREFIX_TOKEN_TRANSFERS, STATS_PREFIX_TOKEN_HOURLY, STATS_PREFIX_TOKEN_DAILY] then Inr CF_STATS_TOKEN
      else if pre \<in> set [
        STATS_PREFIX_CLUSTER_OWNER, STATS_PREFIX_SPORE_HOURLY, STATS_PREFIX_CLUSTER_DAILY,
        STATS_PREFIX_SPORE_DAILY, STATS_PREFIX_SPORE_OUTPOINT, STATS_PREFIX_SPORE_TYPE_INDEX,
        STATS_PREFIX_SPORE_OUTPOINT_BY_ID] then Inr CF_STATS_SPORE
      else if pre \<in> set [
        STATS_PREFIX_OBJECT_HOURLY, STATS_PREFIX_OBJECT_DAILY, STATS_PREFIX_OBJECT_TYPE_INDEX,
        STATS_PREFIX_MNFT_CLASS_OUTPOINT, STATS_PREFIX_MNFT_TOKEN_OUTPOINT,
        STATS_PREFIX_DOTBIT_ACCOUNT_OUTPOINT, STATS_PREFIX_DOTBIT_OUTPOINT_BY_ACCOUNT_ID,
        STATS_PREFIX_DOTBIT_UNINDEXED_OUTPOINT, STATS_PREFIX_OBJECT_COLLECTION_OWNER] then Inr CF_STATS_MNFT
      else Inl (Bail ''unsupported stats prefix''))"

text \<open>\<open>store.cf(name)\<close>: the handle, or a panic when the class does not allow or open the family.\<close>

definition store_cf :: "StoreClass \<Rightarrow> cf \<Rightarrow> cf res" where
  "store_cf c name =
     rbind (ensure (cf_allowed c name) (Panic ''CF is not allowed in store'')) (\<lambda>_.
     ok_or (cf_handle c name) (Panic ''CF not found''))"

definition stats_cf_by_prefix :: "StoreClass \<Rightarrow> u8 \<Rightarrow> cf res" where
  "stats_cf_by_prefix c pre =
     (if pre \<in> set [
        STATS_PREFIX_DAILY, STATS_PREFIX_HOURLY, STATS_PREFIX_EPOCH, STATS_PREFIX_MINER,
        STATS_PREFIX_BLOCK_TIME_DIST, STATS_PREFIX_EPOCH_TIME_DIST, STATS_PREFIX_DAILY_BLOCK,
        STATS_PREFIX_ACTIVITY_DAILY, STATS_PREFIX_ACTIVITY_HOURLY,
        STATS_PREFIX_ACTIVITY_DAILY_ADDR_SET, STATS_PREFIX_ACTIVITY_HOURLY_ADDR_SET] then store_cf c CF_STATS_CHAIN
      else if pre \<in> set [
        STATS_PREFIX_DAO_DAILY_SNAPSHOT, STATS_PREFIX_DAO_LATEST_STATS,
        STATS_PREFIX_DAO_TOP_DEPOSITORS] then store_cf c CF_STATS_DAO
      else if pre \<in> set [
        STATS_PREFIX_HODL_WAVE, STATS_PREFIX_CELL_DISTRIBUTION, STATS_PREFIX_ADDR_COHORT] then store_cf c CF_STATS_HODL
      else if pre \<in> set [
        STATS_PREFIX_SCRIPT_DAILY] then store_cf c CF_STATS_SCRIPT
      else if pre \<in> set [
        STATS_PREFIX_TOKEN_TRANSFERS, STATS_PREFIX_TOKEN_HOURLY, STATS_PREFIX_TOKEN_DAILY] then store_cf c CF_STATS_TOKEN
      else if pre \<in> set [
        STATS_PREFIX_CLUSTER_OWNER, STATS_PREFIX_SPORE_HOURLY, STATS_PREFIX_CLUSTER_DAILY,
        STATS_PREFIX_SPORE_DAILY, STATS_PREFIX_SPORE_OUTPOINT, STATS_PREFIX_SPORE_TYPE_INDEX,
        STATS_PREFIX_SPORE_OUTPOINT_BY_ID] then store_cf c CF_STATS_SPORE
      else if pre \<in> set [
        STATS_PREFIX_OBJECT_HOURLY, STATS_PREFIX_OBJECT_DAILY, STATS_PREFIX_OBJECT_TYPE_INDEX,
        STATS_PREFIX_MNFT_CLASS_OUTPOINT, STATS_PREFIX_MNFT_TOKEN_OUTPOINT,
        STATS_PREFIX_DOTBIT_ACCOUNT_OUTPOINT, STATS_PREFIX_DOTBIT_OUTPOINT_BY_ACCOUNT_ID,
        STATS_PREFIX_DOTBIT_UNINDEXED_OUTPOINT, STATS_PREFIX_OBJECT_COLLECTION_OWNER] then store_cf c CF_STATS_MNFT
      else Inl (Bail ''unsupported stats prefix''))"

definition cf_for_stats_key :: "StoreClass \<Rightarrow> bytes \<Rightarrow> cf res" where
  "cf_for_stats_key c key =
     (case key of [] \<Rightarrow> Inl (Bail ''empty stats key'') | pre # _ \<Rightarrow> stats_cf_by_prefix c pre)"
section \<open>Laws\<close>

definition policy_lists :: "cf list list" where
  "policy_lists = [CF_WRITE_POLICY_APPEND_ONLY, CF_WRITE_POLICY_SEALED_AGGREGATE,
     CF_WRITE_POLICY_BULK_DISABLED, CF_WRITE_POLICY_FINAL_SNAPSHOT]"

lemma one_policy: "list_all (\<lambda>name. length (filter (\<lambda>l. name \<in> set l) policy_lists) = 1) (ALL_CFS @ NETWORK_CFS)"
  by code_simp

lemma no_stray_policy: "list_all (\<lambda>name. name \<in> set (ALL_CFS @ NETWORK_CFS)) (concat policy_lists)"
  by code_simp

lemma cfs_covered: "set (cfs_for_class c) \<subseteq> set (ALL_CFS @ NETWORK_CFS)"
proof -
  have "list_all (\<lambda>name. name \<in> set (ALL_CFS @ NETWORK_CFS)) (DOMAIN_CFS @ APPEND_CFS)" by code_simp
  then show ?thesis by (cases c) (auto simp: list_all_iff)
qed

text \<open>
  C35. Every column family a store of any class opens is on exactly one of the four
  policy lists, so \<open>cf_write_policy\<close> answers for it, the order of its tests does not
  matter, and it panics exactly on names no store opens.
\<close>

theorem cf_write_policy_total:
  "((\<exists>c. name \<in> set (cfs_for_class c)) \<longleftrightarrow> (\<exists>p. cf_write_policy name = Inr p)) \<and>
   ((\<exists>c. name \<in> set (cfs_for_class c)) \<longleftrightarrow>
      length (filter (\<lambda>l. name \<in> set l) policy_lists) = 1)"
proof -
  have opened: "(\<exists>c. name \<in> set (cfs_for_class c)) \<longleftrightarrow> name \<in> set (ALL_CFS @ NETWORK_CFS)"
  proof
    show "\<exists>c. name \<in> set (cfs_for_class c) \<Longrightarrow> name \<in> set (ALL_CFS @ NETWORK_CFS)"
      using cfs_covered by blast
    assume "name \<in> set (ALL_CFS @ NETWORK_CFS)"
    then have "name \<in> set (cfs_for_class TestUnified) \<or> name \<in> set (cfs_for_class Network)" by simp
    then show "\<exists>c. name \<in> set (cfs_for_class c)" by blast
  qed
  have ok: "(\<exists>p. cf_write_policy name = Inr p) \<longleftrightarrow> (\<exists>l \<in> set policy_lists. name \<in> set l)"
    by (auto simp: cf_write_policy_def policy_lists_def)
  have "\<exists>l \<in> set policy_lists. name \<in> set l \<Longrightarrow> name \<in> set (ALL_CFS @ NETWORK_CFS)"
    using no_stray_policy unfolding list_all_iff by (metis UN_iff set_concat)
  moreover have "name \<in> set (ALL_CFS @ NETWORK_CFS) \<Longrightarrow>
      length (filter (\<lambda>l. name \<in> set l) policy_lists) = 1"
    using one_policy unfolding list_all_iff by blast
  moreover have "length (filter (\<lambda>l. name \<in> set l) policy_lists) = 1 \<Longrightarrow>
      \<exists>l \<in> set policy_lists. name \<in> set l"
    by (metis filter_False length_0_conv zero_neq_one)
  ultimately show ?thesis using opened ok by blast
qed

lemma stats_cfs_open:
  "list_all (\<lambda>name. store_cf Domain name = Inr name)
     [CF_STATS_CHAIN, CF_STATS_DAO, CF_STATS_HODL, CF_STATS_SCRIPT, CF_STATS_TOKEN, CF_STATS_SPORE, CF_STATS_MNFT]"
  by code_simp

text \<open>
  C36. The two resolutions of a statistics prefix stay in step on the domain store: the
  handle a write goes to is the one the undo log names, both succeed on exactly the
  defined families, and no family is defined twice.
\<close>

theorem stats_prefix_routing:
  "stats_cf_by_prefix Domain pre = stats_cf_name_by_prefix pre \<and>
   ((\<exists>name. stats_cf_name_by_prefix pre = Inr name) \<longleftrightarrow> pre \<in> set stats_prefixes) \<and>
   distinct stats_prefixes"
proof (intro conjI)
  show "stats_cf_by_prefix Domain pre = stats_cf_name_by_prefix pre"
    using stats_cfs_open by (simp add: stats_cf_by_prefix_def stats_cf_name_by_prefix_def)
  show "(\<exists>name. stats_cf_name_by_prefix pre = Inr name) \<longleftrightarrow> pre \<in> set stats_prefixes"
    by (auto simp: stats_cf_name_by_prefix_def stats_prefixes_def split: if_splits)
  show "distinct stats_prefixes" by (simp add: stats_prefixes_def)
qed

end
