(* ===== verification/Rocks.thy ===== *)
theory Rocks
  imports Ordered_Map Store_Schema
begin

text \<open>
  What the store code uses of RocksDB: point reads, forward iteration from a key
  over one column family, and the atomic write of a batch, each of which may
  fail with an I/O error. The database is a parameter, its state an abstract
  type; the locale \<open>rocksdb\<close> states what its documentation promises, through
  \<open>rows d c\<close>, the rows of column family \<open>c\<close> in key order. An in-memory database
  shows that the promises can be kept.
\<close>

section \<open>Batches\<close>

datatype wop = Put cf bytes bytes | Delete cf bytes | DeleteRange cf bytes bytes

fun apply_wop :: "wop \<Rightarrow> (cf \<Rightarrow> (bytes, bytes) omap) \<Rightarrow> cf \<Rightarrow> (bytes, bytes) omap" where
  "apply_wop (Put c k v) f = f(c := om_put k v (f c))"
| "apply_wop (Delete c k) f = f(c := om_del k (f c))"
| "apply_wop (DeleteRange c s e) f = f(c := filter (\<lambda>(k, v). \<not> (s \<le> k \<and> k < e)) (f c))"

abbreviation apply_batch :: "wop list \<Rightarrow> (cf \<Rightarrow> (bytes, bytes) omap) \<Rightarrow> cf \<Rightarrow> (bytes, bytes) omap" where
  "apply_batch \<equiv> fold apply_wop"

lemma apply_batch_sorted: "(\<And>c. om_sorted (f c)) \<Longrightarrow> om_sorted (apply_batch ops f c)"
proof (induction ops arbitrary: f)
  case (Cons op ops)
  have "om_sorted (apply_wop op f c')" for c' using Cons.prems by (cases op) auto
  then show ?case using Cons.IH by simp
qed simp

section \<open>The database\<close>

datatype write_mode = Wal | Synced | NoWal

record 'db rocks =
  db_get :: "'db \<Rightarrow> cf \<Rightarrow> bytes \<Rightarrow> bytes option res"
  db_from :: "'db \<Rightarrow> cf \<Rightarrow> bytes \<Rightarrow> (bytes \<times> bytes) res list"
  db_write :: "write_mode \<Rightarrow> 'db \<Rightarrow> wop list \<Rightarrow> 'db \<times> unit res"

locale rocksdb =
  fixes R :: "'db rocks"
    and rows :: "'db \<Rightarrow> cf \<Rightarrow> (bytes, bytes) omap"
  assumes rows_sorted: "om_sorted (rows d c)"
    and get_row: "db_get R d c k = Inr v \<Longrightarrow> v = om_get (rows d c) k"
    and iterate: "db_from R d c s = map Inr (om_from s (rows d c)) \<or>
      (\<exists>n e rest. db_from R d c s = map Inr (take n (om_from s (rows d c))) @ Inl e # rest)"
    and write_ok: "db_write R w d ops = (d', Inr u) \<Longrightarrow> rows d' = apply_batch ops (rows d)"
    and write_failed: "db_write R w d ops = (d', Inl e) \<Longrightarrow> rows d' = rows d"
begin

lemma write_atomic:
  "rows (fst (db_write R w d ops)) = apply_batch ops (rows d) \<or> rows (fst (db_write R w d ops)) = rows d"
  using write_ok write_failed by (metis prod.collapse sum.exhaust)

end

section \<open>Reading to the end of an iterator\<close>

text \<open>\<open>for item in iter { let (key, value) = item?; .. }\<close>: the rows, or the first error.\<close>

fun collect_items :: "(bytes \<times> bytes) res list \<Rightarrow> (bytes \<times> bytes) list res" where
  "collect_items [] = Inr []"
| "collect_items (Inl e # items) = Inl e"
| "collect_items (Inr r # items) = rbind (collect_items items) (\<lambda>rs. Inr (r # rs))"

lemma collect_items_ok [simp]: "collect_items (map Inr rs) = Inr rs"
  by (induction rs) simp_all

lemma collect_items_err [simp]: "collect_items (map Inr rs @ Inl e # rest) = Inl e"
  by (induction rs) simp_all

section \<open>An in-memory database\<close>

typedef mem = "{f :: cf \<Rightarrow> (bytes, bytes) omap. \<forall>c. om_sorted (f c)}"
  by (rule exI [of _ "\<lambda>_. []"]) simp

definition mem_rows :: "mem \<Rightarrow> cf \<Rightarrow> (bytes, bytes) omap" where
  "mem_rows = Rep_mem"

definition mem_empty :: mem where
  "mem_empty = Abs_mem (\<lambda>_. [])"

definition mem_write :: "mem \<Rightarrow> wop list \<Rightarrow> mem" where
  "mem_write d ops = Abs_mem (apply_batch ops (Rep_mem d))"

definition mem_rocks :: "mem rocks" where
  "mem_rocks = \<lparr>
     db_get = (\<lambda>d c k. Inr (om_get (mem_rows d c) k)),
     db_from = (\<lambda>d c s. map Inr (om_from s (mem_rows d c))),
     db_write = (\<lambda>w d ops. (mem_write d ops, Inr ()))\<rparr>"

lemma mem_rows_sorted: "om_sorted (mem_rows d c)"
  using Rep_mem [of d] by (simp add: mem_rows_def)

lemma mem_rows_write [simp]: "mem_rows (mem_write d ops) = apply_batch ops (mem_rows d)"
  using Rep_mem [of d] by (simp add: mem_rows_def mem_write_def Abs_mem_inverse apply_batch_sorted)

lemma mem_rows_empty [simp]: "mem_rows mem_empty = (\<lambda>_. [])"
  by (simp add: mem_rows_def mem_empty_def Abs_mem_inverse)

interpretation mem: rocksdb mem_rocks mem_rows
  by unfold_locales (auto simp: mem_rocks_def mem_rows_sorted)

end
