(* ===== verification/Store.thy ===== *)
theory Store
  imports Rocks
begin

text \<open>
  The store handle of \<^verbatim>\<open>crates/ckbadger-store/src/store.rs\<close> and the batch it
  commits (\<^verbatim>\<open>crates/ckbadger-store/src/batch.rs\<close>): the guards that keep the
  append-only store immutable, the write paths with their intents, and the
  append-only commit with its duplicate check, its chunked existence probe and
  its replay rule. The write gate only serializes writers; the release profile
  aborts on panic, so its lock is never found poisoned.
\<close>

section \<open>The handle\<close>

record 'db store =
  store_class :: StoreClass
  bulk_sync_mode :: bool
  db :: 'db

definition has_cf :: "'db store \<Rightarrow> cf \<Rightarrow> bool" where
  "has_cf s name = cf_allowed (store_class s) name"

definition is_append_only_store :: "'db store \<Rightarrow> bool" where
  "is_append_only_store s \<longleftrightarrow> store_class s = AppendOnly"

definition append_cf_name_for_handle :: "'db store \<Rightarrow> cf \<Rightarrow> cf res" where
  "append_cf_name_for_handle s c =
     rbind (ensure (is_append_only_store s)
              (Bail ''append_cf_name_for_handle called on non-append store'')) (\<lambda>_.
     rbind (store_cf (store_class s) CF_CELLS) (\<lambda>cells.
     if c = cells then Inr CF_CELLS
     else Inl (Bail ''unknown append-only column family handle'')))"

definition validate_append_put_by_cf_name ::
    "'db rocks \<Rightarrow> 'db store \<Rightarrow> cf \<Rightarrow> bytes \<Rightarrow> bytes \<Rightarrow> StoreWriteIntent \<Rightarrow> unit res" where
  "validate_append_put_by_cf_name R s cf_name key value intent =
     (if \<not> is_append_only_store s then Inr ()
      else rbind (ok_or (cf_handle (store_class s) cf_name) (Bail ''CF not found'')) (\<lambda>c.
           rbind (db_get R (db s) c key) (\<lambda>existing.
           case existing of
             Some _ \<Rightarrow> Inl (Bail ''append-only overwrite blocked'')
           | None \<Rightarrow> Inr ())))"

definition validate_append_delete_by_cf_name ::
    "'db store \<Rightarrow> cf \<Rightarrow> bytes \<Rightarrow> StoreWriteIntent \<Rightarrow> unit res" where
  "validate_append_delete_by_cf_name s cf_name key intent =
     (if \<not> is_append_only_store s then Inr ()
      else Inl (Bail ''append-only delete blocked''))"

definition get_cf :: "'db rocks \<Rightarrow> 'db store \<Rightarrow> cf \<Rightarrow> bytes \<Rightarrow> bytes option res" where
  "get_cf R s c key = db_get R (db s) c key"

section \<open>Writes\<close>

text \<open>The store after a write is the handle on the database after it.\<close>

definition db_write_store :: "'db rocks \<Rightarrow> write_mode \<Rightarrow> 'db store \<Rightarrow> wop list \<Rightarrow> 'db store \<times> unit res" where
  "db_write_store R w s batch = (case db_write R w (db s) batch of (d', r) \<Rightarrow> (s\<lparr>db := d'\<rparr>, r))"

definition put_cf :: "'db rocks \<Rightarrow> 'db store \<Rightarrow> cf \<Rightarrow> bytes \<Rightarrow> bytes \<Rightarrow> 'db store \<times> unit res" where
  "put_cf R s c key value =
     (case (if is_append_only_store s
            then rbind (append_cf_name_for_handle s c) (\<lambda>cf_name.
                 validate_append_put_by_cf_name R s cf_name key value Normal)
            else Inr ()) of
        Inl e \<Rightarrow> (s, Inl e)
      | Inr _ \<Rightarrow> db_write_store R Wal s [Put c key value])"

definition delete_cf :: "'db rocks \<Rightarrow> 'db store \<Rightarrow> cf \<Rightarrow> bytes \<Rightarrow> 'db store \<times> unit res" where
  "delete_cf R s c key =
     (case (if is_append_only_store s
            then rbind (append_cf_name_for_handle s c) (\<lambda>cf_name.
                 validate_append_delete_by_cf_name s cf_name key Normal)
            else Inr ()) of
        Inl e \<Rightarrow> (s, Inl e)
      | Inr _ \<Rightarrow> db_write_store R Wal s [Delete c key])"

definition write_batch_unchecked :: "'db rocks \<Rightarrow> 'db store \<Rightarrow> wop list \<Rightarrow> 'db store \<times> unit res" where
  "write_batch_unchecked R s batch = db_write_store R Wal s batch"

definition write_batch_synced_unchecked :: "'db rocks \<Rightarrow> 'db store \<Rightarrow> wop list \<Rightarrow> 'db store \<times> unit res" where
  "write_batch_synced_unchecked R s batch = db_write_store R Synced s batch"

definition write_batch_no_wal_unchecked :: "'db rocks \<Rightarrow> 'db store \<Rightarrow> wop list \<Rightarrow> 'db store \<times> unit res" where
  "write_batch_no_wal_unchecked R s batch = db_write_store R NoWal s batch"

definition write_batch_no_wal_bulk :: "'db rocks \<Rightarrow> 'db store \<Rightarrow> wop list \<Rightarrow> 'db store \<times> unit res" where
  "write_batch_no_wal_bulk R s batch = write_batch_no_wal_unchecked R s batch"

definition write_batch_with_intent ::
    "'db rocks \<Rightarrow> 'db store \<Rightarrow> wop list \<Rightarrow> StoreWriteIntent \<Rightarrow> 'db store \<times> unit res" where
  "write_batch_with_intent R s batch intent =
     (if is_append_only_store s \<and> \<not> (intent = AppendValidated \<or> intent = BulkSyncAppendValidated)
      then (s, Inl (Bail ''append-only raw write_batch blocked''))
      else write_batch_unchecked R s batch)"

definition write_batch_with_intent_synced ::
    "'db rocks \<Rightarrow> 'db store \<Rightarrow> wop list \<Rightarrow> StoreWriteIntent \<Rightarrow> 'db store \<times> unit res" where
  "write_batch_with_intent_synced R s batch intent =
     (if is_append_only_store s \<and> \<not> (intent = AppendValidated \<or> intent = BulkSyncAppendValidated)
      then (s, Inl (Bail ''append-only raw write_batch_synced blocked''))
      else write_batch_synced_unchecked R s batch)"

definition write_batch_no_wal_with_intent ::
    "'db rocks \<Rightarrow> 'db store \<Rightarrow> wop list \<Rightarrow> StoreWriteIntent \<Rightarrow> 'db store \<times> unit res" where
  "write_batch_no_wal_with_intent R s batch intent =
     (if is_append_only_store s \<and> \<not> (intent = AppendValidated \<or> intent = BulkSyncAppendValidated)
      then (s, Inl (Bail ''append-only raw write_batch_no_wal blocked''))
      else write_batch_no_wal_unchecked R s batch)"

definition write_batch :: "'db rocks \<Rightarrow> 'db store \<Rightarrow> wop list \<Rightarrow> 'db store \<times> unit res" where
  "write_batch R s batch = write_batch_with_intent R s batch Normal"

definition write_batch_synced :: "'db rocks \<Rightarrow> 'db store \<Rightarrow> wop list \<Rightarrow> 'db store \<times> unit res" where
  "write_batch_synced R s batch = write_batch_with_intent_synced R s batch Normal"

definition write_batch_no_wal :: "'db rocks \<Rightarrow> 'db store \<Rightarrow> wop list \<Rightarrow> 'db store \<times> unit res" where
  "write_batch_no_wal R s batch = write_batch_no_wal_with_intent R s batch Normal"

definition apply_batch_op_by_cf_name_with_intent ::
    "'db rocks \<Rightarrow> 'db store \<Rightarrow> wop list \<Rightarrow> cf \<Rightarrow> bytes \<Rightarrow> bytes option \<Rightarrow> StoreWriteIntent \<Rightarrow> wop list res" where
  "apply_batch_op_by_cf_name_with_intent R s batch cf_name key value intent =
     rbind (ensure (cf_allowed (store_class s) cf_name) (Bail ''CF is not allowed in store'')) (\<lambda>_.
     rbind (ok_or (cf_handle (store_class s) cf_name) (Bail ''CF not found'')) (\<lambda>c.
     case value of
       Some v \<Rightarrow>
         rbind (validate_append_put_by_cf_name R s cf_name key v intent) (\<lambda>_.
         Inr (batch @ [Put c key v]))
     | None \<Rightarrow>
         rbind (validate_append_delete_by_cf_name s cf_name key intent) (\<lambda>_.
         Inr (batch @ [Delete c key]))))"

definition apply_batch_op_by_cf_name ::
    "'db rocks \<Rightarrow> 'db store \<Rightarrow> wop list \<Rightarrow> cf \<Rightarrow> bytes \<Rightarrow> bytes option \<Rightarrow> wop list res" where
  "apply_batch_op_by_cf_name R s batch cf_name key value =
     apply_batch_op_by_cf_name_with_intent R s batch cf_name key value Normal"

definition get_stats_key :: "'db rocks \<Rightarrow> 'db store \<Rightarrow> bytes \<Rightarrow> bytes option res" where
  "get_stats_key R s key = rbind (cf_for_stats_key (store_class s) key) (\<lambda>c. get_cf R s c key)"

definition put_stats_key :: "'db rocks \<Rightarrow> 'db store \<Rightarrow> bytes \<Rightarrow> bytes \<Rightarrow> 'db store \<times> unit res" where
  "put_stats_key R s key value =
     (case cf_for_stats_key (store_class s) key of
        Inl e \<Rightarrow> (s, Inl e)
      | Inr c \<Rightarrow> put_cf R s c key value)"

section \<open>Iteration\<close>

definition iterator_cf_from :: "'db rocks \<Rightarrow> 'db store \<Rightarrow> cf \<Rightarrow> bytes \<Rightarrow> (bytes \<times> bytes) res list" where
  "iterator_cf_from R s c start = db_from R (db s) c start"

text \<open>\<open>take_while\<close> stops at the first key outside the prefix and passes errors on.\<close>

definition prefix_iterator_cf :: "'db rocks \<Rightarrow> 'db store \<Rightarrow> cf \<Rightarrow> bytes \<Rightarrow> (bytes \<times> bytes) res list" where
  "prefix_iterator_cf R s c pre =
     takeWhile (\<lambda>item. case item of Inr (key, _) \<Rightarrow> prefix pre key | Inl _ \<Rightarrow> True) (db_from R (db s) c pre)"

section \<open>Batches\<close>

record AppendBatchOp =
  ao_cf_name :: cf
  ao_key :: bytes
  ao_value :: "bytes option"

record store_batch =
  batch :: "wop list"
  append_ops :: "AppendBatchOp list"

definition new_batch :: store_batch where
  "new_batch = \<lparr>batch = [], append_ops = []\<rparr>"

definition batch_len :: "store_batch \<Rightarrow> nat" where
  "batch_len b = length (batch b) + length (append_ops b)"

definition batch_is_empty :: "store_batch \<Rightarrow> bool" where
  "batch_is_empty b \<longleftrightarrow> batch b = [] \<and> append_ops b = []"

definition batch_put_cf :: "'db store \<Rightarrow> store_batch \<Rightarrow> cf \<Rightarrow> bytes \<Rightarrow> bytes \<Rightarrow> store_batch res" where
  "batch_put_cf s b c key value =
     (if is_append_only_store s
      then (case append_cf_name_for_handle s c of
              Inl e \<Rightarrow> Inl (Panic ''failed to resolve append-only CF in StoreBatch::put_cf'')
            | Inr cf_name \<Rightarrow>
                Inr (b\<lparr>append_ops := append_ops b @
                        [\<lparr>ao_cf_name = cf_name, ao_key = key, ao_value = Some value\<rparr>]\<rparr>))
      else Inr (b\<lparr>batch := batch b @ [Put c key value]\<rparr>))"

definition batch_delete_cf :: "'db store \<Rightarrow> store_batch \<Rightarrow> cf \<Rightarrow> bytes \<Rightarrow> store_batch res" where
  "batch_delete_cf s b c key =
     (if is_append_only_store s
      then (case append_cf_name_for_handle s c of
              Inl e \<Rightarrow> Inl (Panic ''failed to resolve append-only CF in StoreBatch::delete_cf'')
            | Inr cf_name \<Rightarrow>
                Inr (b\<lparr>append_ops := append_ops b @
                        [\<lparr>ao_cf_name = cf_name, ao_key = key, ao_value = None\<rparr>]\<rparr>))
      else Inr (b\<lparr>batch := batch b @ [Delete c key]\<rparr>))"

definition put_raw_cf_by_name :: "'db store \<Rightarrow> store_batch \<Rightarrow> cf \<Rightarrow> bytes \<Rightarrow> bytes \<Rightarrow> store_batch res" where
  "put_raw_cf_by_name s b cf_name key value =
     rbind (ensure (has_cf s cf_name) (Bail ''CF is not available in this store batch'')) (\<lambda>_.
     rbind (store_cf (store_class s) cf_name) (\<lambda>c.
     batch_put_cf s b c key value))"

definition delete_raw_cf_by_name :: "'db store \<Rightarrow> store_batch \<Rightarrow> cf \<Rightarrow> bytes \<Rightarrow> store_batch res" where
  "delete_raw_cf_by_name s b cf_name key =
     rbind (ensure (has_cf s cf_name) (Bail ''CF is not available in this store batch'')) (\<lambda>_.
     rbind (store_cf (store_class s) cf_name) (\<lambda>c.
     batch_delete_cf s b c key))"

definition delete_range_raw_cf_by_name ::
    "'db store \<Rightarrow> store_batch \<Rightarrow> cf \<Rightarrow> bytes \<Rightarrow> bytes \<Rightarrow> store_batch res" where
  "delete_range_raw_cf_by_name s b cf_name start_key end_key =
     rbind (ensure (has_cf s cf_name) (Bail ''CF is not available in this store batch'')) (\<lambda>_.
     rbind (ensure (\<not> (is_append_only_cf_name cf_name \<or> is_append_only_store s))
              (Bail ''range delete refused on append-only CF'')) (\<lambda>_.
     rbind (store_cf (store_class s) cf_name) (\<lambda>c.
     Inr (b\<lparr>batch := batch b @ [DeleteRange c start_key end_key]\<rparr>))))"

section \<open>Commit\<close>

fun duplicate_check :: "(cf \<times> bytes) set \<Rightarrow> AppendBatchOp list \<Rightarrow> unit res" where
  "duplicate_check seen [] = Inr ()"
| "duplicate_check seen (p # ops) =
     (if (ao_cf_name p, ao_key p) \<in> seen then Inl (Bail ''append-only batch duplicate key blocked'')
      else duplicate_check (insert (ao_cf_name p, ao_key p) seen) ops)"

definition APPEND_PROBE_CHUNK_KEYS :: nat where "APPEND_PROBE_CHUNK_KEYS = 4096"

function chunks :: "nat \<Rightarrow> 'a list \<Rightarrow> 'a list list" where
  "chunks n xs = (if xs = [] \<or> n = 0 then [] else take n xs # chunks n (drop n xs))"
  by pat_completeness auto
termination by (relation "measure (\<lambda>(n, xs). length xs)") auto

declare chunks.simps [simp del]

fun probe_chunk :: "'db rocks \<Rightarrow> 'db store \<Rightarrow> AppendBatchOp list \<Rightarrow> bytes option list res" where
  "probe_chunk R s [] = Inr []"
| "probe_chunk R s (p # ops) =
     rbind (store_cf (store_class s) (ao_cf_name p)) (\<lambda>c.
     rbind (db_get R (db s) c (ao_key p)) (\<lambda>existing.
     rbind (probe_chunk R s ops) (\<lambda>rest.
     Inr (existing # rest))))"

fun probe_chunks :: "'db rocks \<Rightarrow> 'db store \<Rightarrow> AppendBatchOp list list \<Rightarrow> bytes option list res" where
  "probe_chunks R s [] = Inr []"
| "probe_chunks R s (chunk # cs) =
     rbind (probe_chunk R s chunk) (\<lambda>found.
     rbind (probe_chunks R s cs) (\<lambda>rest.
     Inr (found @ rest)))"

text \<open>\<open>probed\<close> is what is left of the probe results, from \<open>probe_index\<close> on.\<close>

fun filter_ops ::
    "'db store \<Rightarrow> StoreWriteIntent \<Rightarrow> bool \<Rightarrow> bytes option list \<Rightarrow> AppendBatchOp list \<Rightarrow> wop list \<Rightarrow> wop list res" where
  "filter_ops s intent skip probed [] out = Inr out"
| "filter_ops s intent skip probed (p # ops) out =
     rbind (store_cf (store_class s) (ao_cf_name p)) (\<lambda>c.
     case ao_value p of
       Some value \<Rightarrow>
         if skip then filter_ops s intent skip probed ops (out @ [Put c (ao_key p) value])
         else (case probed of
             [] \<Rightarrow> Inl (Bail ''append-only existence probe result missing'')
           | Some existing # rest \<Rightarrow>
               if existing = value then filter_ops s intent skip rest ops out
               else Inl (Bail ''append-only overwrite blocked'')
           | None # rest \<Rightarrow> filter_ops s intent skip rest ops (out @ [Put c (ao_key p) value]))
     | None \<Rightarrow>
         rbind (validate_append_delete_by_cf_name s (ao_cf_name p) (ao_key p) intent) (\<lambda>_.
         filter_ops s intent skip probed ops (out @ [Delete c (ao_key p)])))"

definition prepare_append :: "'db rocks \<Rightarrow> 'db store \<Rightarrow> AppendBatchOp list \<Rightarrow> (wop list \<times> StoreWriteIntent) res" where
  "prepare_append R s ops =
     (let intent = (if bulk_sync_mode s then BulkSyncAppendValidated else AppendValidated);
          skip = (intent = BulkSyncAppendValidated)
      in rbind (duplicate_check {} ops) (\<lambda>_.
         let put_ops = (if skip then [] else filter (\<lambda>p. ao_value p \<noteq> None) ops)
         in rbind (probe_chunks R s (chunks APPEND_PROBE_CHUNK_KEYS put_ops)) (\<lambda>probed.
            rbind (filter_ops s intent skip probed ops []) (\<lambda>filtered_batch.
            Inr (filtered_batch, intent)))))"

definition commit_inner :: "'db rocks \<Rightarrow> 'db store \<Rightarrow> store_batch \<Rightarrow> bool \<Rightarrow> bool \<Rightarrow> 'db store \<times> unit res" where
  "commit_inner R s b no_wal sync =
     (if is_append_only_store s then
        (case prepare_append R s (append_ops b) of
           Inl e \<Rightarrow> (s, Inl e)
         | Inr (filtered_batch, intent) \<Rightarrow>
             if no_wal then write_batch_no_wal_with_intent R s filtered_batch intent
             else if sync then write_batch_with_intent_synced R s filtered_batch intent
             else write_batch_with_intent R s filtered_batch intent)
      else if no_wal then write_batch_no_wal R s (batch b)
      else if sync then write_batch_synced R s (batch b)
      else write_batch R s (batch b))"

definition commit :: "'db rocks \<Rightarrow> 'db store \<Rightarrow> store_batch \<Rightarrow> 'db store \<times> unit res" where
  "commit R s b = commit_inner R s b False False"

definition commit_no_wal :: "'db rocks \<Rightarrow> 'db store \<Rightarrow> store_batch \<Rightarrow> 'db store \<times> unit res" where
  "commit_no_wal R s b = commit_inner R s b True False"

definition commit_synced :: "'db rocks \<Rightarrow> 'db store \<Rightarrow> store_batch \<Rightarrow> 'db store \<times> unit res" where
  "commit_synced R s b = commit_inner R s b False True"

section \<open>Laws\<close>

lemma store_cf_Inr [res_simps]:
  "store_cf cl name = Inr c \<longleftrightarrow> c = name \<and> cf_allowed cl name \<and> name \<in> set (''default'' # cfs_for_class cl)"
  by (auto simp: store_cf_def cf_handle_def res_simps split: if_splits)

lemma concat_chunks: "0 < n \<Longrightarrow> concat (chunks n xs) = xs"
proof (induction n xs rule: chunks.induct)
  case (1 n xs)
  then show ?case by (cases "xs = []") (simp_all add: chunks.simps [of n xs] chunks.simps [of n "[]"])
qed

lemma probe_chunk_append:
  "probe_chunk R s (xs @ ys) = rbind (probe_chunk R s xs) (\<lambda>a. rbind (probe_chunk R s ys) (\<lambda>b. Inr (a @ b)))"
  by (induction xs) (auto simp: rbind_def split: sum.splits)

lemma probe_chunks_concat: "probe_chunks R s cs = probe_chunk R s (concat cs)"
  by (induction cs) (simp_all add: probe_chunk_append)

lemma duplicate_check_Inr:
  "duplicate_check seen ops = Inr u \<longleftrightarrow>
     distinct (map (\<lambda>p. (ao_cf_name p, ao_key p)) ops) \<and>
     seen \<inter> set (map (\<lambda>p. (ao_cf_name p, ao_key p)) ops) = {}"
  by (induction ops arbitrary: seen) auto

text \<open>The value a batch of puts gives a key, if it has one for it.\<close>

definition op_value :: "AppendBatchOp list \<Rightarrow> cf \<Rightarrow> bytes \<Rightarrow> bytes option" where
  "op_value ops c k = map_of (map (\<lambda>p. ((ao_cf_name p, ao_key p), the (ao_value p))) ops) (c, k)"

abbreviation put_of :: "AppendBatchOp \<Rightarrow> wop" where
  "put_of p \<equiv> Put (ao_cf_name p) (ao_key p) (the (ao_value p))"

lemma get_apply_puts:
  assumes "distinct (map (\<lambda>p. (ao_cf_name p, ao_key p)) ops)"
  shows "om_get (apply_batch (map put_of ops) f c) k =
    (case op_value ops c k of None \<Rightarrow> om_get (f c) k | v \<Rightarrow> v)"
  using assms
proof (induction ops arbitrary: f)
  case Nil
  then show ?case by (simp add: op_value_def)
next
  case (Cons p ops)
  have "op_value ops (ao_cf_name p) (ao_key p) = None"
    using Cons.prems by (auto simp: op_value_def map_of_eq_None_iff)
  then show ?case using Cons by (auto simp: op_value_def split: option.splits)
qed

lemma op_value_Some:
  assumes "distinct (map (\<lambda>p. (ao_cf_name p, ao_key p)) ops)"
  shows "op_value ops c k = Some v \<longleftrightarrow>
    (\<exists>p \<in> set ops. ao_cf_name p = c \<and> ao_key p = k \<and> the (ao_value p) = v)"
proof -
  have "distinct (map fst (map (\<lambda>p. ((ao_cf_name p, ao_key p), the (ao_value p))) ops))"
    using assms by (simp add: comp_def)
  then show ?thesis unfolding op_value_def by (force simp: map_of_eq_Some_iff)
qed

lemma op_value_None: "op_value ops c k = None \<longleftrightarrow> (\<forall>p \<in> set ops. \<not> (ao_cf_name p = c \<and> ao_key p = k))"
  unfolding op_value_def map_of_eq_None_iff by (force simp: image_iff)


context rocksdb
begin

abbreviation look :: "'db store \<Rightarrow> AppendBatchOp \<Rightarrow> bytes option" where
  "look s p \<equiv> om_get (rows (db s) (ao_cf_name p)) (ao_key p)"

lemma probe_chunk_rows: "probe_chunk R s ops = Inr probed \<Longrightarrow> probed = map (look s) ops"
  by (induction ops arbitrary: probed) (auto simp: res_simps dest!: get_row)

lemma filter_ops_append:
  assumes "is_append_only_store s"
    and "filter_ops s intent False (map (look s) (filter (\<lambda>p. ao_value p \<noteq> None) ops)) ops out = Inr fb"
  shows "(\<forall>p \<in> set ops. \<exists>v. ao_value p = Some v \<and> (look s p = None \<or> look s p = Some v)) \<and>
    fb = out @ map put_of (filter (\<lambda>p. look s p = None) ops)"
  using assms(2)
proof (induction ops arbitrary: out)
  case (Cons p ops)
  show ?case
  proof (cases "ao_value p")
    case None
    then show ?thesis
      using Cons.prems assms(1) by (auto simp: res_simps validate_append_delete_by_cf_name_def)
  next
    case (Some v)
    then show ?thesis
    proof (cases "look s p")
      case None
      then show ?thesis using Some Cons.prems Cons.IH [of "out @ [put_of p]"] by (auto simp: res_simps)
    next
      case (Some w)
      then show ?thesis using \<open>ao_value p = Some v\<close> Cons.prems Cons.IH [of out]
        by (auto simp: res_simps split: if_splits)
    qed
  qed
qed simp

lemma filter_ops_admits:
  assumes "\<forall>p \<in> set ops. store_cf (store_class s) (ao_cf_name p) = Inr (ao_cf_name p) \<and>
    (\<exists>v. ao_value p = Some v \<and> (look s p = None \<or> look s p = Some v))"
  shows "filter_ops s intent False (map (look s) (filter (\<lambda>p. ao_value p \<noteq> None) ops)) ops out =
    Inr (out @ map put_of (filter (\<lambda>p. look s p = None) ops))"
  using assms by (induction ops arbitrary: out) (auto split: option.splits)

lemma probe_chunk_reads:
  assumes "\<forall>c k. is_ok (db_get R (db s) c k)" and "\<forall>p \<in> set ops. store_cf (store_class s) (ao_cf_name p) = Inr (ao_cf_name p)"
  shows "probe_chunk R s ops = Inr (map (look s) ops)"
  using assms(2)
proof (induction ops)
  case (Cons p ops)
  obtain v where "db_get R (db s) (ao_cf_name p) (ao_key p) = Inr v" using assms(1) by (auto simp: is_ok_iff)
  then show ?case using Cons get_row by fastforce
qed simp

text \<open>When the reads work, a batch is admitted exactly if it is conflict-free, and cut to its new rows.\<close>

lemma prepare_append_admits:
  assumes "\<not> bulk_sync_mode s" and "\<forall>c k. is_ok (db_get R (db s) c k)"
    and "distinct (map (\<lambda>p. (ao_cf_name p, ao_key p)) ops)"
    and "\<forall>p \<in> set ops. store_cf (store_class s) (ao_cf_name p) = Inr (ao_cf_name p) \<and>
      (\<exists>v. ao_value p = Some v \<and> (look s p = None \<or> look s p = Some v))"
  shows "prepare_append R s ops = Inr (map put_of (filter (\<lambda>p. look s p = None) ops), AppendValidated)"
proof -
  let ?puts = "filter (\<lambda>p. ao_value p \<noteq> None) ops"
  have "probe_chunk R s ?puts = Inr (map (look s) ?puts)"
    using assms(4) by (intro probe_chunk_reads [OF assms(2)]) simp
  moreover have "duplicate_check {} ops = Inr ()" using assms(3) by (simp add: duplicate_check_Inr)
  ultimately show ?thesis
    using assms(1) filter_ops_admits [OF assms(4), of AppendValidated "[]"]
    by (simp add: prepare_append_def probe_chunks_concat concat_chunks APPEND_PROBE_CHUNK_KEYS_def)
qed

lemma db_write_store_cases:
  assumes "db_write_store R w s ops = (s', r)"
  shows "rows (db s') = (if is_ok r then apply_batch ops (rows (db s)) else rows (db s))"
  using assms write_ok write_failed
  by (cases r) (auto simp: db_write_store_def is_ok_def split: prod.splits)

lemma prepare_append_ok:
  assumes "is_append_only_store s" and "\<not> bulk_sync_mode s" and "prepare_append R s ops = Inr (fb, intent)"
  shows "intent = AppendValidated" and "distinct (map (\<lambda>p. (ao_cf_name p, ao_key p)) ops)"
    and "\<forall>p \<in> set ops. \<exists>v. ao_value p = Some v \<and> (look s p = None \<or> look s p = Some v)"
    and "fb = map put_of (filter (\<lambda>p. look s p = None) ops)"
proof -
  let ?puts = "filter (\<lambda>p. ao_value p \<noteq> None) ops"
  obtain probed where "duplicate_check {} ops = Inr ()"
      and probed: "probe_chunk R s ?puts = Inr probed"
      and fb: "filter_ops s AppendValidated False probed ops [] = Inr fb" and i: "intent = AppendValidated"
    using assms(2,3)
    by (auto simp: prepare_append_def probe_chunks_concat concat_chunks APPEND_PROBE_CHUNK_KEYS_def res_simps)
  then show "intent = AppendValidated" "distinct (map (\<lambda>p. (ao_cf_name p, ao_key p)) ops)"
    by (simp_all add: duplicate_check_Inr)
  have "probed = map (look s) ?puts" using probed by (rule probe_chunk_rows)
  then show "\<forall>p \<in> set ops. \<exists>v. ao_value p = Some v \<and> (look s p = None \<or> look s p = Some v)"
    "fb = map put_of (filter (\<lambda>p. look s p = None) ops)"
    using filter_ops_append [OF assms(1), of AppendValidated ops "[]" fb] fb by auto
qed

lemma op_value_filtered:
  assumes "distinct (map (\<lambda>p. (ao_cf_name p, ao_key p)) ops)"
    and "\<forall>p \<in> set ops. \<exists>v. ao_value p = Some v \<and> (look s p = None \<or> look s p = Some v)"
  shows "(case op_value (filter (\<lambda>p. look s p = None) ops) c k of None \<Rightarrow> om_get (rows (db s) c) k | v \<Rightarrow> v) =
    (case op_value ops c k of None \<Rightarrow> om_get (rows (db s) c) k | v \<Rightarrow> v)"
proof (cases "op_value ops c k")
  case None
  then have "op_value (filter (\<lambda>p. look s p = None) ops) c k = None" by (auto simp: op_value_None)
  then show ?thesis using None by simp
next
  case (Some v)
  then obtain p where p: "p \<in> set ops" "ao_cf_name p = c" "ao_key p = k" "the (ao_value p) = v"
    using assms(1) by (auto simp: op_value_Some)
  have d: "distinct (map (\<lambda>p. (ao_cf_name p, ao_key p)) (filter (\<lambda>p. look s p = None) ops))"
    using assms(1) by (simp add: distinct_map_filter)
  show ?thesis
  proof (cases "look s p")
    case None
    then have "op_value (filter (\<lambda>p. look s p = None) ops) c k = Some v"
      using p by (auto simp: op_value_Some [OF d])
    then show ?thesis using Some by simp
  next
    case (Some w)
    then have "w = v" using p assms(2) by fastforce
    moreover have "op_value (filter (\<lambda>p. look s p = None) ops) c k = None"
      using p Some by (auto simp: op_value_None)
    ultimately show ?thesis using Some p \<open>op_value ops c k = Some v\<close> by simp
  qed
qed

text \<open>What an append-only commit outside bulk sync does to the rows.\<close>

lemma append_commit:
  assumes "is_append_only_store s" and "\<not> bulk_sync_mode s"
    and "commit_inner R s b no_wal sync = (s', r)"
  shows "(is_ok r \<longrightarrow>
      (\<forall>p \<in> set (append_ops b). \<exists>v. ao_value p = Some v \<and> (look s p = None \<or> look s p = Some v)) \<and>
      distinct (map (\<lambda>p. (ao_cf_name p, ao_key p)) (append_ops b)) \<and>
      (\<forall>c k. om_get (rows (db s') c) k =
        (case op_value (append_ops b) c k of None \<Rightarrow> om_get (rows (db s) c) k | v \<Rightarrow> v))) \<and>
    (\<not> is_ok r \<longrightarrow> rows (db s') = rows (db s))"
proof -
  consider (refused) e where "s' = s" "r = Inl e"
    | (written) fb intent w where "prepare_append R s (append_ops b) = Inr (fb, intent)"
        "db_write_store R w s fb = (s', r)"
    using assms
    by (auto simp: commit_inner_def write_batch_with_intent_def write_batch_with_intent_synced_def
        write_batch_no_wal_with_intent_def write_batch_unchecked_def write_batch_synced_unchecked_def
        write_batch_no_wal_unchecked_def prepare_append_ok(1) split: sum.splits prod.splits if_splits)
  then show ?thesis
  proof cases
    case refused
    then show ?thesis by simp
  next
    case (written fb intent w)
    note prep = prepare_append_ok [OF assms(1,2) written(1)]
    show ?thesis
      using db_write_store_cases [OF written(2)] prep(2,3) op_value_filtered [OF prep(2,3)]
      by (simp add: prep(4) get_apply_puts distinct_map_filter)
  qed
qed

lemma append_commit_keeps:
  assumes "is_append_only_store s" and "\<not> bulk_sync_mode s"
    and "om_get (rows (db s) c) k = Some v"
  shows "om_get (rows (db (fst (commit_inner R s b no_wal sync))) c) k = Some v"
proof -
  obtain s' r where c: "commit_inner R s b no_wal sync = (s', r)" by force
  note out = append_commit [OF assms(1,2) c]
  show ?thesis
  proof (cases "is_ok r")
    case True
    show ?thesis
    proof (cases "op_value (append_ops b) c k")
      case None
      then show ?thesis using out True assms(3) c by simp
    next
      case (Some w)
      then obtain p where "p \<in> set (append_ops b)" "ao_cf_name p = c" "ao_key p = k" "the (ao_value p) = w"
        using out True by (auto simp: op_value_Some)
      then have "w = v" using out True assms(3) by fastforce
      then show ?thesis using out True Some c by simp
    qed
  next
    case False
    then show ?thesis using out assms(3) c by simp
  qed
qed

lemma append_put_keeps:
  assumes "is_append_only_store s" and "om_get (rows (db s) c) k = Some v"
  shows "om_get (rows (db (fst (put_cf R s c' k' v'))) c) k = Some v"
proof -
  let ?guard = "rbind (append_cf_name_for_handle s c') (\<lambda>n. validate_append_put_by_cf_name R s n k' v' Normal)"
  show ?thesis
  proof (cases ?guard)
    case (Inl e)
    then show ?thesis using assms by (simp add: put_cf_def)
  next
    case (Inr u)
    then have "db_get R (db s) c' k' = Inr None"
      using assms(1)
      by (auto simp: append_cf_name_for_handle_def validate_append_put_by_cf_name_def cf_handle_def
          res_simps split: if_splits option.splits)
    then have new: "om_get (rows (db s) c') k' = None" using get_row by metis
    obtain s' r where w: "db_write_store R Wal s [Put c' k' v'] = (s', r)" by force
    have "fst (put_cf R s c' k' v') = s'" using assms(1) Inr w by (simp add: put_cf_def)
    then show ?thesis using db_write_store_cases [OF w] assms(2) new by auto
  qed
qed

lemma append_delete_refused: "is_append_only_store s \<Longrightarrow> fst (delete_cf R s c k) = s"
  by (auto simp: delete_cf_def rbind_def validate_append_delete_by_cf_name_def split: sum.splits)

lemma append_raw_refused:
  "is_append_only_store s \<Longrightarrow> fst (write_batch R s ops) = s"
  "is_append_only_store s \<Longrightarrow> fst (write_batch_synced R s ops) = s"
  "is_append_only_store s \<Longrightarrow> fst (write_batch_no_wal R s ops) = s"
  by (simp_all add: write_batch_def write_batch_synced_def write_batch_no_wal_def write_batch_with_intent_def
      write_batch_with_intent_synced_def write_batch_no_wal_with_intent_def)

end

text \<open>
  Every public write of the handle, whatever its outcome. The unguarded write of the bulk flush
  pipeline is subject to its documented contract: the caller is in bulk-sync mode.
\<close>

inductive store_step :: "'db rocks \<Rightarrow> 'db store \<Rightarrow> 'db store \<Rightarrow> bool" for R where
  step_put: "store_step R s (fst (put_cf R s c k v))"
| step_put_stats: "store_step R s (fst (put_stats_key R s k v))"
| step_delete: "store_step R s (fst (delete_cf R s c k))"
| step_batch: "store_step R s (fst (write_batch R s ops))"
| step_batch_synced: "store_step R s (fst (write_batch_synced R s ops))"
| step_batch_no_wal: "store_step R s (fst (write_batch_no_wal R s ops))"
| step_batch_no_wal_bulk: "bulk_sync_mode s \<Longrightarrow> store_step R s (fst (write_batch_no_wal_bulk R s ops))"
| step_commit: "store_step R s (fst (commit R s b))"
| step_commit_no_wal: "store_step R s (fst (commit_no_wal R s b))"
| step_commit_synced: "store_step R s (fst (commit_synced R s b))"

inductive_cases store_stepE: "store_step R s s'"

lemma db_write_store_handle:
  "store_class (fst (db_write_store R w s ops)) = store_class s"
  "bulk_sync_mode (fst (db_write_store R w s ops)) = bulk_sync_mode s"
  by (auto simp: db_write_store_def split: prod.splits)

abbreviation same_handle :: "'db store \<Rightarrow> 'db store \<Rightarrow> bool" where
  "same_handle s s' \<equiv> store_class s' = store_class s \<and> bulk_sync_mode s' = bulk_sync_mode s"

lemma put_handle: "same_handle s (fst (put_cf R s c k v))"
  by (simp add: put_cf_def db_write_store_handle split: sum.split)

lemma delete_handle: "same_handle s (fst (delete_cf R s c k))"
  by (simp add: delete_cf_def db_write_store_handle split: sum.split)

lemma batch_handle:
  "same_handle s (fst (write_batch_with_intent R s ops i))"
  "same_handle s (fst (write_batch_with_intent_synced R s ops i))"
  "same_handle s (fst (write_batch_no_wal_with_intent R s ops i))"
  "same_handle s (fst (write_batch_no_wal_bulk R s ops))"
  by (simp_all add: write_batch_no_wal_bulk_def write_batch_with_intent_def write_batch_with_intent_synced_def
      write_batch_no_wal_with_intent_def write_batch_unchecked_def write_batch_synced_unchecked_def
      write_batch_no_wal_unchecked_def db_write_store_handle)

lemma commit_handle: "same_handle s (fst (commit_inner R s b no_wal sync))"
  by (simp add: batch_handle commit_inner_def write_batch_def write_batch_synced_def write_batch_no_wal_def
      split: sum.split prod.split)

lemma store_step_handle: "store_step R s s' \<Longrightarrow> same_handle s s'"
  by (induction rule: store_step.induct)
    (simp_all add: put_handle delete_handle batch_handle commit_handle put_stats_key_def write_batch_def
      write_batch_synced_def write_batch_no_wal_def commit_def commit_no_wal_def commit_synced_def
      split: sum.split)

context rocksdb
begin

lemma append_step_keeps:
  assumes "store_step R s s'" and "is_append_only_store s" and "\<not> bulk_sync_mode s"
    and "om_get (rows (db s) c) k = Some v"
  shows "om_get (rows (db s') c) k = Some v"
  using assms
  by (induction rule: store_step.induct)
    (simp_all add: append_put_keeps append_delete_refused append_raw_refused append_commit_keeps
      put_stats_key_def commit_def commit_no_wal_def commit_synced_def split: sum.split)

lemma append_reach_keeps:
  assumes "(store_step R)\<^sup>*\<^sup>* s s'" and "is_append_only_store s" and "\<not> bulk_sync_mode s"
    and "om_get (rows (db s) c) k = Some v"
  shows "om_get (rows (db s') c) k = Some v \<and> same_handle s s'"
  using assms(1)
proof (induction rule: rtranclp_induct)
  case base
  then show ?case using assms by simp
next
  case (step t t')
  then have "is_append_only_store t" "\<not> bulk_sync_mode t"
    using assms by (simp_all add: is_append_only_store_def)
  then show ?case using step append_step_keeps store_step_handle [OF step(2)] by simp
qed

end

section \<open>Properties\<close>

text \<open>
  C2. A row of the append-only store is never lost or changed: after any sequence of
  puts, deletes, raw batches and batch commits outside bulk sync, successful or not,
  every key that had a value still has that value.
\<close>

theorem append_only_rows_immutable:
  assumes "rocksdb R rows" and "(store_step R)\<^sup>*\<^sup>* s s'"
    and "store_class s = AppendOnly" and "\<not> bulk_sync_mode s"
    and "om_get (rows (db s) c) k = Some v"
  shows "om_get (rows (db s') c) k = Some v"
  using rocksdb.append_reach_keeps [OF assms(1,2) _ assms(4,5)] assms(3)
  by (simp add: is_append_only_store_def)

definition example_append_store :: "mem store" where
  "example_append_store = \<lparr>store_class = AppendOnly, bulk_sync_mode = False,
     db = mem_write mem_empty [Put CF_CELLS [1] [2]]\<rparr>"

definition example_append_batch :: store_batch where
  "example_append_batch = \<lparr>batch = [], append_ops = [
     \<lparr>ao_cf_name = CF_CELLS, ao_key = [1], ao_value = Some [2]\<rparr>,
     \<lparr>ao_cf_name = CF_CELLS, ao_key = [3], ao_value = Some [4]\<rparr>]\<rparr>"

lemma example_append_commit:
  "\<exists>s'. commit_inner mem_rocks example_append_store example_append_batch False False = (s', Inr ())"
proof -
  have "store_cf AppendOnly CF_CELLS = Inr CF_CELLS" by code_simp
  then show ?thesis
    by (simp add: commit_inner_def prepare_append_def example_append_store_def example_append_batch_def
        is_append_only_store_def probe_chunks_concat concat_chunks APPEND_PROBE_CHUNK_KEYS_def mem_rocks_def
        write_batch_with_intent_def write_batch_unchecked_def db_write_store_def)
qed

theorem append_only_rows_immutable_witness:
  "om_get (mem_rows (db (fst (commit mem_rocks example_append_store example_append_batch))) CF_CELLS) [1]
     = Some [2]"
proof -
  have "(store_step mem_rocks)\<^sup>*\<^sup>* example_append_store
      (fst (commit mem_rocks example_append_store example_append_batch))"
    by (rule r_into_rtranclp) (rule step_commit)
  moreover have "store_class example_append_store = AppendOnly" "\<not> bulk_sync_mode example_append_store"
    "om_get (mem_rows (db example_append_store) CF_CELLS) [1] = Some [2]"
    by (simp_all add: example_append_store_def)
  ultimately show ?thesis by (rule append_only_rows_immutable [OF mem.rocksdb_axioms])
qed

text \<open>
  C4. An append-only commit is all or nothing: if it reports success, every operation
  of the batch is readable with its value and every other key is as before; if it
  reports an error, nothing changed.
\<close>

theorem append_commit_all_or_nothing:
  assumes "rocksdb R rows" and "store_class s = AppendOnly" and "\<not> bulk_sync_mode s"
    and "commit_inner R s b no_wal sync = (s', r)"
  shows "if is_ok r
    then (\<forall>p \<in> set (append_ops b). om_get (rows (db s') (ao_cf_name p)) (ao_key p) = ao_value p \<and> ao_value p \<noteq> None) \<and>
      (\<forall>c k. (\<forall>p \<in> set (append_ops b). (ao_cf_name p, ao_key p) \<noteq> (c, k)) \<longrightarrow>
        om_get (rows (db s') c) k = om_get (rows (db s) c) k)
    else rows (db s') = rows (db s)"
proof -
  note out = rocksdb.append_commit [OF assms(1) _ assms(3,4), unfolded is_append_only_store_def, OF assms(2)]
  show ?thesis
  proof (cases "is_ok r")
    case False
    then show ?thesis using out by (simp only: if_False simp_thms)
  next
    case True
    then have puts: "\<forall>p \<in> set (append_ops b). ao_value p \<noteq> None"
        and d: "distinct (map (\<lambda>p. (ao_cf_name p, ao_key p)) (append_ops b))"
        and get: "\<And>c k. om_get (rows (db s') c) k =
          (case op_value (append_ops b) c k of None \<Rightarrow> om_get (rows (db s) c) k | v \<Rightarrow> v)"
      using out by blast+
    have "om_get (rows (db s') (ao_cf_name p)) (ao_key p) = ao_value p" if "p \<in> set (append_ops b)" for p
    proof -
      have "op_value (append_ops b) (ao_cf_name p) (ao_key p) = Some (the (ao_value p))"
        using that by (auto simp: op_value_Some [OF d])
      then show ?thesis using puts that by (auto simp: get)
    qed
    moreover have "om_get (rows (db s') c) k = om_get (rows (db s) c) k"
      if "\<forall>p \<in> set (append_ops b). (ao_cf_name p, ao_key p) \<noteq> (c, k)" for c k
    proof -
      have "op_value (append_ops b) c k = None" using that by (auto simp: op_value_None)
      then show ?thesis by (simp add: get)
    qed
    ultimately show ?thesis using True puts by (simp only: if_True) blast
  qed
qed

theorem append_commit_all_or_nothing_witness:
  "\<exists>s'. commit_inner mem_rocks example_append_store example_append_batch False False = (s', Inr ()) \<and>
     om_get (mem_rows (db s') CF_CELLS) [3] = Some [4]"
proof -
  obtain s' where s': "commit_inner mem_rocks example_append_store example_append_batch False False = (s', Inr ())"
    using example_append_commit by blast
  have "store_class example_append_store = AppendOnly" "\<not> bulk_sync_mode example_append_store"
    by (simp_all add: example_append_store_def)
  from append_commit_all_or_nothing [OF mem.rocksdb_axioms this s']
  show ?thesis using s' by (simp add: example_append_batch_def)
qed





end
