(* ===== verification/Undo_Log.thy ===== *)
theory Undo_Log
  imports Store
begin

text \<open>
  The reorg undo log: how entries get their keys
  (\<^verbatim>\<open>crates/indexer/src/sync/undo.rs\<close>, \<^verbatim>\<open>crates/indexer/src/db/writer.rs\<close>), and how
  they are probed, pruned and replayed
  (\<^verbatim>\<open>crates/ckbadger-store/src/undo_log_ops.rs\<close>). bincode is the pair of
  parameters \<open>ser\<close>, \<open>deser\<close> on \<open>UndoLogEntry\<close>.
\<close>

section \<open>Entries\<close>

datatype UndoLogStoreTarget = TargetDomain | TargetAppendOnly

record UndoInputOutPoint =
  in_tx_hash :: bytes
  in_output_index :: i16

record UndoTxContext =
  ctx_tx_hash :: bytes
  ctx_outputs_count :: i16
  ctx_inputs :: "UndoInputOutPoint list"

datatype UndoLogEntry =
    KeyMutation UndoLogStoreTarget cf bytes "bytes option"
  | TxContext UndoTxContext

section \<open>Sequence numbers\<close>

text \<open>\<open>SharedUndoSeq\<close> is the map of next local numbers by block, behind a lock.\<close>

type_synonym undo_seqs = "i64 \<Rightarrow> u64 option"

definition next_undo_seq :: "undo_seqs \<Rightarrow> i64 \<Rightarrow> UndoSeqScope \<Rightarrow> (undo_seqs \<times> u64) res" where
  "next_undo_seq seqs block_num scope =
     (let local_seq = (case seqs block_num of None \<Rightarrow> 0 | Some n \<Rightarrow> n)
      in rbind (ensure (local_seq \<le> UNDO_SEQ_LOCAL_MAX) (Panic ''undo seq local counter overflow'')) (\<lambda>_.
         rbind (ensure (uint local_seq + 1 < 2 ^ 64)
                  (Panic ''undo seq overflow for block-scoped rollback log'')) (\<lambda>_.
         Inr (seqs(block_num \<mapsto> local_seq + 1), seq_base scope OR local_seq))))"

section \<open>Recording\<close>

definition put_reorg_undo_log_by_block ::
    "(UndoLogEntry \<Rightarrow> bytes) \<Rightarrow> 'db store \<Rightarrow> store_batch \<Rightarrow> i64 \<Rightarrow> u64 \<Rightarrow> UndoLogEntry \<Rightarrow> store_batch res" where
  "put_reorg_undo_log_by_block ser s b block_num seq e =
     rbind (store_cf (store_class s) CF_REORG_UNDO_LOG_BY_BLOCK) (\<lambda>c.
     batch_put_cf s b c (encode_reorg_undo_log_key block_num seq) (ser e))"

definition delete_reorg_undo_log_key :: "'db store \<Rightarrow> store_batch \<Rightarrow> bytes \<Rightarrow> store_batch res" where
  "delete_reorg_undo_log_key s b key =
     rbind (store_cf (store_class s) CF_REORG_UNDO_LOG_BY_BLOCK) (\<lambda>c.
     batch_delete_cf s b c key)"

definition record_object_undo ::
    "(UndoLogEntry \<Rightarrow> bytes) \<Rightarrow> 'db store \<Rightarrow> store_batch \<Rightarrow> i64 \<Rightarrow> cf \<Rightarrow> bytes \<Rightarrow> bytes option \<Rightarrow> undo_seqs \<Rightarrow>
     (store_batch \<times> undo_seqs) res" where
  "record_object_undo ser s b block_number cf_name key previous_value seqs =
     (if bulk_sync_mode s then Inr (b, seqs)
      else rbind (next_undo_seq seqs block_number ObjectScope) (\<lambda>(seqs', seq).
           rbind (put_reorg_undo_log_by_block ser s b block_number seq
                    (KeyMutation TargetDomain cf_name key previous_value)) (\<lambda>b'.
           Inr (b', seqs'))))"

section \<open>Probing and pruning\<close>

fun probe_after :: "i64 \<Rightarrow> (bytes \<times> bytes) res list \<Rightarrow> bool res" where
  "probe_after block_num [] = Inr False"
| "probe_after block_num (Inl e # items) = Inl (Bail ''failed to iterate reorg_undo_log_by_block'')"
| "probe_after block_num (Inr (key, value) # items) =
     (if length key \<noteq> REORG_UNDO_LOG_KEY_SIZE
      then Inl (Bail ''invalid reorg_undo_log_by_block key length while probing'')
      else rbind (decode_reorg_undo_log_key key) (\<lambda>(entry_block, _).
           if sint block_num < sint entry_block then Inr True else probe_after block_num items))"

definition has_undo_log_entries_after :: "'db rocks \<Rightarrow> 'db store \<Rightarrow> i64 \<Rightarrow> bool res" where
  "has_undo_log_entries_after R s block_num =
     rbind (ensure (- 1 \<le> sint block_num) (Bail ''invalid undo-log probe target'')) (\<lambda>_.
     rbind (encode_block_num (block_num + 1)) (\<lambda>start_key.
     rbind (store_cf (store_class s) CF_REORG_UNDO_LOG_BY_BLOCK) (\<lambda>c.
     probe_after block_num (iterator_cf_from R s c start_key))))"

text \<open>The batch is mutated in place, so it is returned beside the outcome.\<close>

fun prune_loop ::
    "'db store \<Rightarrow> i64 \<Rightarrow> (bytes \<times> bytes) res list \<Rightarrow> store_batch \<Rightarrow> nat \<Rightarrow> store_batch \<times> nat res" where
  "prune_loop s to_block [] b pruned = (b, Inr pruned)"
| "prune_loop s to_block (Inl e # items) b pruned =
     (b, Inl (Bail ''failed to iterate reorg_undo_log_by_block while pruning''))"
| "prune_loop s to_block (Inr (key, value) # items) b pruned =
     (if length key \<noteq> REORG_UNDO_LOG_KEY_SIZE
      then (b, Inl (Bail ''invalid reorg_undo_log_by_block key length while pruning''))
      else case decode_reorg_undo_log_key key of
          Inl e \<Rightarrow> (b, Inl e)
        | Inr (block_num, seq) \<Rightarrow>
            if sint to_block < sint block_num then (b, Inr pruned)
            else if owns EntityStatsScope seq \<or> owns DerivedScope seq then
              (case delete_reorg_undo_log_key s b key of
                 Inl e \<Rightarrow> (b, Inl e)
               | Inr b' \<Rightarrow> prune_loop s to_block items b' (pruned + 1))
            else prune_loop s to_block items b pruned)"

definition prune_entity_stats_undo_below ::
    "'db rocks \<Rightarrow> 'db store \<Rightarrow> store_batch \<Rightarrow> i64 \<Rightarrow> i64 \<Rightarrow> store_batch \<times> nat res" where
  "prune_entity_stats_undo_below R s b from_block to_block =
     (if sint to_block \<le> sint from_block then (b, Inr 0)
      else case store_cf (store_class s) CF_REORG_UNDO_LOG_BY_BLOCK of
          Inl e \<Rightarrow> (b, Inl e)
        | Inr c \<Rightarrow>
            prune_loop s to_block
              (iterator_cf_from R s c (encode_reorg_undo_log_key (from_block + 1) 0)) b 0)"

fun derived_loop ::
    "(bytes \<Rightarrow> UndoLogEntry option) \<Rightarrow> 'db store \<Rightarrow> cf list \<Rightarrow> i64 \<Rightarrow> (bytes \<times> bytes) res list \<Rightarrow>
     store_batch \<Rightarrow> nat \<Rightarrow> store_batch \<times> nat res" where
  "derived_loop deser s cf_names rollback_to [] b deleted = (b, Inr deleted)"
| "derived_loop deser s cf_names rollback_to (Inl e # items) b deleted =
     (b, Inl (Bail ''failed to iterate reorg_undo_log_by_block while dropping derived entries''))"
| "derived_loop deser s cf_names rollback_to (Inr (key, value) # items) b deleted =
     (if length key \<noteq> REORG_UNDO_LOG_KEY_SIZE
      then (b, Inl (Bail ''invalid reorg_undo_log_by_block key length''))
      else case decode_reorg_undo_log_key key of
          Inl e \<Rightarrow> (b, Inl e)
        | Inr (block_num, seq) \<Rightarrow>
            if sint block_num \<le> sint rollback_to \<or> \<not> owns DerivedScope seq
            then derived_loop deser s cf_names rollback_to items b deleted
            else case deser value of
                None \<Rightarrow> (b, Inl (Bail ''failed to decode derived undo entry''))
              | Some (TxContext ctx) \<Rightarrow> (b, Inl (Bail ''a Derived-scope undo entry is a tx context''))
              | Some (KeyMutation target cf_name k prev) \<Rightarrow>
                  if cf_name \<in> set cf_names then
                    (case delete_reorg_undo_log_key s b key of
                       Inl e \<Rightarrow> (b, Inl e)
                     | Inr b' \<Rightarrow> derived_loop deser s cf_names rollback_to items b' (deleted + 1))
                  else derived_loop deser s cf_names rollback_to items b deleted)"

definition stage_delete_derived_undo_above ::
    "(bytes \<Rightarrow> UndoLogEntry option) \<Rightarrow> 'db rocks \<Rightarrow> 'db store \<Rightarrow> store_batch \<Rightarrow> cf list \<Rightarrow> i64 \<Rightarrow>
     store_batch \<times> nat res" where
  "stage_delete_derived_undo_above deser R s b cf_names rollback_to =
     (if cf_names = [] then (b, Inr 0)
      else case rbind (encode_block_num (rollback_to + 1)) (\<lambda>start_key.
                rbind (store_cf (store_class s) CF_REORG_UNDO_LOG_BY_BLOCK) (\<lambda>c.
                Inr (iterator_cf_from R s c start_key))) of
          Inl e \<Rightarrow> (b, Inl e)
        | Inr items \<Rightarrow> derived_loop deser s cf_names rollback_to items b 0)"

section \<open>Rollback\<close>

record UndoRollbackResult =
  undo_entries_applied :: nat
  domain_ops_applied :: nat
  append_ops_skipped :: nat
  tx_contexts :: "UndoTxContext list"

definition default_result :: UndoRollbackResult where
  "default_result = \<lparr>undo_entries_applied = 0, domain_ops_applied = 0, append_ops_skipped = 0, tx_contexts = []\<rparr>"

definition UNDO_ROLLBACK_FLUSH_EVERY :: nat where "UNDO_ROLLBACK_FLUSH_EVERY = 50000"

fun collect_pending ::
    "(bytes \<Rightarrow> UndoLogEntry option) \<Rightarrow> i64 \<Rightarrow> (bytes \<times> bytes) res list \<Rightarrow> (bytes \<times> UndoLogEntry) list res" where
  "collect_pending deser rollback_to [] = Inr []"
| "collect_pending deser rollback_to (Inl e # items) =
     Inl (Bail ''failed to iterate reorg_undo_log_by_block during rollback'')"
| "collect_pending deser rollback_to (Inr (key, value) # items) =
     (if length key \<noteq> REORG_UNDO_LOG_KEY_SIZE
      then Inl (Bail ''invalid reorg_undo_log_by_block key length during rollback'')
      else rbind (decode_reorg_undo_log_key key) (\<lambda>(block_num, _).
           if sint block_num \<le> sint rollback_to then collect_pending deser rollback_to items
           else rbind (ok_or (deser value) (Bail ''failed to decode undo log entry during rollback'')) (\<lambda>e.
                rbind (collect_pending deser rollback_to items) (\<lambda>rest.
                Inr ((key, e) # rest)))))"

definition flush_undo_batches :: "'db rocks \<Rightarrow> 'db store \<Rightarrow> wop list \<Rightarrow> 'db store \<times> unit res" where
  "flush_undo_batches R s domain_batch =
     (if domain_batch \<noteq> [] then write_batch R s domain_batch else (s, Inr ()))"

text \<open>One entry: its effect on the batch and on the result.\<close>

fun replay_entry ::
    "'db rocks \<Rightarrow> 'db store \<Rightarrow> UndoLogEntry \<Rightarrow> wop list \<Rightarrow> UndoRollbackResult \<Rightarrow> (wop list \<times> UndoRollbackResult) res" where
  "replay_entry R s (KeyMutation TargetDomain cf_name key previous_value) domain_batch result =
     rbind (apply_batch_op_by_cf_name R s domain_batch cf_name key previous_value) (\<lambda>domain_batch'.
     Inr (domain_batch', result\<lparr>domain_ops_applied := domain_ops_applied result + 1\<rparr>))"
| "replay_entry R s (KeyMutation TargetAppendOnly cf_name key previous_value) domain_batch result =
     Inr (domain_batch, result\<lparr>append_ops_skipped := append_ops_skipped result + 1\<rparr>)"
| "replay_entry R s (TxContext ctx) domain_batch result =
     Inr (domain_batch, result\<lparr>tx_contexts := tx_contexts result @ [ctx]\<rparr>)"

fun replay ::
    "'db rocks \<Rightarrow> 'db store \<Rightarrow> (bytes \<times> UndoLogEntry) list \<Rightarrow> wop list \<Rightarrow> UndoRollbackResult \<Rightarrow>
     'db store \<times> UndoRollbackResult res" where
  "replay R s [] domain_batch result =
     (case flush_undo_batches R s domain_batch of
        (s', Inl e) \<Rightarrow> (s', Inl e)
      | (s', Inr _) \<Rightarrow> (s', Inr result))"
| "replay R s ((undo_key, e) # pending) domain_batch result =
     (case rbind (replay_entry R s e domain_batch result) (\<lambda>(db', result').
           rbind (store_cf (store_class s) CF_REORG_UNDO_LOG_BY_BLOCK) (\<lambda>c.
           Inr (db' @ [Delete c undo_key],
                result'\<lparr>undo_entries_applied := undo_entries_applied result' + 1\<rparr>))) of
        Inl err \<Rightarrow> (s, Inl err)
      | Inr (domain_batch', result') \<Rightarrow>
          if undo_entries_applied result' mod UNDO_ROLLBACK_FLUSH_EVERY = 0 then
            (case flush_undo_batches R s domain_batch' of
               (s', Inl err) \<Rightarrow> (s', Inl err)
             | (s', Inr _) \<Rightarrow> replay R s' pending [] result')
          else replay R s pending domain_batch' result')"

definition rollback_via_undo_log ::
    "(bytes \<Rightarrow> UndoLogEntry option) \<Rightarrow> 'db rocks \<Rightarrow> 'db store \<Rightarrow> i64 \<Rightarrow> 'db store \<times> UndoRollbackResult res" where
  "rollback_via_undo_log deser R s rollback_to =
     (case rbind (ensure (- 1 \<le> sint rollback_to) (Bail ''invalid undo rollback target'')) (\<lambda>_.
           rbind (encode_block_num (rollback_to + 1)) (\<lambda>start_key.
           rbind (store_cf (store_class s) CF_REORG_UNDO_LOG_BY_BLOCK) (\<lambda>c.
           collect_pending deser rollback_to (iterator_cf_from R s c start_key)))) of
        Inl err \<Rightarrow> (s, Inl err)
      | Inr pending \<Rightarrow>
          if pending = [] then (s, Inr default_result)
          else replay R s (rev pending) [] default_result)"

section \<open>What one replay does\<close>

text \<open>The operations one entry puts in the batch, and the pre-image a log restores.\<close>

fun entry_ops :: "bytes \<times> UndoLogEntry \<Rightarrow> wop list" where
  "entry_ops (uk, KeyMutation TargetDomain c k (Some v)) = [Put c k v, Delete CF_REORG_UNDO_LOG_BY_BLOCK uk]"
| "entry_ops (uk, KeyMutation TargetDomain c k None) = [Delete c k, Delete CF_REORG_UNDO_LOG_BY_BLOCK uk]"
| "entry_ops (uk, KeyMutation TargetAppendOnly c k p) = [Delete CF_REORG_UNDO_LOG_BY_BLOCK uk]"
| "entry_ops (uk, TxContext ctx) = [Delete CF_REORG_UNDO_LOG_BY_BLOCK uk]"

fun entry_target :: "UndoLogEntry \<Rightarrow> (cf \<times> bytes \<times> bytes option) option" where
  "entry_target (KeyMutation TargetDomain c k p) = Some (c, k, p)"
| "entry_target (KeyMutation TargetAppendOnly c k p) = None"
| "entry_target (TxContext ctx) = None"

text \<open>The pre-image of the oldest entry for a key: what the key held before the log's blocks.\<close>

fun oldest_pre :: "(bytes \<times> UndoLogEntry) list \<Rightarrow> cf \<Rightarrow> bytes \<Rightarrow> bytes option option" where
  "oldest_pre [] c k = None"
| "oldest_pre ((uk, e) # es) c k =
     (case entry_target e of
        Some (c', k', p) \<Rightarrow> if c' = c \<and> k' = k then Some p else oldest_pre es c k
      | None \<Rightarrow> oldest_pre es c k)"

definition restored :: "(bytes \<times> UndoLogEntry) list \<Rightarrow> (cf \<Rightarrow> (bytes, bytes) omap) \<Rightarrow> cf \<Rightarrow> bytes \<Rightarrow> bytes option" where
  "restored es f c k = (case oldest_pre es c k of None \<Rightarrow> om_get (f c) k | Some p \<Rightarrow> p)"

lemma get_entry_ops:
  "c \<noteq> CF_REORG_UNDO_LOG_BY_BLOCK \<Longrightarrow>
   om_get (apply_batch (entry_ops (uk, e)) f c) k =
     (case entry_target e of
        Some (c', k', p) \<Rightarrow> if c' = c \<and> k' = k then p else om_get (f c) k
      | None \<Rightarrow> om_get (f c) k)"
  by (cases "(uk, e)" rule: entry_ops.cases) auto

lemma get_replayed:
  assumes "c \<noteq> CF_REORG_UNDO_LOG_BY_BLOCK"
  shows "om_get (apply_batch (concat (map entry_ops (rev es))) f c) k = restored es f c k"
proof (induction es)
  case Nil
  then show ?case by (simp add: restored_def)
next
  case (Cons x es)
  obtain uk e where x: "x = (uk, e)" by force
  show ?case
    using Cons get_entry_ops [OF assms, of uk e "apply_batch (concat (map entry_ops (rev es))) f" k]
    by (simp add: x restored_def split: option.splits)
qed

text \<open>No entry records a change of the log itself.\<close>

definition log_external :: "(bytes \<times> UndoLogEntry) list \<Rightarrow> bool" where
  "log_external es \<longleftrightarrow> (\<forall>(uk, e) \<in> set es. \<forall>c k p. entry_target e = Some (c, k, p) \<longrightarrow> c \<noteq> CF_REORG_UNDO_LOG_BY_BLOCK)"

lemma undo_rows_entry:
  assumes "\<forall>c k p. entry_target e = Some (c, k, p) \<longrightarrow> c \<noteq> CF_REORG_UNDO_LOG_BY_BLOCK"
  shows "apply_batch (entry_ops (uk, e)) f CF_REORG_UNDO_LOG_BY_BLOCK = om_del uk (f CF_REORG_UNDO_LOG_BY_BLOCK)"
  using assms by (cases "(uk, e)" rule: entry_ops.cases) auto

lemma undo_rows_replayed:
  "log_external es \<Longrightarrow>
   apply_batch (concat (map entry_ops es)) f CF_REORG_UNDO_LOG_BY_BLOCK =
     filter (\<lambda>(k, v). k \<notin> fst ` set es) (f CF_REORG_UNDO_LOG_BY_BLOCK)"
proof (induction es arbitrary: f)
  case (Cons x es)
  obtain uk e where x: "x = (uk, e)" by force
  have "apply_batch (entry_ops (uk, e)) f CF_REORG_UNDO_LOG_BY_BLOCK = om_del uk (f CF_REORG_UNDO_LOG_BY_BLOCK)"
    using Cons.prems by (intro undo_rows_entry) (auto simp: log_external_def x)
  then show ?case
    using Cons by (auto simp: x log_external_def om_del_def intro!: filter_cong)
qed simp

section \<open>The pending entries\<close>

definition above :: "i64 \<Rightarrow> bytes \<Rightarrow> bool" where
  "above t k \<longleftrightarrow> sint t < sint (from_be_bytes (take 8 k) :: i64)"

definition log_rows :: "i64 \<Rightarrow> (bytes, bytes) omap \<Rightarrow> (bytes, bytes) omap" where
  "log_rows t m = om_from (to_be_bytes (t + 1)) m"

definition log_ok :: "(bytes \<Rightarrow> UndoLogEntry option) \<Rightarrow> i64 \<Rightarrow> (bytes, bytes) omap \<Rightarrow> bool" where
  "log_ok deser t m \<longleftrightarrow>
     (\<forall>(k, v) \<in> set (log_rows t m). length k = REORG_UNDO_LOG_KEY_SIZE \<and> (above t k \<longrightarrow> deser v \<noteq> None))"

definition log_entries ::
    "(bytes \<Rightarrow> UndoLogEntry option) \<Rightarrow> i64 \<Rightarrow> (bytes, bytes) omap \<Rightarrow> (bytes \<times> UndoLogEntry) list" where
  "log_entries deser t m = map (\<lambda>(k, v). (k, the (deser v))) (filter (\<lambda>(k, v). above t k) (log_rows t m))"

lemma collect_pending_rows:
  "collect_pending deser t (map Inr m) = Inr es \<longleftrightarrow>
     (\<forall>(k, v) \<in> set m. length k = REORG_UNDO_LOG_KEY_SIZE \<and> (above t k \<longrightarrow> deser v \<noteq> None)) \<and>
     es = map (\<lambda>(k, v). (k, the (deser v))) (filter (\<lambda>(k, v). above t k) m)"
proof (induction m arbitrary: es)
  case (Cons r m)
  obtain k v where r: "r = (k, v)" by force
  show ?case
    using Cons by (auto simp: r above_def res_simps decode_reorg_undo_log_key_def not_le)
qed auto

lemma collect_pending_error: "\<not> is_ok (collect_pending deser t (map Inr m @ Inl e # items))"
  by (induction m) (auto simp: is_ok_rbind split: if_splits)

lemma log_entries_keys: "fst ` set (log_entries deser t m) = {k \<in> fst ` set m. above t k \<and> to_be_bytes (t + 1) \<le> k}"
  by (force simp: log_entries_def log_rows_def om_from_def)

lemma distinct_log_entries: "om_sorted m \<Longrightarrow> distinct (map fst (log_entries deser t m))"
  using om_distinct [of m]
  by (simp add: log_entries_def log_rows_def om_from_def comp_def case_prod_unfold distinct_map_filter)

text \<open>Removing keys from the log removes their entries, and no others.\<close>

lemma log_entries_filter:
  "log_entries deser t (filter (\<lambda>(k, v). k \<notin> K) m) = filter (\<lambda>(k, e). k \<notin> K) (log_entries deser t m)"
  by (induction m) (auto simp: log_entries_def log_rows_def om_from_def)

lemma log_ok_filter: "log_ok deser t m \<Longrightarrow> log_ok deser t (filter P m)"
  by (auto simp: log_ok_def log_rows_def om_from_def)

context rocksdb
begin

lemma domain_write: "store_class s = Domain \<Longrightarrow> write_batch R s ops = db_write_store R Wal s ops"
  by (simp add: write_batch_def write_batch_with_intent_def write_batch_unchecked_def is_append_only_store_def)

lemma flush_rows:
  assumes "store_class s = Domain" and "flush_undo_batches R s ops = (s', r)"
  shows "store_class s' = Domain"
    and "rows (db s') = (if is_ok r then apply_batch ops (rows (db s)) else rows (db s))"
  using assms db_write_store_cases [of Wal s ops s' r] db_write_store_handle [of R Wal s ops]
  by (auto simp: flush_undo_batches_def domain_write split: if_splits)

lemma replay_entry_ops:
  assumes "store_class s = Domain" and "replay_entry R s e ops res = Inr (ops', res')"
  shows "ops' @ [Delete CF_REORG_UNDO_LOG_BY_BLOCK uk] = ops @ entry_ops (uk, e)"
  using assms
  by (cases "(uk, e)" rule: entry_ops.cases)
    (auto simp: res_simps apply_batch_op_by_cf_name_def apply_batch_op_by_cf_name_with_intent_def
      cf_handle_def split: if_splits)

lemma replay_rows:
  assumes "store_class s = Domain" and "replay R s es ops res = (s', r)"
  shows "store_class s' = Domain \<and>
    (if is_ok r then rows (db s') = apply_batch (ops @ concat (map entry_ops es)) (rows (db s))
     else rows (db s') = rows (db s) \<or>
       (\<exists>fin rest. es = fin @ rest \<and>
          rows (db s') = apply_batch (ops @ concat (map entry_ops fin)) (rows (db s))))"
  using assms
proof (induction es arbitrary: s ops res)
  case Nil
  obtain s1 r1 where fl: "flush_undo_batches R s ops = (s1, r1)" by force
  show ?case using Nil flush_rows [OF Nil(1) fl] fl by (cases r1) auto
next
  case (Cons x es)
  obtain uk e where x: "x = (uk, e)" by force
  define step where "step = rbind (replay_entry R s e ops res) (\<lambda>(ops', res').
      rbind (store_cf (store_class s) CF_REORG_UNDO_LOG_BY_BLOCK) (\<lambda>c.
      Inr (ops' @ [Delete c uk], res'\<lparr>undo_entries_applied := undo_entries_applied res' + 1\<rparr>)))"
  show ?case
  proof (cases step)
    case (Inl err)
    then show ?thesis using Cons.prems by (auto simp: x step_def)
  next
    case (Inr y)
    obtain ops' res' where y: "y = (ops', res')" by force
    have ops': "ops' = ops @ entry_ops x"
      using Inr Cons.prems(1) replay_entry_ops [OF Cons.prems(1), where uk = uk]
      by (auto simp: step_def y x res_simps)
    show ?thesis
    proof (cases "undo_entries_applied res' mod UNDO_ROLLBACK_FLUSH_EVERY = 0")
      case False
      then have "replay R s es ops' res' = (s', r)" using Cons.prems(2) Inr by (simp add: x y step_def)
      from Cons.IH [OF Cons.prems(1) this] show ?thesis
        unfolding ops' by (metis (no_types) append.assoc append_Cons concat.simps(2) list.simps(9))
    next
      case True
      obtain s1 r1 where fl: "flush_undo_batches R s ops' = (s1, r1)" by force
      note f = flush_rows [OF Cons.prems(1) fl]
      show ?thesis
      proof (cases r1)
        case (Inl err)
        then show ?thesis using f Cons.prems(2) Inr True fl by (auto simp: x y step_def)
      next
        case (Inr u)
        then have "replay R s1 es [] res' = (s', r)"
          using Cons.prems(2) \<open>step = Inr y\<close> True fl by (simp add: x y step_def)
        note ih = Cons.IH [OF f(1) this]
        have s1: "rows (db s1) = apply_batch (ops @ entry_ops x) (rows (db s))" using f(2) Inr ops' by simp
        show ?thesis
        proof (cases "is_ok r")
          case True
          then show ?thesis using ih s1 by simp
        next
          case False
          then obtain fin rest where "es = fin @ rest"
              "rows (db s') = apply_batch (concat (map entry_ops fin)) (rows (db s1))"
            using ih by (metis append_Nil concat.simps(1) fold_simps(1) list.simps(8))
          then have "x # es = (x # fin) @ rest"
            "rows (db s') = apply_batch (ops @ concat (map entry_ops (x # fin))) (rows (db s))"
            using s1 by simp_all
          then show ?thesis using ih False by metis
        qed
      qed
    qed
  qed
qed

lemma rollback_cases:
  assumes "store_class s = Domain" and "rollback_via_undo_log deser R s t = (s', r)"
  obtains (refused) e where "s' = s" "r = Inl e"
    | (replayed) "log_ok deser t (rows (db s) CF_REORG_UNDO_LOG_BY_BLOCK)"
        "replay R s (rev (log_entries deser t (rows (db s) CF_REORG_UNDO_LOG_BY_BLOCK))) [] default_result = (s', r)"
proof -
  let ?u = CF_REORG_UNDO_LOG_BY_BLOCK
  let ?pending = "rbind (ensure (- 1 \<le> sint t) (Bail ''invalid undo rollback target'')) (\<lambda>_.
      rbind (encode_block_num (t + 1)) (\<lambda>start_key.
      rbind (store_cf (store_class s) ?u) (\<lambda>c.
      collect_pending deser t (iterator_cf_from R s c start_key))))"
  show ?thesis
  proof (cases ?pending)
    case (Inl e)
    then show ?thesis using assms(2) refused by (auto simp: rollback_via_undo_log_def)
  next
    case (Inr es)
    then have col: "collect_pending deser t (db_from R (db s) ?u (to_be_bytes (t + 1))) = Inr es"
      by (auto simp: res_simps encode_block_num_def iterator_cf_from_def)
    then have "db_from R (db s) ?u (to_be_bytes (t + 1)) = map Inr (log_rows t (rows (db s) ?u))"
      using iterate [of "db s" ?u "to_be_bytes (t + 1)"] collect_pending_error [of deser t] is_ok_simps
      unfolding log_rows_def by metis
    then have es: "log_ok deser t (rows (db s) ?u)" "es = log_entries deser t (rows (db s) ?u)"
      using col by (auto simp: collect_pending_rows log_ok_def log_entries_def)
    have "replay R s (rev es) [] default_result = (s', r)"
      using assms(2) Inr by (cases "es = []") (auto simp: rollback_via_undo_log_def flush_undo_batches_def)
    then show ?thesis using es replayed by simp
  qed
qed

text \<open>The log splits into what is left and what was replayed; on success nothing is left.\<close>

lemma rollback_rows:
  assumes "store_class s = Domain" and "rollback_via_undo_log deser R s t = (s', r)"
  obtains left replayed where "store_class s' = Domain"
    "log_entries deser t (rows (db s) CF_REORG_UNDO_LOG_BY_BLOCK) = left @ replayed"
    "rows (db s') = apply_batch (concat (map entry_ops (rev replayed))) (rows (db s))"
    "is_ok r \<Longrightarrow> left = []"
  using assms
proof (cases rule: rollback_cases)
  case (refused e)
  then show ?thesis using assms(1) that [of "log_entries deser t (rows (db s) CF_REORG_UNDO_LOG_BY_BLOCK)" "[]"] by simp
next
  case replayed
  let ?es = "log_entries deser t (rows (db s) CF_REORG_UNDO_LOG_BY_BLOCK)"
  note out = replay_rows [OF assms(1) replayed(2)]
  show ?thesis
  proof (cases "is_ok r")
    case True
    then show ?thesis using out that [of "[]" ?es] by simp
  next
    case False
    then obtain fin rest where split: "rev ?es = fin @ rest"
        "rows (db s') = apply_batch (concat (map entry_ops fin)) (rows (db s))"
      using out by (metis append_Nil concat.simps(1) fold_simps(1) list.simps(8))
    then have "?es = rev rest @ rev fin" by (metis rev_append rev_rev_ident)
    then show ?thesis using out split False that [of "rev rest" "rev fin"] by simp
  qed
qed

end

lemma oldest_pre_append:
  "oldest_pre (xs @ ys) c k = (case oldest_pre xs c k of None \<Rightarrow> oldest_pre ys c k | Some p \<Rightarrow> Some p)"
  by (induction xs c k rule: oldest_pre.induct) (auto split: option.splits)

section \<open>Success\<close>

text \<open>No operation of the database fails.\<close>

definition reliable :: "'db rocks \<Rightarrow> bool" where
  "reliable R \<longleftrightarrow> (\<forall>d c k. is_ok (db_get R d c k)) \<and> (\<forall>d c k. list_all is_ok (db_from R d c k)) \<and>
     (\<forall>w d ops. is_ok (snd (db_write R w d ops)))"

definition entry_known :: "UndoLogEntry \<Rightarrow> bool" where
  "entry_known e \<longleftrightarrow> (\<forall>c k p. entry_target e = Some (c, k, p) \<longrightarrow> c \<in> set DOMAIN_CFS)"

fun ctx_of :: "bytes \<times> UndoLogEntry \<Rightarrow> UndoTxContext option" where
  "ctx_of (uk, TxContext ctx) = Some ctx"
| "ctx_of (uk, KeyMutation t c k p) = None"

lemma undo_cf_open: "store_cf Domain CF_REORG_UNDO_LOG_BY_BLOCK = Inr CF_REORG_UNDO_LOG_BY_BLOCK"
  by code_simp

lemma replay_entry_ok:
  assumes "store_class s = Domain" and "entry_known e"
  shows "\<exists>ops'. replay_entry R s e ops res =
    Inr (ops', res\<lparr>
      domain_ops_applied := domain_ops_applied res + (if entry_target e = None then 0 else 1),
      append_ops_skipped := append_ops_skipped res + (if entry_target e = None \<and> ctx_of (uk, e) = None then 1 else 0),
      tx_contexts := tx_contexts res @ (case ctx_of (uk, e) of None \<Rightarrow> [] | Some c \<Rightarrow> [c])\<rparr>)"
proof (cases e)
  case (KeyMutation t c k p)
  then show ?thesis
    using assms by (cases t; cases p)
      (auto simp: entry_known_def apply_batch_op_by_cf_name_def apply_batch_op_by_cf_name_with_intent_def
        cf_handle_def validate_append_put_by_cf_name_def validate_append_delete_by_cf_name_def
        is_append_only_store_def)
qed simp

lemma flush_ok:
  assumes "reliable R" and "store_class s = Domain"
  shows "\<exists>s'. flush_undo_batches R s ops = (s', Inr ()) \<and> store_class s' = Domain"
proof -
  obtain d' r where w: "db_write R Wal (db s) ops = (d', r)" by force
  then have "is_ok r" using assms(1) unfolding reliable_def by (metis snd_conv)
  then have "r = Inr ()" by (cases r) simp_all
  then show ?thesis
    using w assms(2)
    by (auto simp: flush_undo_batches_def write_batch_def write_batch_with_intent_def write_batch_unchecked_def
        is_append_only_store_def db_write_store_def)
qed

lemma replay_ok:
  assumes "reliable R" and "store_class s = Domain" and "\<forall>(uk, e) \<in> set es. entry_known e"
  shows "\<exists>s' res'. replay R s es ops res = (s', Inr res') \<and>
    undo_entries_applied res' = undo_entries_applied res + length es \<and>
    tx_contexts res' = tx_contexts res @ List.map_filter ctx_of es"
  using assms(2,3)
proof (induction es arbitrary: s ops res)
  case Nil
  then show ?case using flush_ok [OF assms(1) Nil(1), of ops] by (auto simp: List.map_filter_simps)
next
  case (Cons x es)
  obtain uk e where x: "x = (uk, e)" by force
  have known: "entry_known e" and rest: "\<forall>(uk, e) \<in> set es. entry_known e"
    using Cons.prems(2) by (auto simp: x)
  obtain ops' res' where step: "replay_entry R s e ops res = Inr (ops', res')"
      and res': "undo_entries_applied res' = undo_entries_applied res"
        "tx_contexts res' = tx_contexts res @ (case ctx_of x of None \<Rightarrow> [] | Some c \<Rightarrow> [c])"
    using replay_entry_ok [OF Cons.prems(1) known, of R ops res uk] by (auto simp: x)
  define res1 where "res1 = res'\<lparr>undo_entries_applied := undo_entries_applied res' + 1\<rparr>"
  define ops1 where "ops1 = ops' @ [Delete CF_REORG_UNDO_LOG_BY_BLOCK uk]"
  obtain s1 where fl: "flush_undo_batches R s ops1 = (s1, Inr ())" and s1: "store_class s1 = Domain"
    using flush_ok [OF assms(1) Cons.prems(1)] by blast
  have "replay R s (x # es) ops res = replay R s1 es [] res1 \<or> replay R s (x # es) ops res = replay R s es ops1 res1"
    using step fl Cons.prems(1) by (simp add: x undo_cf_open res1_def ops1_def)
  moreover have "tx_contexts res1 @ List.map_filter ctx_of es = tx_contexts res @ List.map_filter ctx_of (x # es)"
    by (cases "ctx_of x") (simp_all add: res1_def res' List.map_filter_simps)
  moreover have "undo_entries_applied res1 = undo_entries_applied res + 1" by (simp add: res1_def res')
  ultimately show ?case
    using Cons.IH [OF s1 rest, of "[]" res1] Cons.IH [OF Cons.prems(1) rest, of ops1 res1] by auto
qed

context rocksdb
begin

lemma reliable_iterate:
  assumes "reliable R"
  shows "db_from R d c k = map Inr (om_from k (rows d c))"
proof -
  have "list_all is_ok (db_from R d c k)" using assms by (simp add: reliable_def)
  then show ?thesis using iterate [of d c k] by auto
qed

lemma rollback_ok:
  assumes "reliable R" and "store_class s = Domain" and "- 1 \<le> sint t" and "sint t < 2 ^ 63 - 1"
    and "log_ok deser t (rows (db s) CF_REORG_UNDO_LOG_BY_BLOCK)"
    and "es = log_entries deser t (rows (db s) CF_REORG_UNDO_LOG_BY_BLOCK)"
    and "\<forall>(uk, e) \<in> set es. entry_known e"
  shows "\<exists>s' result. rollback_via_undo_log deser R s t = (s', Inr result) \<and>
    undo_entries_applied result = length es \<and> tx_contexts result = List.map_filter ctx_of (rev es)"
proof -
  have "sint (t + 1) = sint t + 1"
    using assms(4) by (rule sint_plus_one_i64)
  then have start: "encode_block_num (t + 1) = Inr (to_be_bytes (t + 1))"
    using assms(3) by (simp add: encode_block_num_def)
  have "collect_pending deser t (iterator_cf_from R s CF_REORG_UNDO_LOG_BY_BLOCK (to_be_bytes (t + 1))) = Inr es"
    using assms(5,6) reliable_iterate [OF assms(1)]
    by (simp add: iterator_cf_from_def collect_pending_rows log_ok_def log_entries_def log_rows_def)
  then have "rollback_via_undo_log deser R s t =
      (if es = [] then (s, Inr default_result) else replay R s (rev es) [] default_result)"
    using assms(2,3) start by (simp add: rollback_via_undo_log_def undo_cf_open)
  then show ?thesis
    using replay_ok [OF assms(1,2), of "rev es" "[]" default_result] assms(7)
    by (auto simp: default_result_def List.map_filter_simps)
qed

end

end
