(* ===== verification/Undo_Seq.thy ===== *)
theory Undo_Seq
  imports Undo_Log
begin

text \<open>
  The sequence numbers of undo entries: the scope is in the top bits, a counter
  shared by every writer of a block below it. Numbers of one block are never
  reused, so no pre-image overwrites another, and within one scope they grow in
  the order they are drawn.
\<close>

section \<open>Scope and counter\<close>

lemma local_less: "n \<le> UNDO_SEQ_LOCAL_MAX \<longleftrightarrow> unat n < 2 ^ 48"
proof -
  have "unat UNDO_SEQ_LOCAL_MAX = 281474976710655" by (simp add: UNDO_SEQ_LOCAL_MAX_def push_bit_eq_mult)
  then show ?thesis unfolding word_le_nat_alt by auto
qed

lemma unat_take48: "unat (take_bit 48 (w :: u64)) = unat w mod 2 ^ 48"
  by (simp add: take_bit_eq_mod unat_mod)

lemma unat_drop48: "unat (drop_bit 48 (w :: u64)) = unat w div 2 ^ 48"
  by (simp add: drop_bit_eq_div unat_div)

lemma scope_base: "drop_bit 48 (seq_base scope) = scope_code scope" "take_bit 48 (seq_base scope) = 0"
  by (cases scope; simp add: seq_base_def push_bit_eq_mult drop_bit_eq_div take_bit_eq_mod)+

lemma local_parts:
  assumes "n \<le> UNDO_SEQ_LOCAL_MAX"
  shows "take_bit 48 n = n" "drop_bit 48 n = 0"
  using assms by (simp_all add: local_less word_unat_eq_iff unat_take48 unat_drop48)

lemma seq_parts:
  assumes "n \<le> UNDO_SEQ_LOCAL_MAX"
  shows "drop_bit 48 (seq_base scope OR n) = scope_code scope" "take_bit 48 (seq_base scope OR n) = n"
  by (simp_all add: scope_base local_parts [OF assms])

lemma scope_code_inj: "scope_code a = scope_code b \<longleftrightarrow> a = b"
  by (cases a; cases b) simp_all

lemma scope_of_seq:
  "n \<le> UNDO_SEQ_LOCAL_MAX \<Longrightarrow> owns scope (seq_base scope' OR n) \<longleftrightarrow> scope = scope'"
  by (auto simp: owns_def seq_parts scope_code_inj simp del: drop_bit_or)

lemma seq_less:
  assumes "n \<le> UNDO_SEQ_LOCAL_MAX" and "m \<le> UNDO_SEQ_LOCAL_MAX"
  shows "seq_base scope OR n < seq_base scope OR m \<longleftrightarrow> n < m"
proof -
  have "unat (seq_base scope OR x) = unat (scope_code scope) * 2 ^ 48 + unat x"
    if "x \<le> UNDO_SEQ_LOCAL_MAX" for x
    using seq_parts [OF that, of scope] unat_take48 [of "seq_base scope OR x"]
      unat_drop48 [of "seq_base scope OR x"] div_mult_mod_eq [of "unat (seq_base scope OR x)" "2 ^ 48"]
    by simp
  then show ?thesis using assms by (simp add: word_less_nat_alt)
qed

section \<open>Drawing\<close>

fun draw_seqs :: "undo_seqs \<Rightarrow> (i64 \<times> UndoSeqScope) list \<Rightarrow> (i64 \<times> u64) list res" where
  "draw_seqs seqs [] = Inr []"
| "draw_seqs seqs ((b, scope) # ds) =
     rbind (next_undo_seq seqs b scope) (\<lambda>(seqs', q).
     rbind (draw_seqs seqs' ds) (\<lambda>ks. Inr ((b, q) # ks)))"

definition counter :: "undo_seqs \<Rightarrow> i64 \<Rightarrow> u64" where
  "counter seqs b = (case seqs b of None \<Rightarrow> 0 | Some n \<Rightarrow> n)"

lemma next_undo_seq_Inr:
  "next_undo_seq seqs b scope = Inr (seqs', q) \<longleftrightarrow>
     counter seqs b \<le> UNDO_SEQ_LOCAL_MAX \<and> seqs' = seqs(b \<mapsto> counter seqs b + 1) \<and>
     q = seq_base scope OR counter seqs b"
proof -
  have "uint n + 1 < 2 ^ 64" if "n \<le> UNDO_SEQ_LOCAL_MAX" for n :: u64
  proof -
    have "unat n < 2 ^ 48" using that unfolding local_less .
    then have "int (unat n) < int (2 ^ 48)" by (simp only: of_nat_less_iff)
    moreover have "int (unat n) = uint n" by simp
    ultimately show ?thesis by simp
  qed
  then have "ensure (uint (counter seqs b) + 1 < 2 ^ 64) e = Inr ()"
    if "counter seqs b \<le> UNDO_SEQ_LOCAL_MAX" for e using that by simp
  then show ?thesis unfolding next_undo_seq_def counter_def Let_def
    by (cases "counter seqs b \<le> UNDO_SEQ_LOCAL_MAX") (auto simp: counter_def)
qed

lemma counter_step:
  "n \<le> UNDO_SEQ_LOCAL_MAX \<Longrightarrow> n < n + 1"
  "n \<le> UNDO_SEQ_LOCAL_MAX \<Longrightarrow> n + 1 \<le> m \<Longrightarrow> n < m"
proof -
  show "n < n + 1" if "n \<le> UNDO_SEQ_LOCAL_MAX"
    using that unfolding local_less word_less_nat_alt by (simp add: unat_word_ariths)
  then show "n \<le> UNDO_SEQ_LOCAL_MAX \<Longrightarrow> n + 1 \<le> m \<Longrightarrow> n < m" by (meson order_less_le_trans)
qed

text \<open>Every number drawn later for a block is at least the block's counter.\<close>

lemma draw_seqs_drawn:
  assumes "draw_seqs seqs ds = Inr ks" and "(b, q) \<in> set ks"
  shows "\<exists>scope n. (b, scope) \<in> set ds \<and> n \<le> UNDO_SEQ_LOCAL_MAX \<and> counter seqs b \<le> n \<and> q = seq_base scope OR n"
  using assms
proof (induction ds arbitrary: seqs ks)
  case (Cons d ds)
  obtain b0 sc where d: "d = (b0, sc)" by force
  obtain q0 ks' where n: "counter seqs b0 \<le> UNDO_SEQ_LOCAL_MAX" "q0 = seq_base sc OR counter seqs b0"
      and ks: "draw_seqs (seqs(b0 \<mapsto> counter seqs b0 + 1)) ds = Inr ks'" "ks = (b0, q0) # ks'"
    using Cons.prems(1) by (auto simp: d res_simps next_undo_seq_Inr)
  show ?case
  proof (cases "(b, q) \<in> set ks'")
    case True
    from Cons.IH [OF ks(1) True] show ?thesis
      using counter_step [OF n(1)] by (fastforce simp: d counter_def split: if_splits)
  next
    case False
    then show ?thesis using Cons.prems(2) n ks by (auto simp: d)
  qed
qed simp

lemma draw_seqs_later:
  assumes "draw_seqs (seqs(b \<mapsto> counter seqs b + 1)) ds = Inr ks" and "(b, q) \<in> set ks"
    and "counter seqs b \<le> UNDO_SEQ_LOCAL_MAX"
  shows "q \<noteq> seq_base scope OR counter seqs b"
    and "owns scope q \<Longrightarrow> seq_base scope OR counter seqs b < q"
proof -
  obtain sc n where n: "n \<le> UNDO_SEQ_LOCAL_MAX" "counter seqs b + 1 \<le> n" "q = seq_base sc OR n"
    using draw_seqs_drawn [OF assms(1,2)] by (auto simp: counter_def)
  have less: "counter seqs b < n" using counter_step(2) [OF assms(3) n(2)] .
  show "q \<noteq> seq_base scope OR counter seqs b"
    using less n seq_parts(2) [OF n(1), of sc] seq_parts(2) [OF assms(3), of scope] by (metis less_irrefl)
  assume "owns scope q"
  then have "sc = scope" using scope_of_seq [OF n(1)] n(3) by simp
  then show "seq_base scope OR counter seqs b < q" using less n seq_less [OF assms(3) n(1)] by simp
qed

lemma draw_seqs_facts:
  "draw_seqs seqs ds = Inr ks \<Longrightarrow>
    distinct ks \<and> list_all2 (\<lambda>(b, scope) (b', q). b' = b \<and> owns scope q) ds ks \<and>
    sorted_wrt (\<lambda>((b, scope), (_, q)) ((b', scope'), (_, q')). b = b' \<and> scope = scope' \<longrightarrow> q < q') (zip ds ks)"
proof (induction ds arbitrary: seqs ks)
  case (Cons d ds)
  obtain b sc where d: "d = (b, sc)" by force
  obtain ks' where n: "counter seqs b \<le> UNDO_SEQ_LOCAL_MAX"
      and ks: "draw_seqs (seqs(b \<mapsto> counter seqs b + 1)) ds = Inr ks'" "ks = (b, seq_base sc OR counter seqs b) # ks'"
    using Cons.prems by (auto simp: d res_simps next_undo_seq_Inr)
  note ih = Cons.IH [OF ks(1)] and later = draw_seqs_later [OF ks(1) _ n]
  have "seq_base sc OR counter seqs b < q" if "((b, sc), (b', q)) \<in> set (zip ds ks')" for b' q
  proof -
    have "b' = b" "owns sc q" using ih that by (auto simp: list_all2_iff)
    then show ?thesis using later(2) set_zip_rightD [OF that] by blast
  qed
  then have "\<forall>y \<in> set (zip ds ks'). (\<lambda>((b, scope), (_, q)) ((b', scope'), (_, q')). b = b' \<and> scope = scope' \<longrightarrow> q < q')
      (d, (b, seq_base sc OR counter seqs b)) y"
    by (auto simp: d)
  moreover have "(b, seq_base sc OR counter seqs b) \<notin> set ks'" using later(1) by blast
  ultimately show ?case
    using ih scope_of_seq [OF n, of sc sc] unfolding ks(2) zip_Cons_Cons sorted_wrt.simps(2) by (simp add: d)
qed simp

text \<open>
  C7. Undo keys drawn for a batch never repeat, whichever scopes the draws interleave,
  each is owned by the scope it was drawn for, and within one block and scope they grow
  in the order of the draws.
\<close>

theorem undo_seqs_fresh:
  assumes "draw_seqs (\<lambda>_. None) ds = Inr ks"
  shows "distinct ks \<and> list_all2 (\<lambda>(b, scope) (b', q). b' = b \<and> owns scope q) ds ks \<and>
    sorted_wrt (\<lambda>((b, scope), (_, q)) ((b', scope'), (_, q')). b = b' \<and> scope = scope' \<longrightarrow> q < q') (zip ds ks)"
  using assms by (rule draw_seqs_facts)

theorem undo_seqs_fresh_witness:
  "\<exists>ks. draw_seqs (\<lambda>_. None) [(7, ObjectScope), (7, EntityStatsScope), (7, ObjectScope)] = Inr ks \<and> distinct ks"
proof -
  obtain ks where ks: "draw_seqs (\<lambda>_. None) [(7, ObjectScope), (7, EntityStatsScope), (7, ObjectScope)] = Inr ks"
    by (simp add: next_undo_seq_def UNDO_SEQ_LOCAL_MAX_def push_bit_eq_mult)
  then show ?thesis using undo_seqs_fresh [OF ks] by simp
qed

end
