(* ===== verification/Undo_Rollback.thy ===== *)
theory Undo_Rollback
  imports Undo_Seq
begin

text \<open>
  What the undo log guarantees: a rollback restores the state before the blocks
  it undoes, can be interrupted and resumed, and succeeds when the database does.
\<close>

section \<open>The journal\<close>

text \<open>
  A journaled write records the value a key holds and then changes it. \<open>journal\<close>
  runs a sequence of writes on the contents of the store and gives the entries
  in the order they were recorded; the log keeps them in the order of their keys.
\<close>

definition set_key ::
    "(cf \<Rightarrow> bytes \<Rightarrow> bytes option) \<Rightarrow> cf \<Rightarrow> bytes \<Rightarrow> bytes option \<Rightarrow> cf \<Rightarrow> bytes \<Rightarrow> bytes option" where
  "set_key f c k v = (\<lambda>c' k'. if c' = c \<and> k' = k then v else f c' k')"

fun journal ::
    "(cf \<Rightarrow> bytes \<Rightarrow> bytes option) \<Rightarrow> (bytes \<times> cf \<times> bytes \<times> bytes option) list \<Rightarrow>
     (cf \<Rightarrow> bytes \<Rightarrow> bytes option) \<times> (bytes \<times> UndoLogEntry) list" where
  "journal f [] = (f, [])"
| "journal f ((uk, c, k, v) # ws) =
     (fst (journal (set_key f c k v) ws),
      (uk, KeyMutation TargetDomain c k (f c k)) # snd (journal (set_key f c k v) ws))"

text \<open>Two entries for one key are in the log in the order they were recorded.\<close>

definition key_order :: "(bytes \<times> cf \<times> bytes \<times> bytes option) list \<Rightarrow> bool" where
  "key_order ws \<longleftrightarrow> sorted_wrt (\<lambda>(uk, c, k, v) (uk', c', k', v'). (c, k) = (c', k') \<longrightarrow> uk < uk') ws"

definition hits :: "cf \<Rightarrow> bytes \<Rightarrow> bytes \<times> UndoLogEntry \<Rightarrow> bool" where
  "hits c k x \<longleftrightarrow> (\<exists>p. entry_target (snd x) = Some (c, k, p))"

lemma journal_restored:
  "(case oldest_pre (snd (journal f ws)) c k of None \<Rightarrow> fst (journal f ws) c k | Some p \<Rightarrow> p) = f c k"
proof (induction ws arbitrary: f)
  case (Cons w ws)
  obtain uk c' k' v where w: "w = (uk, c', k', v)" by (cases w)
  have "set_key f c' k' v c k = (if c' = c \<and> k' = k then v else f c k)" by (simp add: set_key_def)
  then show ?case using Cons [of "set_key f c' k' v"] by (auto simp: w split: option.splits)
qed simp

lemma oldest_pre_hits: "oldest_pre es c k = oldest_pre (filter (hits c k) es) c k"
  by (induction es c k rule: oldest_pre.induct) (auto simp: hits_def split: option.splits)

lemma journal_hits:
  "map fst (filter (hits c k) (snd (journal f ws))) =
    map fst (filter (\<lambda>(uk, c', k', v). (c', k') = (c, k)) ws)"
proof (induction ws arbitrary: f)
  case (Cons w ws)
  obtain uk c' k' v where w: "w = (uk, c', k', v)" by (cases w)
  have "hits c k (uk, KeyMutation TargetDomain c' k' (f c' k')) \<longleftrightarrow> (c', k') = (c, k)"
    by (auto simp: hits_def)
  then show ?case using Cons [of "set_key f c' k' v"] by (auto simp: w)
qed simp

lemma key_order_sorted:
  assumes "key_order ws"
  shows "sorted (map fst (filter (hits c k) (snd (journal f ws))))"
proof -
  have "sorted (map fst (filter (\<lambda>(uk, c', k', v). (c', k') = (c, k)) ws))"
    using assms by (induction ws) (auto simp: key_order_def)
  then show ?thesis by (simp add: journal_hits)
qed

lemma oldest_pre_sorted:
  assumes "key_order ws"
  shows "oldest_pre (sort_key fst (snd (journal f ws))) c k = oldest_pre (snd (journal f ws)) c k"
proof -
  have "filter (hits c k) (sort_key fst (snd (journal f ws))) = filter (hits c k) (snd (journal f ws))"
    using key_order_sorted [OF assms] by (simp add: filter_sort sort_key_id_if_sorted)
  then show ?thesis by (metis oldest_pre_hits)
qed

lemma journal_external:
  "(\<forall>(uk, c, k, v) \<in> set ws. c \<noteq> CF_REORG_UNDO_LOG_BY_BLOCK) \<Longrightarrow> log_external (snd (journal f ws))"
proof (induction ws arbitrary: f)
  case (Cons w ws)
  obtain uk c k v where w: "w = (uk, c, k, v)" by (cases w)
  show ?case using Cons.IH [of "set_key f c k v"] Cons.prems by (auto simp: w log_external_def)
qed (simp add: log_external_def)

section \<open>An example\<close>

text \<open>One key, changed at block 5 and journaled by the entity-stats writer.\<close>

definition example_log_key :: bytes where
  "example_log_key = encode_reorg_undo_log_key 5 (seq_base EntityStatsScope)"

definition example_log_store :: "mem store" where
  "example_log_store = \<lparr>store_class = Domain, bulk_sync_mode = False,
     db = mem_write mem_empty [Put CF_TOKENS [1] [2], Put CF_REORG_UNDO_LOG_BY_BLOCK example_log_key [0]]\<rparr>"

definition example_deser :: "bytes \<Rightarrow> UndoLogEntry option" where
  "example_deser bs = Some (KeyMutation TargetDomain CF_TOKENS [1] None)"

lemma example_cfs: "CF_TOKENS \<noteq> CF_REORG_UNDO_LOG_BY_BLOCK" "CF_TOKENS \<in> set DOMAIN_CFS"
  by code_simp+

lemma example_rows:
  "mem_rows (db example_log_store) CF_REORG_UNDO_LOG_BY_BLOCK = [(example_log_key, [0])]"
  "mem_rows (db example_log_store) CF_TOKENS = [([1], [2])]"
  "store_class example_log_store = Domain" "\<not> bulk_sync_mode example_log_store"
  using example_cfs(1) by (simp_all add: example_log_store_def)

lemma example_log_key:
  "length example_log_key = REORG_UNDO_LOG_KEY_SIZE" "above 4 example_log_key" "to_be_bytes (5 :: i64) \<le> example_log_key"
  by (simp_all add: example_log_key_def encode_reorg_undo_log_key_def REORG_UNDO_LOG_KEY_SIZE_def above_def le_append_self)

lemma example_entries:
  "log_entries example_deser 4 [(example_log_key, [0])] =
    [(example_log_key, KeyMutation TargetDomain CF_TOKENS [1] None)]"
  "log_ok example_deser 4 [(example_log_key, [0])]"
  "log_external [(example_log_key, KeyMutation TargetDomain CF_TOKENS [1] None)]"
  using example_log_key example_cfs
  by (simp_all add: log_entries_def log_ok_def log_rows_def om_from_def example_deser_def log_external_def)

lemma mem_reliable: "reliable mem_rocks"
  by (simp add: reliable_def mem_rocks_def list_all_iff)

lemma example_rollback:
  obtains s' result where "rollback_via_undo_log example_deser mem_rocks example_log_store 4 = (s', Inr result)"
  using mem.rollback_ok [OF mem_reliable example_rows(3), of 4 example_deser]
  by (auto simp: example_rows example_entries entry_known_def example_cfs)

section \<open>Properties of rollback\<close>

text \<open>
  C5. A rollback that reports success leaves every key, outside the log itself, with the
  pre-image of its oldest entry above the target, and keys with no entry untouched; it
  removes exactly the entries it replayed from the log.
\<close>

theorem rollback_restores_oldest_preimage:
  assumes "rocksdb R rows" and "store_class s = Domain"
    and "rollback_via_undo_log deser R s t = (s', Inr result)"
    and "es = log_entries deser t (rows (db s) CF_REORG_UNDO_LOG_BY_BLOCK)" and "log_external es"
  shows "(\<forall>c k. c \<noteq> CF_REORG_UNDO_LOG_BY_BLOCK \<longrightarrow>
      om_get (rows (db s') c) k = restored es (rows (db s)) c k) \<and>
    rows (db s') CF_REORG_UNDO_LOG_BY_BLOCK =
      filter (\<lambda>(k, v). k \<notin> fst ` set es) (rows (db s) CF_REORG_UNDO_LOG_BY_BLOCK)"
proof -
  have final: "rows (db s') = apply_batch (concat (map entry_ops (rev es))) (rows (db s))"
    by (rule rocksdb.rollback_rows [OF assms(1,2,3)]) (use assms(4) in auto)
  have "log_external (rev es)" using assms(5) by (simp add: log_external_def)
  from undo_rows_replayed [OF this, of "rows (db s)"] show ?thesis
    unfolding final by (auto simp: get_replayed)
qed

theorem rollback_restores_oldest_preimage_witness:
  "\<exists>s' result. rollback_via_undo_log example_deser mem_rocks example_log_store 4 = (s', Inr result) \<and>
    om_get (mem_rows (db s') CF_TOKENS) [1] = None \<and> mem_rows (db s') CF_REORG_UNDO_LOG_BY_BLOCK = []"
proof -
  obtain s' result where r: "rollback_via_undo_log example_deser mem_rocks example_log_store 4 = (s', Inr result)"
    by (rule example_rollback)
  show ?thesis
    using rollback_restores_oldest_preimage [OF mem.rocksdb_axioms example_rows(3) r refl]
    by (simp add: r example_rows example_entries restored_def example_cfs)
qed

text \<open>
  C3. A rollback that is interrupted, by a failed write or a crash between its flushes,
  can be run again: the second run, when it succeeds, reaches the state one
  uninterrupted run would have reached.
\<close>

theorem rollback_resumable:
  assumes "rocksdb R rows" and "store_class s = Domain"
    and "rollback_via_undo_log deser R s t = (s', r)"
    and "rollback_via_undo_log deser R s' t = (s'', Inr result)"
    and "es = log_entries deser t (rows (db s) CF_REORG_UNDO_LOG_BY_BLOCK)" and "log_external es"
    and "c \<noteq> CF_REORG_UNDO_LOG_BY_BLOCK"
  shows "om_get (rows (db s'') c) k = restored es (rows (db s)) c k"
proof (rule rocksdb.rollback_rows [OF assms(1,2,3)])
  let ?u = CF_REORG_UNDO_LOG_BY_BLOCK
  fix left replayed
  assume cls: "store_class s' = Domain" and split: "log_entries deser t (rows (db s) ?u) = left @ replayed"
    and rows': "rows (db s') = apply_batch (concat (map entry_ops (rev replayed))) (rows (db s))"
  have ext: "log_external (rev replayed)" using assms(5,6) split by (auto simp: log_external_def)
  have "distinct (map fst (left @ replayed))"
    using distinct_log_entries [OF rocksdb.rows_sorted [OF assms(1)]] split by metis
  then have "filter (\<lambda>(k, e). k \<notin> fst ` set replayed) (left @ replayed) = left"
    by (auto simp: filter_id_conv filter_empty_conv case_prod_unfold)
  then have "log_entries deser t (rows (db s') ?u) = left"
    using undo_rows_replayed [OF ext, of "rows (db s)"] rows' split by (simp add: log_entries_filter)
  note left = this
  have "rows (db s'') = apply_batch (concat (map entry_ops (rev left))) (rows (db s'))"
    by (rule rocksdb.rollback_rows [OF assms(1) cls assms(4)]) (use left in simp)
  then have "om_get (rows (db s'') c) k = restored left (rows (db s')) c k"
    by (simp add: get_replayed [OF assms(7)])
  also have "\<dots> = restored (left @ replayed) (rows (db s)) c k"
    by (simp add: restored_def rows' get_replayed [OF assms(7)] oldest_pre_append split: option.splits)
  finally show ?thesis using assms(5) split by simp
qed

text \<open>A database whose next write fails, and whose later ones go through.\<close>

definition flaky_rocks :: "(mem \<times> bool) rocks" where
  "flaky_rocks = \<lparr>
     db_get = (\<lambda>d c k. Inr (om_get (mem_rows (fst d) c) k)),
     db_from = (\<lambda>d c s. map Inr (om_from s (mem_rows (fst d) c))),
     db_write = (\<lambda>w d ops. if snd d then ((fst d, False), Inl (Bail ''write failed'')) else ((mem_write (fst d) ops, False), Inr ()))\<rparr>"

interpretation flaky: rocksdb flaky_rocks "\<lambda>d. mem_rows (fst d)"
  by unfold_locales (auto simp: flaky_rocks_def mem_rows_sorted split: if_splits)

definition flaky_log_store :: "bool \<Rightarrow> (mem \<times> bool) store" where
  "flaky_log_store broken = \<lparr>store_class = Domain, bulk_sync_mode = False, db = (db example_log_store, broken)\<rparr>"

lemma flaky_rollback:
  "rollback_via_undo_log example_deser flaky_rocks (flaky_log_store broken) 4 =
     (case db_write_store flaky_rocks Wal (flaky_log_store broken)
             [Delete CF_TOKENS [1], Delete CF_REORG_UNDO_LOG_BY_BLOCK example_log_key] of
        (s', Inl e) \<Rightarrow> (s', Inl e)
      | (s', Inr _) \<Rightarrow> (s', Inr \<lparr>undo_entries_applied = 1, domain_ops_applied = 1, append_ops_skipped = 0, tx_contexts = []\<rparr>))"
proof -
  obtain b q where key: "decode_reorg_undo_log_key example_log_key = Inr (b, q)" "\<not> sint b \<le> 4"
    by (simp add: example_log_key_def)
  have cfs: "store_cf Domain CF_REORG_UNDO_LOG_BY_BLOCK = Inr CF_REORG_UNDO_LOG_BY_BLOCK"
    "cf_allowed Domain CF_TOKENS" "cf_handle Domain CF_TOKENS = Some CF_TOKENS" by code_simp+
  have rows: "db_from flaky_rocks (db (flaky_log_store broken)) CF_REORG_UNDO_LOG_BY_BLOCK (to_be_bytes (5 :: i64)) = [Inr (example_log_key, [0])]"
    using example_log_key(3) by (simp add: flaky_rocks_def flaky_log_store_def example_rows om_from_def)
  show ?thesis
    using key cfs rows example_log_key(1)
    by (simp add: rollback_via_undo_log_def encode_block_num_def iterator_cf_from_def flaky_log_store_def example_deser_def
        apply_batch_op_by_cf_name_def apply_batch_op_by_cf_name_with_intent_def validate_append_delete_by_cf_name_def
        is_append_only_store_def UNDO_ROLLBACK_FLUSH_EVERY_def default_result_def flush_undo_batches_def
        write_batch_def write_batch_with_intent_def write_batch_unchecked_def split: prod.split sum.split)
qed

theorem rollback_resumable_witness:
  "\<exists>s' e s'' result. rollback_via_undo_log example_deser flaky_rocks (flaky_log_store True) 4 = (s', Inl e) \<and>
    rollback_via_undo_log example_deser flaky_rocks s' 4 = (s'', Inr result) \<and>
    om_get (mem_rows (fst (db s')) CF_TOKENS) [1] = Some [2] \<and> om_get (mem_rows (fst (db s'')) CF_TOKENS) [1] = None"
proof -
  have first: "rollback_via_undo_log example_deser flaky_rocks (flaky_log_store True) 4 =
      (flaky_log_store False, Inl (Bail ''write failed''))"
    using flaky_rollback [of True] by (auto simp: db_write_store_def flaky_rocks_def flaky_log_store_def)
  obtain s'' result where again: "rollback_via_undo_log example_deser flaky_rocks (flaky_log_store False) 4 = (s'', Inr result)"
    using flaky_rollback [of False] by (auto simp: db_write_store_def flaky_rocks_def flaky_log_store_def)
  have cls: "store_class (flaky_log_store True) = Domain" by (simp add: flaky_log_store_def)
  have "om_get (mem_rows (fst (db s'')) CF_TOKENS) [1] = None"
    using rollback_resumable [OF flaky.rocksdb_axioms cls first again refl _ example_cfs(1), of "[1]"]
    by (simp add: flaky_log_store_def example_rows example_entries restored_def)
  moreover have "om_get (mem_rows (fst (db (flaky_log_store False))) CF_TOKENS) [1] = Some [2]"
    by (simp add: flaky_log_store_def example_rows)
  ultimately show ?thesis using first again by blast
qed

text \<open>
  C6. When the database does not fail and the entries above the target decode and name
  column families of the store, a rollback ends with success, having applied every entry
  and handed back the transaction contexts newest first.
\<close>

theorem rollback_succeeds:
  assumes "rocksdb R rows" and "reliable R" and "store_class s = Domain"
    and "- 1 \<le> sint t" and "sint t < 2 ^ 63 - 1"
    and "log_ok deser t (rows (db s) CF_REORG_UNDO_LOG_BY_BLOCK)"
    and "es = log_entries deser t (rows (db s) CF_REORG_UNDO_LOG_BY_BLOCK)"
    and "\<forall>(uk, e) \<in> set es. entry_known e"
  shows "\<exists>s' result. rollback_via_undo_log deser R s t = (s', Inr result) \<and>
    undo_entries_applied result = length es \<and> tx_contexts result = List.map_filter ctx_of (rev es)"
  using assms(2-) by (rule rocksdb.rollback_ok [OF assms(1)])

theorem rollback_succeeds_witness:
  "\<exists>s' result. rollback_via_undo_log example_deser mem_rocks example_log_store 4 = (s', Inr result) \<and>
    undo_entries_applied result = 1"
  using rollback_succeeds [OF mem.rocksdb_axioms mem_reliable example_rows(3), of 4 example_deser]
  by (auto simp: example_rows example_entries entry_known_def example_cfs)

text \<open>
  Rolling back undoes a run of journaled writes. If the log above the target is what
  a sequence of writes recorded, in key order, and entries for one key keep the order
  they were recorded in, a successful rollback gives every key outside the log the value
  it had before the first of the writes.
\<close>

lemma rollback_of_journal:
  assumes "rocksdb R rows" and "store_class s = Domain"
    and "key_order ws" and "\<forall>(uk, c, k, v) \<in> set ws. c \<noteq> CF_REORG_UNDO_LOG_BY_BLOCK"
    and "\<forall>c k. c \<noteq> CF_REORG_UNDO_LOG_BY_BLOCK \<longrightarrow> om_get (rows (db s) c) k = fst (journal f ws) c k"
    and "log_entries deser t (rows (db s) CF_REORG_UNDO_LOG_BY_BLOCK) = sort_key fst (snd (journal f ws))"
    and "rollback_via_undo_log deser R s t = (s', Inr result)"
    and "c \<noteq> CF_REORG_UNDO_LOG_BY_BLOCK"
  shows "om_get (rows (db s') c) k = f c k"
proof -
  let ?es = "sort_key fst (snd (journal f ws))"
  have "rows (db s') = apply_batch (concat (map entry_ops (rev ?es))) (rows (db s))"
    by (rule rocksdb.rollback_rows [OF assms(1,2,7)]) (use assms(6) in auto)
  then have "om_get (rows (db s') c) k = restored ?es (rows (db s)) c k"
    by (simp add: get_replayed [OF assms(8)])
  also have "\<dots> = f c k"
    using journal_restored [of f ws c k] assms(5,8) by (simp add: restored_def oldest_pre_sorted [OF assms(3)] split: option.splits)
  finally show ?thesis .
qed

end
