(* ===== verification/Undo_Batch.thy ===== *)
theory Undo_Batch
  imports Undo_Rollback
begin

text \<open>
  The whole life of a journaled batch: writers draw undo keys and record
  pre-images beside their writes (\<^verbatim>\<open>SharedUndoSeq::next\<close>,
  \<^verbatim>\<open>record_object_undo\<close>, \<^verbatim>\<open>StoreBatch::put_reorg_undo_log_by_block\<close>), the batch commits,
  and a later rollback restores the store. Then pruning and probing.
\<close>

section \<open>Writers\<close>

text \<open>
  A write is a block, the scope of its writer, a column family, a key and the new
  value. The pre-image a writer records is what the key holds at that point of the
  batch. Object writers go through \<^const>\<open>record_object_undo\<close>.
\<close>

type_synonym journaled = "i64 \<times> UndoSeqScope \<times> cf \<times> bytes \<times> bytes option"

definition record_undo ::
    "(UndoLogEntry \<Rightarrow> bytes) \<Rightarrow> 'db store \<Rightarrow> store_batch \<Rightarrow> i64 \<Rightarrow> UndoSeqScope \<Rightarrow> cf \<Rightarrow> bytes \<Rightarrow> bytes option \<Rightarrow>
     undo_seqs \<Rightarrow> (store_batch \<times> undo_seqs) res" where
  "record_undo ser s b blk scope c k prev seqs =
     (if scope = ObjectScope then record_object_undo ser s b blk c k prev seqs
      else rbind (next_undo_seq seqs blk scope) (\<lambda>(seqs', q).
           rbind (put_reorg_undo_log_by_block ser s b blk q (KeyMutation TargetDomain c k prev)) (\<lambda>b'.
           Inr (b', seqs'))))"

definition write_key :: "'db store \<Rightarrow> store_batch \<Rightarrow> cf \<Rightarrow> bytes \<Rightarrow> bytes option \<Rightarrow> store_batch res" where
  "write_key s b c k v =
     (case v of
        Some v' \<Rightarrow> put_raw_cf_by_name s b c k v'
      | None \<Rightarrow> delete_raw_cf_by_name s b c k)"

fun journal_batch ::
    "(UndoLogEntry \<Rightarrow> bytes) \<Rightarrow> 'db store \<Rightarrow> (cf \<Rightarrow> bytes \<Rightarrow> bytes option) \<Rightarrow> undo_seqs \<Rightarrow> journaled list \<Rightarrow>
     store_batch \<Rightarrow> store_batch res" where
  "journal_batch ser s f seqs [] b = Inr b"
| "journal_batch ser s f seqs ((blk, scope, c, k, v) # ops) b =
     rbind (record_undo ser s b blk scope c k (f c k) seqs) (\<lambda>(b1, seqs').
     rbind (write_key s b1 c k v) (\<lambda>b2.
     journal_batch ser s (set_key f c k v) seqs' ops b2))"

text \<open>What the debug check \<^verbatim>\<open>undo_scope_overlaps\<close> looks for, stated of the writes.\<close>

definition one_scope :: "journaled list \<Rightarrow> bool" where
  "one_scope ops \<longleftrightarrow> (\<forall>(b, sc, c, k, v) \<in> set ops. \<forall>(b', sc', c', k', v') \<in> set ops.
     b = b' \<and> c = c' \<and> k = k' \<longrightarrow> sc = sc')"

section \<open>The batch they build\<close>

definition numbered :: "journaled list \<Rightarrow> (i64 \<times> u64) list \<Rightarrow> (bytes \<times> cf \<times> bytes \<times> bytes option) list" where
  "numbered ops ks = map2 (\<lambda>(b, sc, c, k, v) (b', q). (encode_reorg_undo_log_key b' q, c, k, v)) ops ks"

definition change :: "cf \<Rightarrow> bytes \<Rightarrow> bytes option \<Rightarrow> wop" where
  "change c k v = (case v of Some v' \<Rightarrow> Put c k v' | None \<Rightarrow> Delete c k)"

fun journal_ops ::
    "(UndoLogEntry \<Rightarrow> bytes) \<Rightarrow> (cf \<Rightarrow> bytes \<Rightarrow> bytes option) \<Rightarrow> (bytes \<times> cf \<times> bytes \<times> bytes option) list \<Rightarrow> wop list" where
  "journal_ops ser f [] = []"
| "journal_ops ser f ((uk, c, k, v) # ws) =
     [Put CF_REORG_UNDO_LOG_BY_BLOCK uk (ser (KeyMutation TargetDomain c k (f c k))), change c k v] @
     journal_ops ser (set_key f c k v) ws"

lemma record_undo_Inr:
  assumes "store_class s = Domain" and "\<not> bulk_sync_mode s"
  shows "record_undo ser s b blk sc c k p seqs = Inr (b', seqs') \<longleftrightarrow>
    (\<exists>q. next_undo_seq seqs blk sc = Inr (seqs', q) \<and>
      b' = b\<lparr>batch := batch b @ [Put CF_REORG_UNDO_LOG_BY_BLOCK (encode_reorg_undo_log_key blk q)
        (ser (KeyMutation TargetDomain c k p))]\<rparr>)"
  using assms
  by (auto simp: record_undo_def record_object_undo_def put_reorg_undo_log_by_block_def undo_cf_open
      batch_put_cf_def is_append_only_store_def res_simps)

lemma write_key_Inr:
  assumes "store_class s = Domain" and "write_key s b c k v = Inr b'"
  shows "b' = b\<lparr>batch := batch b @ [change c k v]\<rparr>"
  using assms
  by (auto simp: write_key_def change_def put_raw_cf_by_name_def delete_raw_cf_by_name_def
      batch_put_cf_def batch_delete_cf_def is_append_only_store_def res_simps split: option.splits)

lemma journal_batch_Inr:
  assumes "store_class s = Domain" and "\<not> bulk_sync_mode s"
    and "journal_batch ser s f seqs ops b = Inr b'"
  shows "\<exists>ks. draw_seqs seqs (map (\<lambda>(blk, sc, _). (blk, sc)) ops) = Inr ks \<and>
    batch b' = batch b @ journal_ops ser f (numbered ops ks)"
  using assms(3)
proof (induction ops arbitrary: f seqs b)
  case (Cons x ops)
  obtain blk sc c k v where x: "x = (blk, sc, c, k, v)" by (cases x)
  obtain b1 seqs' b2 where step: "record_undo ser s b blk sc c k (f c k) seqs = Inr (b1, seqs')"
      "write_key s b1 c k v = Inr b2" "journal_batch ser s (set_key f c k v) seqs' ops b2 = Inr b'"
    using Cons.prems by (auto simp: x res_simps)
  obtain q where q: "next_undo_seq seqs blk sc = Inr (seqs', q)"
      and b1: "batch b1 = batch b @ [Put CF_REORG_UNDO_LOG_BY_BLOCK (encode_reorg_undo_log_key blk q)
        (ser (KeyMutation TargetDomain c k (f c k)))]"
    using step(1) by (auto simp: record_undo_Inr [OF assms(1,2)])
  obtain ks where "draw_seqs seqs' (map (\<lambda>(blk, sc, _). (blk, sc)) ops) = Inr ks"
      "batch b' = batch b2 @ journal_ops ser (set_key f c k v) (numbered ops ks)"
    using Cons.IH [OF step(3)] by blast
  then show ?case
    using q b1 write_key_Inr [OF assms(1) step(2)] by (auto simp: x numbered_def)
qed (simp add: numbered_def)

section \<open>The store after the commit\<close>

lemma get_change:
  "om_get (apply_wop (change c k v) r c') k' = (if c' = c \<and> k' = k then v else om_get (r c') k')"
  by (auto simp: change_def split: option.splits)

lemma journal_ops_keys:
  assumes "\<forall>(uk, c, k, v) \<in> set ws. c \<noteq> CF_REORG_UNDO_LOG_BY_BLOCK"
    and "\<forall>c k. c \<noteq> CF_REORG_UNDO_LOG_BY_BLOCK \<longrightarrow> om_get (r c) k = f c k"
    and "c0 \<noteq> CF_REORG_UNDO_LOG_BY_BLOCK"
  shows "om_get (apply_batch (journal_ops ser f ws) r c0) k0 = fst (journal f ws) c0 k0"
  using assms(1,2)
proof (induction ws arbitrary: f r)
  case (Cons w ws)
  obtain uk c k v where w: "w = (uk, c, k, v)" by (cases w)
  let ?r = "apply_wop (change c k v) (apply_wop (Put CF_REORG_UNDO_LOG_BY_BLOCK uk
    (ser (KeyMutation TargetDomain c k (f c k)))) r)"
  have "om_get (?r c') k' = set_key f c k v c' k'" if "c' \<noteq> CF_REORG_UNDO_LOG_BY_BLOCK" for c' k'
    using that Cons.prems(2) by (simp add: get_change set_key_def)
  then show ?case using Cons.IH [of ?r "set_key f c k v"] Cons.prems(1) by (simp add: w)
qed (use assms(3) in simp)

lemma journal_ops_log:
  assumes "\<forall>(uk, c, k, v) \<in> set ws. c \<noteq> CF_REORG_UNDO_LOG_BY_BLOCK"
  shows "apply_batch (journal_ops ser f ws) r CF_REORG_UNDO_LOG_BY_BLOCK =
    fold (\<lambda>(uk, e). om_put uk (ser e)) (snd (journal f ws)) (r CF_REORG_UNDO_LOG_BY_BLOCK)"
  using assms
proof (induction ws arbitrary: f r)
  case (Cons w ws)
  obtain uk c k v where w: "w = (uk, c, k, v)" by (cases w)
  have "apply_wop (change c k v) r' CF_REORG_UNDO_LOG_BY_BLOCK = r' CF_REORG_UNDO_LOG_BY_BLOCK" for r'
    using Cons.prems by (auto simp: w change_def split: option.splits)
  then show ?case using Cons by (simp add: w)
qed simp

definition in_log :: "i64 \<Rightarrow> bytes \<Rightarrow> bool" where
  "in_log t k \<longleftrightarrow> above t k \<and> to_be_bytes (t + 1) \<le> k"

lemma log_entries_eq:
  "log_entries deser t m = map (\<lambda>(k, v). (k, the (deser v))) (filter (\<lambda>(k, v). in_log t k) m)"
  by (simp add: log_entries_def log_rows_def om_from_def in_log_def case_prod_unfold conj_commute)

lemma get_log_entries:
  "om_get (log_entries deser t m) k = (if in_log t k then map_option (\<lambda>v. the (deser v)) (om_get m k) else None)"
  by (induction m) (auto simp: log_entries_eq)

lemma log_entries_sorted: "om_sorted m \<Longrightarrow> om_sorted (log_entries deser t m)"
proof -
  assume "om_sorted m"
  then have "om_sorted (filter (\<lambda>(k, v). in_log t k) m)" by simp
  then show ?thesis by (simp add: log_entries_eq om_sorted_def comp_def case_prod_unfold)
qed

lemma log_entries_put:
  assumes "om_sorted m" and "in_log t k" and "deser (ser e) = Some e"
  shows "log_entries deser t (om_put k (ser e) m) = om_put k e (log_entries deser t m)"
  using assms by (intro om_ext) (auto simp: log_entries_sorted get_log_entries)

lemma log_entries_fold:
  assumes "om_sorted m" and "\<forall>(k, e) \<in> set xs. in_log t k \<and> deser (ser e) = Some e"
  shows "log_entries deser t (fold (\<lambda>(uk, e). om_put uk (ser e)) xs m) =
    fold (\<lambda>(uk, e). om_put uk e) xs (log_entries deser t m)"
  using assms
proof (induction xs arbitrary: m)
  case (Cons x xs)
  obtain k e where x: "x = (k, e)" by force
  show ?case using Cons log_entries_put [of m t k deser ser e] by (simp add: x)
qed simp

lemma fold_om_put_sorted: "om_sorted m \<Longrightarrow> om_sorted (fold (\<lambda>(k, e). om_put k e) xs m)"
  by (induction xs arbitrary: m) auto

lemma get_fold_om_put: "om_get (fold (\<lambda>(k, e). om_put k e) xs m) = om_get m ++ map_of (rev xs)"
  by (induction xs arbitrary: m) (auto simp: map_add_def fun_eq_iff split: option.splits)

lemma fold_om_put_sort:
  assumes "distinct (map fst xs)"
  shows "fold (\<lambda>(k, e). om_put k e) xs [] = sort_key fst xs"
proof (rule om_ext)
  show "om_sorted (fold (\<lambda>(k, e). om_put k e) xs [])" by (simp add: fold_om_put_sorted)
  show "om_sorted (sort_key fst xs)" using assms by (simp add: om_sorted_def strict_sorted_iff distinct_map)
  have "distinct (map fst (sort_key fst xs))" using assms by (simp add: distinct_map)
  moreover have "distinct (map fst (rev xs))" using assms by (simp add: rev_map [symmetric])
  ultimately have "map_of (rev xs) = map_of (sort_key fst xs)" by (simp add: map_of_inject_set)
  then show "om_get (fold (\<lambda>(k, e). om_put k e) xs []) = om_get (sort_key fst xs)"
    by (simp add: get_fold_om_put)
qed


section \<open>Undo keys keep the order of the writes to a key\<close>

lemma numbered_key_order:
  assumes "draw_seqs seqs (map (\<lambda>(b, sc, _). (b, sc)) ops) = Inr ks"
    and "\<forall>(b, _) \<in> set ops. 0 \<le> sint b" and "sorted (map (sint \<circ> fst) ops)" and "one_scope ops"
  shows "key_order (numbered ops ks)"
  unfolding key_order_def sorted_wrt_iff_nth_less
proof (intro allI impI)
  fix i j
  assume ij: "i < j" "j < length (numbered ops ks)"
  note facts = draw_seqs_facts [OF assms(1)]
  have len: "length ks = length ops" using list_all2_lengthD [OF conjunct1 [OF conjunct2 [OF facts]]] by simp
  then have j: "j < length ops" using ij(2) by (simp add: numbered_def)
  obtain b sc c k v where i_op: "ops ! i = (b, sc, c, k, v)" by (cases "ops ! i")
  obtain b' sc' c' k' v' where j_op: "ops ! j = (b', sc', c', k', v')" by (cases "ops ! j")
  have blocks: "fst (ks ! n) = fst (ops ! n)" if "n < length ops" for n
    using list_all2_nthD [OF conjunct1 [OF conjunct2 [OF facts]], of n] that by (simp add: case_prod_unfold)
  obtain q where i_key: "ks ! i = (b, q)" using blocks [of i] ij(1) j i_op by (cases "ks ! i") simp
  obtain q' where j_key: "ks ! j = (b', q')" using blocks [of j] j j_op by (cases "ks ! j") simp
  have mem: "ops ! i \<in> set ops" "ops ! j \<in> set ops" using ij(1) j by simp_all
  have le: "sint b \<le> sint b'" using sorted_nth_mono [OF assms(3), of i j] ij(1) j i_op j_op by simp
  have nonneg: "0 \<le> sint b" "0 \<le> sint b'" using bspec [OF assms(2) mem(1)] bspec [OF assms(2) mem(2)] by (simp_all add: i_op j_op)
  have "encode_reorg_undo_log_key b q < encode_reorg_undo_log_key b' q'" if "c = c'" "k = k'"
  proof (cases "b = b'")
    case True
    have "\<forall>(b', sc', c', k', v') \<in> set ops. b = b' \<and> c = c' \<and> k = k' \<longrightarrow> sc = sc'"
      using bspec [OF assms(4) [unfolded one_scope_def] mem(1)] by (simp add: i_op)
    from bspec [OF this mem(2)] have "sc = sc'" using True that by (simp add: j_op)
    have "sorted_wrt (\<lambda>((b, scope), (_, q)) ((b', scope'), (_, q')). b = b' \<and> scope = scope' \<longrightarrow> q < q')
        (zip (map (\<lambda>(b, sc, _). (b, sc)) ops) ks)"
      using facts by (rule conjunct2 [OF conjunct2])
    from sorted_wrt_nth_less [OF this ij(1)] have "q < q'"
      using \<open>sc = sc'\<close> ij(1) j len True i_op j_op i_key j_key by simp
    then show ?thesis using True nonneg by (simp add: undo_key_less)
  next
    case False
    then have "sint b < sint b'" using le sint_eq_iff [of b b'] by (simp add: less_le)
    then show ?thesis using nonneg by (simp add: undo_key_less)
  qed
  moreover have "numbered ops ks ! i = (encode_reorg_undo_log_key b q, c, k, v)"
    "numbered ops ks ! j = (encode_reorg_undo_log_key b' q', c', k', v')"
    using ij(1) j len i_op j_op i_key j_key by (simp_all add: numbered_def)
  ultimately show "(\<lambda>(uk, c, k, v) (uk', c', k', v'). (c, k) = (c', k') \<longrightarrow> uk < uk')
      (numbered ops ks ! i) (numbered ops ks ! j)"
    by simp
qed

section \<open>A journaled batch and its rollback\<close>

lemma numbered_in_log:
  assumes "- 1 \<le> sint t" and "\<forall>(b, _) \<in> set ops. sint t < sint b"
    and "list_all2 (\<lambda>(b, sc) (b', q). b' = b \<and> owns sc q) (map (\<lambda>(b, sc, _). (b, sc)) ops) ks"
    and "(uk, x) \<in> set (numbered ops ks)"
  shows "in_log t uk"
proof -
  have len: "length ks = length ops" using list_all2_lengthD [OF assms(3)] by simp
  obtain n where "n < length (numbered ops ks)" and nth: "numbered ops ks ! n = (uk, x)"
    using assms(4) by (metis in_set_conv_nth)
  then have n: "n < length ops" by (simp add: numbered_def)
  obtain b sc y where op: "ops ! n = (b, sc, y)" by (cases "ops ! n")
  obtain b' q where key: "ks ! n = (b', q)" by force
  have "b' = b" using list_all2_nthD [OF assms(3), of n] n by (simp add: op key)
  then have uk: "uk = encode_reorg_undo_log_key b q"
    using n nth len by (simp add: numbered_def op key case_prod_unfold)
  have b: "sint t < sint b" using bspec [OF assms(2) nth_mem [OF n]] by (simp add: op)
  have "sint b < 2 ^ 63" using sint_lt [of b] by simp
  then have t1: "sint (t + 1) = sint t + 1" using b by (intro sint_plus_one_i64) simp
  then have "t + 1 \<le> b"
    using b assms(1) sint_less_nonneg [of b "t + 1"] by (simp add: not_less [symmetric])
  then have "to_be_bytes (t + 1) \<le> to_be_bytes b" by simp
  also have "\<dots> \<le> uk" unfolding uk encode_reorg_undo_log_key_def by (simp add: le_append_self)
  finally show ?thesis using b by (simp add: in_log_def above_def uk encode_reorg_undo_log_key_def)
qed

lemma journal_keys: "map fst (snd (journal f ws)) = map fst ws"
  by (induction f ws rule: journal.induct) simp_all

lemma numbered_distinct:
  assumes "distinct ks" and "length ks = length ops"
  shows "distinct (map fst (numbered ops ks))"
proof -
  have "map fst (numbered ops ks) = map (\<lambda>(b, q). encode_reorg_undo_log_key b q) ks"
    using assms(2) by (intro nth_equalityI) (auto simp: numbered_def case_prod_unfold)
  moreover have "inj_on (\<lambda>(b, q). encode_reorg_undo_log_key b q) (set ks)"
    by (rule inj_on_inverseI [where g = "projr \<circ> decode_reorg_undo_log_key"]) auto
  ultimately show ?thesis using assms(1) by (simp add: distinct_map)
qed

lemma journal_entries:
  assumes "\<forall>(uk, c, k, v) \<in> set ws. \<forall>p. deser (ser (KeyMutation TargetDomain c k p)) = Some (KeyMutation TargetDomain c k p)"
    and "(uk, e) \<in> set (snd (journal f ws))"
  shows "deser (ser e) = Some e"
  using assms
proof (induction ws arbitrary: f)
  case (Cons w ws)
  obtain uk' c k v where w: "w = (uk', c, k, v)" by (cases w)
  show ?case using Cons.IH [of "set_key f c k v"] Cons.prems by (auto simp: w)
qed simp

lemma numbered_ops:
  assumes "\<forall>(b, sc, c, k, v) \<in> set ops. P c k v"
  shows "\<forall>(uk, c, k, v) \<in> set (numbered ops ks). P c k v"
  using assms by (fastforce simp: numbered_def dest: set_zip_leftD)

lemma committed_log:
  assumes "rocksdb R rows"
    and "\<forall>(b, sc, c, k, v) \<in> set ops. \<forall>p. deser (ser (KeyMutation TargetDomain c k p)) = Some (KeyMutation TargetDomain c k p)"
    and "- 1 \<le> sint t" and "\<forall>(b, _) \<in> set ops. sint t < sint b"
    and "draw_seqs seqs (map (\<lambda>(b, sc, _). (b, sc)) ops) = Inr ks"
    and "\<forall>(uk, c, k, v) \<in> set (numbered ops ks). c \<noteq> CF_REORG_UNDO_LOG_BY_BLOCK"
    and "log_entries deser t (rows d CF_REORG_UNDO_LOG_BY_BLOCK) = []"
  shows "log_entries deser t (apply_batch (journal_ops ser f (numbered ops ks)) (rows d) CF_REORG_UNDO_LOG_BY_BLOCK) =
    sort_key fst (snd (journal f (numbered ops ks)))"
proof -
  let ?es = "snd (journal f (numbered ops ks))"
  note facts = draw_seqs_facts [OF assms(5)]
  have keys: "fst ` set ?es = fst ` set (numbered ops ks)" by (metis journal_keys set_map)
  have "in_log t uk \<and> deser (ser e) = Some e" if "(uk, e) \<in> set ?es" for uk e
  proof -
    have "uk \<in> fst ` set (numbered ops ks)" using that keys by force
    then have "in_log t uk" using numbered_in_log [OF assms(3,4) conjunct1 [OF conjunct2 [OF facts]]] by force
    then show ?thesis using journal_entries [of "numbered ops ks" deser ser, OF numbered_ops [OF assms(2)] that] by simp
  qed
  then have "log_entries deser t (fold (\<lambda>(uk, e). om_put uk (ser e)) ?es (rows d CF_REORG_UNDO_LOG_BY_BLOCK)) =
      fold (\<lambda>(uk, e). om_put uk e) ?es []"
    using assms(7) by (subst log_entries_fold [OF rocksdb.rows_sorted [OF assms(1)]]) auto
  moreover have "distinct (map fst ?es)"
    using numbered_distinct [OF conjunct1 [OF facts]] list_all2_lengthD [OF conjunct1 [OF conjunct2 [OF facts]]]
    by (simp add: journal_keys)
  ultimately show ?thesis by (simp add: journal_ops_log [OF assms(6)] fold_om_put_sort)
qed

text \<open>
  C1. Rolling back undoes a journaled batch. Writers of any scopes draw undo keys from the
  shared counter and record pre-images beside their writes; the batch commits; a rollback
  to a block below all of them succeeds. If no key is journaled by two scopes in one
  block, and the blocks were written in order, every key outside the log is back at the
  value it had before the batch.
\<close>

theorem rollback_undoes_batch:
  assumes "rocksdb R rows" and "store_class s = Domain" and "\<not> bulk_sync_mode s"
    and "\<forall>(b, sc, c, k, v) \<in> set ops. \<forall>p. deser (ser (KeyMutation TargetDomain c k p)) = Some (KeyMutation TargetDomain c k p)"
    and "- 1 \<le> sint t" and "\<forall>(b, _) \<in> set ops. sint t < sint b" and "sorted (map (sint \<circ> fst) ops)"
    and "\<forall>(b, sc, c, k, v) \<in> set ops. c \<noteq> CF_REORG_UNDO_LOG_BY_BLOCK" and "one_scope ops"
    and "log_entries deser t (rows (db s) CF_REORG_UNDO_LOG_BY_BLOCK) = []"
    and "journal_batch ser s (\<lambda>c k. om_get (rows (db s) c) k) (\<lambda>_. None) ops new_batch = Inr b"
    and "commit R s b = (s', Inr u)" and "rollback_via_undo_log deser R s' t = (s'', Inr result)"
    and "c \<noteq> CF_REORG_UNDO_LOG_BY_BLOCK"
  shows "om_get (rows (db s'') c) k = om_get (rows (db s) c) k"
proof -
  let ?u = CF_REORG_UNDO_LOG_BY_BLOCK and ?f = "\<lambda>c k. om_get (rows (db s) c) k"
  obtain ks where ks: "draw_seqs (\<lambda>_. None) (map (\<lambda>(b, sc, _). (b, sc)) ops) = Inr ks"
      and b: "batch b = journal_ops ser ?f (numbered ops ks)"
    using journal_batch_Inr [OF assms(2,3,11)] by (auto simp: new_batch_def)
  have cfs: "\<forall>(uk, c, k, v) \<in> set (numbered ops ks). c \<noteq> ?u"
    by (rule numbered_ops [OF assms(8)])
  have "\<forall>(b, _) \<in> set ops. 0 \<le> sint b" using assms(5,6) by fastforce
  then have order: "key_order (numbered ops ks)" using numbered_key_order [OF ks _ assms(7,9)] by blast
  have s': "store_class s' = Domain" "rows (db s') = apply_batch (batch b) (rows (db s))"
    using assms(2,12) rocksdb.domain_write [OF assms(1,2)] rocksdb.db_write_store_cases [OF assms(1), of Wal s "batch b" s' "Inr u"]
      db_write_store_handle [of R Wal s "batch b"]
    by (auto simp: commit_def commit_inner_def is_append_only_store_def)
  show ?thesis
  proof (rule rollback_of_journal [OF assms(1) s'(1) order cfs _ _ assms(13,14)])
    show "\<forall>c k. c \<noteq> ?u \<longrightarrow> om_get (rows (db s') c) k = fst (journal ?f (numbered ops ks)) c k"
      using journal_ops_keys [OF cfs] by (simp add: s'(2) b)
    show "log_entries deser t (rows (db s') ?u) = sort_key fst (snd (journal ?f (numbered ops ks)))"
      unfolding s'(2) b by (rule committed_log [OF assms(1,4,5,6) ks cfs assms(10)])
  qed
qed

section \<open>An example batch\<close>

definition value_ser :: "UndoLogEntry \<Rightarrow> bytes" where
  "value_ser e = (case e of KeyMutation t c k (Some v) \<Rightarrow> 0 # v | _ \<Rightarrow> [])"

definition value_deser :: "bytes \<Rightarrow> UndoLogEntry option" where
  "value_deser bs = Some (KeyMutation TargetDomain CF_TOKENS [1] (case bs of [] \<Rightarrow> None | _ # v \<Rightarrow> Some v))"

definition fresh_store :: "mem store" where
  "fresh_store = \<lparr>store_class = Domain, bulk_sync_mode = False, db = mem_empty\<rparr>"

definition token_write :: "journaled list" where
  "token_write = [(7, ObjectScope, CF_TOKENS, [1], Some [2])]"

definition token_batch :: store_batch where
  "token_batch = new_batch\<lparr>batch := [
     Put CF_REORG_UNDO_LOG_BY_BLOCK (encode_reorg_undo_log_key 7 (seq_base ObjectScope)) [], Put CF_TOKENS [1] [2]]\<rparr>"

lemma tokens_open: "store_cf Domain CF_TOKENS = Inr CF_TOKENS"
  by code_simp

lemma token_batch:
  "journal_batch value_ser fresh_store (\<lambda>c k. om_get (mem_rows (db fresh_store) c) k) (\<lambda>_. None) token_write new_batch =
    Inr token_batch"
  using example_cfs
  by (simp add: token_write_def token_batch_def fresh_store_def record_undo_def record_object_undo_def next_undo_seq_def
      put_reorg_undo_log_by_block_def undo_cf_open tokens_open batch_put_cf_def is_append_only_store_def
      write_key_def put_raw_cf_by_name_def has_cf_def new_batch_def value_ser_def UNDO_SEQ_LOCAL_MAX_def push_bit_eq_mult)

theorem rollback_undoes_batch_witness:
  "\<exists>s' s'' result. commit mem_rocks fresh_store token_batch = (s', Inr ()) \<and>
    rollback_via_undo_log value_deser mem_rocks s' 6 = (s'', Inr result) \<and>
    om_get (mem_rows (db s'') CF_TOKENS) [1] = None"
proof -
  let ?s' = "fresh_store\<lparr>db := mem_write mem_empty (batch token_batch)\<rparr>"
    and ?k = "encode_reorg_undo_log_key 7 (seq_base ObjectScope)"
  have committed: "commit mem_rocks fresh_store token_batch = (?s', Inr ())"
    by (simp add: commit_def commit_inner_def write_batch_def write_batch_with_intent_def write_batch_unchecked_def
        db_write_store_def is_append_only_store_def fresh_store_def mem_rocks_def)
  have log: "mem_rows (db ?s') CF_REORG_UNDO_LOG_BY_BLOCK = [(?k, [])]"
    using example_cfs by (simp add: token_batch_def)
  have k: "length ?k = REORG_UNDO_LOG_KEY_SIZE" "above 6 ?k" "to_be_bytes (7 :: i64) \<le> ?k"
    by (simp_all add: encode_reorg_undo_log_key_def REORG_UNDO_LOG_KEY_SIZE_def above_def le_append_self)
  then have "log_ok value_deser 6 [(?k, [])]"
    "log_entries value_deser 6 [(?k, [])] = [(?k, KeyMutation TargetDomain CF_TOKENS [1] None)]"
    by (simp_all add: log_ok_def log_entries_def log_rows_def om_from_def value_deser_def)
  then obtain s'' result where rolled: "rollback_via_undo_log value_deser mem_rocks ?s' 6 = (s'', Inr result)"
    using mem.rollback_ok [OF mem_reliable, of ?s' 6 value_deser] log
    by (auto simp: fresh_store_def entry_known_def example_cfs)
  have "om_get (mem_rows (db s'') CF_TOKENS) [1] = om_get (mem_rows (db fresh_store) CF_TOKENS) [1]"
    by (rule rollback_undoes_batch [OF mem.rocksdb_axioms _ _ _ _ _ _ _ _ _ token_batch committed rolled])
      (use example_cfs in \<open>auto simp: fresh_store_def token_write_def value_ser_def value_deser_def one_scope_def
        log_entries_def log_rows_def om_from_def split: option.splits\<close>)
  then show ?thesis using committed rolled by (simp add: fresh_store_def)
qed

end
