(* ===== verification/Undo_Prune.thy ===== *)
theory Undo_Prune
  imports Undo_Rollback
begin

text \<open>
  The readers of the undo log that are not a rollback: the retention pruner, which
  drops the entries of two scopes below a floor, and the probe for entries above a
  block (\<^verbatim>\<open>crates/ckbadger-store/src/undo_log_ops.rs\<close>). Keys of the log are
  written by \<^const>\<open>put_reorg_undo_log_by_block\<close>, for blocks from 0.
\<close>

section \<open>Keys of the log\<close>

definition undo_block :: "bytes \<Rightarrow> i64" where
  "undo_block k = from_be_bytes (take 8 k)"

definition undo_seq :: "bytes \<Rightarrow> u64" where
  "undo_seq k = from_be_bytes (drop 8 k)"

definition log_keys_ok :: "(bytes, bytes) omap \<Rightarrow> bool" where
  "log_keys_ok m \<longleftrightarrow> (\<forall>(k, v) \<in> set m. length k = REORG_UNDO_LOG_KEY_SIZE \<and> 0 \<le> sint (undo_block k))"

definition prunable :: "bytes \<Rightarrow> bool" where
  "prunable k \<longleftrightarrow> owns EntityStatsScope (undo_seq k) \<or> owns DerivedScope (undo_seq k)"

lemma undo_key_fields:
  "length k = REORG_UNDO_LOG_KEY_SIZE \<Longrightarrow> decode_reorg_undo_log_key k = Inr (undo_block k, undo_seq k)"
  by (simp add: decode_reorg_undo_log_key_def undo_block_def undo_seq_def REORG_UNDO_LOG_KEY_SIZE_def)

lemma undo_key_of_fields:
  "length k = REORG_UNDO_LOG_KEY_SIZE \<Longrightarrow> k = encode_reorg_undo_log_key (undo_block k) (undo_seq k)"
  using undo_key_encode [of k] by (simp add: undo_block_def undo_seq_def REORG_UNDO_LOG_KEY_SIZE_def)

lemma undo_key_from:
  assumes "length k = REORG_UNDO_LOG_KEY_SIZE" and "0 \<le> sint (undo_block k)" and "0 \<le> sint b"
  shows "encode_reorg_undo_log_key b 0 \<le> k \<longleftrightarrow> sint b \<le> sint (undo_block k)"
    and "to_be_bytes b \<le> k \<longleftrightarrow> sint b \<le> sint (undo_block k)"
proof -
  note k = undo_key_of_fields [OF assms(1)]
  have "k < encode_reorg_undo_log_key b 0 \<longleftrightarrow> sint (undo_block k) < sint b"
    using assms(2,3) by (subst k) (simp add: undo_key_less)
  then show "encode_reorg_undo_log_key b 0 \<le> k \<longleftrightarrow> sint b \<le> sint (undo_block k)"
    unfolding not_less [symmetric] by simp
  have "to_be_bytes b \<le> k \<longleftrightarrow> to_be_bytes b \<le> to_be_bytes (undo_block k)"
    by (subst k) (simp add: encode_reorg_undo_log_key_def le_append_self)
  also have "\<dots> \<longleftrightarrow> \<not> undo_block k < b" by (simp add: not_less)
  also have "\<dots> \<longleftrightarrow> sint b \<le> sint (undo_block k)"
    using sint_less_nonneg [OF assms(2,3)] by (simp add: not_less)
  finally show "to_be_bytes b \<le> k \<longleftrightarrow> sint b \<le> sint (undo_block k)" .
qed

lemma log_blocks_sorted:
  assumes "om_sorted m" and "log_keys_ok m"
  shows "sorted (map (\<lambda>(k, v). sint (undo_block k)) m)"
  using assms
proof (induction m)
  case (Cons r m)
  obtain k v where r: "r = (k, v)" by force
  have "sint (undo_block k) \<le> sint (undo_block k')" if "(k', v') \<in> set m" for k' v'
  proof -
    have "k < k'" using Cons.prems(1) that by (force simp: r om_sorted_Cons)
    moreover have "length k = REORG_UNDO_LOG_KEY_SIZE" "length k' = REORG_UNDO_LOG_KEY_SIZE"
      "0 \<le> sint (undo_block k)" "0 \<le> sint (undo_block k')"
      using Cons.prems(2) that by (auto simp: r log_keys_ok_def)
    ultimately show ?thesis
      using undo_key_less [of "undo_block k" "undo_block k'" "undo_seq k" "undo_seq k'"]
        undo_key_of_fields [of k] undo_key_of_fields [of k'] by auto
  qed
  then show ?case using Cons by (auto simp: r om_sorted_Cons log_keys_ok_def)
qed simp

lemma takeWhile_sorted:
  "sorted (map f xs) \<Longrightarrow> takeWhile (\<lambda>x. f x \<le> (t :: 'a::linorder)) xs = filter (\<lambda>x. f x \<le> t) xs"
proof (induction xs)
  case (Cons x xs)
  show ?case
  proof (cases "f x \<le> t")
    case False
    then have "\<forall>y \<in> set xs. \<not> f y \<le> t" using Cons.prems by (auto intro: order_trans)
    then show ?thesis using False by simp
  qed (use Cons in simp)
qed simp

section \<open>Pruning\<close>

lemma prune_loop_rows:
  assumes "store_class s = Domain" and "\<forall>(k, v) \<in> set m. length k = REORG_UNDO_LOG_KEY_SIZE"
  shows "prune_loop s t (map Inr m) b n =
    (let ks = map fst (filter (\<lambda>(k, v). prunable k) (takeWhile (\<lambda>(k, v). sint (undo_block k) \<le> sint t) m))
     in (b\<lparr>batch := batch b @ map (Delete CF_REORG_UNDO_LOG_BY_BLOCK) ks\<rparr>, Inr (n + length ks)))"
  using assms(2)
proof (induction m arbitrary: b n)
  case (Cons r m)
  obtain k v where r: "r = (k, v)" by force
  have k: "length k = REORG_UNDO_LOG_KEY_SIZE" using Cons.prems by (simp add: r)
  have del: "delete_reorg_undo_log_key s b k = Inr (b\<lparr>batch := batch b @ [Delete CF_REORG_UNDO_LOG_BY_BLOCK k]\<rparr>)"
    using assms(1) by (simp add: delete_reorg_undo_log_key_def undo_cf_open batch_delete_cf_def is_append_only_store_def)
  show ?case
    using Cons by (simp add: r k undo_key_fields del prunable_def Let_def not_less)
qed simp

text \<open>A loop that got to its end did not need the rows behind an iterator error.\<close>

lemma prune_loop_error:
  "snd (prune_loop s t (map Inr m @ Inl e # items) b n) = Inr p \<Longrightarrow>
   prune_loop s t (map Inr m @ Inl e # items) b n = prune_loop s t (map Inr (m @ m')) b n"
proof (induction m arbitrary: b n)
  case (Cons r m)
  then show ?case by (cases r) (auto split: sum.splits prod.splits if_splits)
qed simp

lemma prune_rows:
  assumes "rocksdb R rows" and "store_class s = Domain" and "sint from_block < sint to_block"
    and "log_keys_ok (rows (db s) CF_REORG_UNDO_LOG_BY_BLOCK)"
    and "prune_entity_stats_undo_below R s b from_block to_block = (b', Inr n)"
  shows "(b', Inr n) = prune_loop s to_block
    (map Inr (om_from (encode_reorg_undo_log_key (from_block + 1) 0) (rows (db s) CF_REORG_UNDO_LOG_BY_BLOCK))) b 0"
proof -
  let ?k = "encode_reorg_undo_log_key (from_block + 1) 0" and ?u = CF_REORG_UNDO_LOG_BY_BLOCK
  have run: "prune_loop s to_block (db_from R (db s) ?u ?k) b 0 = (b', Inr n)"
    using assms(2,3,5) by (simp add: prune_entity_stats_undo_below_def undo_cf_open iterator_cf_from_def)
  consider "db_from R (db s) ?u ?k = map Inr (om_from ?k (rows (db s) ?u))"
    | m e items where "db_from R (db s) ?u ?k = map Inr (take m (om_from ?k (rows (db s) ?u))) @ Inl e # items"
    using rocksdb.iterate [OF assms(1)] by blast
  then show ?thesis
  proof cases
    case 2
    then show ?thesis
      using prune_loop_error [of s to_block "take m (om_from ?k (rows (db s) ?u))" e items b 0 n
          "drop m (om_from ?k (rows (db s) ?u))"] run by simp
  qed (use run in simp)
qed

text \<open>
  C28. Pruning from one floor to another stages exactly the entries of the entity-stats
  and derived scopes whose block is in \<open>(from_block, to_block]\<close>, in log order, and
  reports their number; entries of the other scopes and of other blocks are not touched.
\<close>

theorem prune_exact:
  assumes "rocksdb R rows" and "store_class s = Domain" and "- 1 \<le> sint from_block"
    and "log_keys_ok (rows (db s) CF_REORG_UNDO_LOG_BY_BLOCK)"
    and "prune_entity_stats_undo_below R s b from_block to_block = (b', Inr n)"
    and "ks = map fst (filter (\<lambda>(k, v). sint from_block < sint (undo_block k) \<and>
      sint (undo_block k) \<le> sint to_block \<and> prunable k) (rows (db s) CF_REORG_UNDO_LOG_BY_BLOCK))"
  shows "b' = b\<lparr>batch := batch b @ map (Delete CF_REORG_UNDO_LOG_BY_BLOCK) ks\<rparr> \<and> n = length ks"
proof (cases "sint from_block < sint to_block")
  case False
  then have "ks = []" using assms(6) by (auto simp: filter_empty_conv)
  then show ?thesis using False assms(5) by (simp add: prune_entity_stats_undo_below_def)
next
  case True
  let ?m = "rows (db s) CF_REORG_UNDO_LOG_BY_BLOCK" and ?k = "encode_reorg_undo_log_key (from_block + 1) 0"
  have ok: "log_keys_ok (om_from ?k ?m)" "\<forall>(k, v) \<in> set (om_from ?k ?m). length k = REORG_UNDO_LOG_KEY_SIZE"
    using assms(4) by (auto simp: log_keys_ok_def om_from_def)
  have "sint to_block < 2 ^ 63" using sint_lt [of to_block] by simp
  then have next_block: "sint (from_block + 1) = sint from_block + 1" using True by (intro sint_plus_one_i64) simp
  have "om_from ?k ?m = filter (\<lambda>(k, v). sint from_block < sint (undo_block k)) ?m"
    unfolding om_from_def
  proof (rule filter_cong)
    fix r
    assume "r \<in> set ?m"
    then show "(case r of (k, v) \<Rightarrow> ?k \<le> k) = (case r of (k, v) \<Rightarrow> sint from_block < sint (undo_block k))"
      using assms(3,4) undo_key_from(1) [of "fst r" "from_block + 1"] next_block
      by (auto simp: log_keys_ok_def case_prod_unfold)
  qed simp
  moreover have "takeWhile (\<lambda>(k, v). sint (undo_block k) \<le> sint to_block) (om_from ?k ?m) =
      filter (\<lambda>(k, v). sint (undo_block k) \<le> sint to_block) (om_from ?k ?m)"
    using takeWhile_sorted [OF log_blocks_sorted [OF om_sorted_from [OF rocksdb.rows_sorted [OF assms(1)]] ok(1)], of "sint to_block"]
    by (simp add: case_prod_unfold)
  moreover have "filter P (filter Q (filter S xs)) = filter (\<lambda>x. S x \<and> Q x \<and> P x) xs" for P Q S and xs :: "(bytes \<times> bytes) list"
    by (simp add: conj_ac)
  ultimately have "map fst (filter (\<lambda>(k, v). prunable k)
      (takeWhile (\<lambda>(k, v). sint (undo_block k) \<le> sint to_block) (om_from ?k ?m))) = ks"
    using assms(6) by (simp add: case_prod_unfold conj_ac)
  then show ?thesis
    using prune_rows [OF assms(1,2) True assms(4,5)] by (simp add: prune_loop_rows [OF assms(2) ok(2)])
qed

lemma example_log_keys_ok: "log_keys_ok [(example_log_key, [0])]" "undo_block example_log_key = 5" "prunable example_log_key"
  using example_log_key(1) scope_base(1) [of EntityStatsScope]
  by (simp_all add: log_keys_ok_def example_log_key_def undo_block_def undo_seq_def prunable_def owns_def
      encode_reorg_undo_log_key_def)

theorem prune_exact_witness:
  "prune_entity_stats_undo_below mem_rocks example_log_store new_batch 4 5 =
    (new_batch\<lparr>batch := [Delete CF_REORG_UNDO_LOG_BY_BLOCK example_log_key]\<rparr>, Inr 1)"
proof -
  have items: "db_from mem_rocks (db example_log_store) CF_REORG_UNDO_LOG_BY_BLOCK (encode_reorg_undo_log_key (4 + 1) 0) =
      map Inr (om_from (encode_reorg_undo_log_key 5 0) [(example_log_key, [0])])"
    by (simp add: mem.reliable_iterate [OF mem_reliable] example_rows)
  obtain b n where r: "prune_entity_stats_undo_below mem_rocks example_log_store new_batch 4 5 = (b, Inr n)"
    using prune_loop_rows [OF example_rows(3), of "om_from (encode_reorg_undo_log_key 5 0) [(example_log_key, [0])]" 5 new_batch 0]
      example_log_key(1) items
    by (auto simp: prune_entity_stats_undo_below_def example_rows undo_cf_open iterator_cf_from_def om_from_def Let_def)
  show ?thesis
    using prune_exact [OF mem.rocksdb_axioms example_rows(3) _ _ r refl] r
    by (simp add: example_rows example_log_keys_ok new_batch_def)
qed

section \<open>Probing\<close>

lemma probe_rows:
  assumes "\<forall>(k, v) \<in> set m. length k = REORG_UNDO_LOG_KEY_SIZE"
  shows "probe_after t (map Inr m) = Inr (\<exists>(k, v) \<in> set m. sint t < sint (undo_block k))"
  using assms
proof (induction m)
  case (Cons r m)
  obtain k v where r: "r = (k, v)" by force
  show ?case using Cons by (simp add: r undo_key_fields)
qed simp

lemma probe_error:
  "probe_after t (map Inr m @ Inl e # items) = Inr a \<Longrightarrow> a \<and> probe_after t (map Inr (m @ m')) = Inr True"
proof (induction m)
  case (Cons r m)
  then show ?case by (cases r) (auto simp: res_simps split: if_splits)
qed simp

text \<open>
  C29. The probe that a resumed sync uses to decide whether there is something to roll
  back answers exactly whether the log has an entry above the block.
\<close>

theorem probe_exact:
  assumes "rocksdb R rows" and "store_class s = Domain"
    and "log_keys_ok (rows (db s) CF_REORG_UNDO_LOG_BY_BLOCK)"
    and "has_undo_log_entries_after R s t = Inr found"
  shows "found \<longleftrightarrow> (\<exists>(k, v) \<in> set (rows (db s) CF_REORG_UNDO_LOG_BY_BLOCK). sint t < sint (undo_block k))"
proof -
  let ?m = "rows (db s) CF_REORG_UNDO_LOG_BY_BLOCK" and ?k = "to_be_bytes (t + 1)"
  have t: "- 1 \<le> sint t" "0 \<le> sint (t + 1)"
    and run: "probe_after t (db_from R (db s) CF_REORG_UNDO_LOG_BY_BLOCK ?k) = Inr found"
    using assms(2,4) by (auto simp: has_undo_log_entries_after_def res_simps encode_block_num_def undo_cf_open iterator_cf_from_def)
  have ok: "\<forall>(k, v) \<in> set (om_from ?k ?m). length k = REORG_UNDO_LOG_KEY_SIZE"
    using assms(3) by (auto simp: log_keys_ok_def om_from_def)
  have "probe_after t (map Inr (om_from ?k ?m)) = Inr found"
    using rocksdb.iterate [OF assms(1), of "db s" CF_REORG_UNDO_LOG_BY_BLOCK ?k] run probe_error
    by (metis append_take_drop_id)
  then have found: "found \<longleftrightarrow> (\<exists>(k, v) \<in> set (om_from ?k ?m). sint t < sint (undo_block k))"
    by (simp add: probe_rows [OF ok])
  have "?k \<le> k" if "(k, v) \<in> set ?m" "sint t < sint (undo_block k)" for k v
  proof -
    have "sint t < 2 ^ 63 - 1" using that(2) sint_lt [of "undo_block k"] by simp
    then have "sint (t + 1) = sint t + 1" by (rule sint_plus_one_i64)
    then show ?thesis using undo_key_from(2) [of k "t + 1"] assms(3) that t(1) by (auto simp: log_keys_ok_def)
  qed
  then show ?thesis unfolding found by (auto simp: om_from_def)
qed

theorem probe_exact_witness: "has_undo_log_entries_after mem_rocks example_log_store 4 = Inr True"
proof -
  obtain found where r: "has_undo_log_entries_after mem_rocks example_log_store 4 = Inr found"
    using probe_rows [of "om_from (to_be_bytes (5 :: i64)) [(example_log_key, [0])]" 4] example_log_key(1)
    by (auto simp: has_undo_log_entries_after_def encode_block_num_def example_rows undo_cf_open iterator_cf_from_def
        mem.reliable_iterate [OF mem_reliable] om_from_def)
  show ?thesis
    using probe_exact [OF mem.rocksdb_axioms example_rows(3) _ r] r by (simp add: example_rows example_log_keys_ok)
qed

end
