(* ===== verification/Decimal.thy ===== *)
theory Decimal
  imports Prelude
begin

text \<open>
  Decimal text of unsigned integers, as Rust's \<open>to_string\<close> and \<open>{:0k}\<close> print it, and
  fixed-point numbers: \<open>show_fixed k q\<close> is \<open>q\<close> with a point before its last \<open>k\<close> digits.
\<close>

definition digit_char :: "nat \<Rightarrow> char" where
  "digit_char d = char_of (48 + d)"

fun show_nat :: "nat \<Rightarrow> string" where
  "show_nat n = (if n < 10 then [digit_char n] else show_nat (n div 10) @ [digit_char (n mod 10)])"

declare show_nat.simps [simp del]

fun pad_nat :: "nat \<Rightarrow> nat \<Rightarrow> string" where
  "pad_nat 0 n = []"
| "pad_nat (Suc k) n = pad_nat k (n div 10) @ [digit_char (n mod 10)]"

definition show_fixed :: "nat \<Rightarrow> nat \<Rightarrow> string" where
  "show_fixed k q = (if k = 0 then show_nat q else show_nat (q div 10 ^ k) @ ''.'' @ pad_nat k (q mod 10 ^ k))"

section \<open>Digit lists\<close>

definition digits_val :: "nat list \<Rightarrow> nat" where
  "digits_val ds = foldl (\<lambda>a d. a * 10 + d) 0 ds"

lemma digits_val_snoc [simp]: "digits_val [] = 0" "digits_val (ds @ [d]) = digits_val ds * 10 + d"
  by (simp_all add: digits_val_def)

lemma digits_val_append: "digits_val (xs @ ys) = digits_val xs * 10 ^ length ys + digits_val ys"
  by (induction ys rule: rev_induct) (simp_all flip: append_assoc add: algebra_simps)

lemma digits_val_Cons: "digits_val (d # ds) = d * 10 ^ length ds + digits_val ds"
  using digits_val_append [of "[d]" ds] by (simp add: digits_val_def)

lemma digits_val_less: "\<forall>d \<in> set ds. d < 10 \<Longrightarrow> digits_val ds < 10 ^ length ds"
  by (induction ds rule: rev_induct) auto

lemma pad_nat_digits: "\<forall>d \<in> set ds. d < 10 \<Longrightarrow> pad_nat (length ds) (digits_val ds) = map digit_char ds"
  by (induction ds rule: rev_induct) simp_all

lemma length_pad_nat [simp]: "length (pad_nat k n) = k"
  by (induction k arbitrary: n) simp_all

lemma digit_char_code: "d < 10 \<Longrightarrow> (of_char (digit_char d) :: nat) = 48 + d"
  by (simp add: digit_char_def)

lemma digit_char_0: "d < 10 \<Longrightarrow> digit_char d = CHR ''0'' \<longleftrightarrow> d = 0"
proof -
  assume d: "d < 10"
  have "(of_char (CHR ''0'') :: nat) = 48" by simp
  then have "digit_char d = CHR ''0'' \<longleftrightarrow> 48 + d = (48 :: nat)"
    using digit_char_code [OF d] by (metis of_char_eq_iff)
  then show ?thesis by simp
qed

lemma digit_char_point: "d < 10 \<Longrightarrow> CHR ''.'' \<noteq> digit_char d"
proof
  assume "d < 10" "CHR ''.'' = digit_char d"
  then have "(of_char (CHR ''.'') :: nat) = 48 + d" using digit_char_code by simp
  then show False by simp
qed

lemma no_point_pad: "CHR ''.'' \<notin> set (pad_nat k n)"
  by (induction k arbitrary: n) (simp_all add: digit_char_point)

lemma no_point_show: "CHR ''.'' \<notin> set (show_nat n)"
proof (induction n rule: show_nat.induct)
  case (1 n)
  then show ?case by (cases "n < 10") (simp_all add: show_nat.simps [of n] digit_char_point)
qed

text \<open>No number but zero starts with a zero, so trimming zeros undoes padding.\<close>

lemma show_nat_first: "0 < n \<Longrightarrow> hd (show_nat n) \<noteq> CHR ''0'' \<and> show_nat n \<noteq> []"
proof (induction n rule: show_nat.induct)
  case (1 n)
  show ?case
  proof (cases "n < 10")
    case True
    then show ?thesis using 1 by (simp add: show_nat.simps [of n] digit_char_0)
  next
    case False
    then show ?thesis using 1 by (simp add: show_nat.simps [of n] hd_append)
  qed
qed

lemma show_nat_pad: "0 < w \<Longrightarrow> show_nat (w * 10 ^ k + f) = show_nat w @ pad_nat k f" if "f < 10 ^ k"
  using that
proof (induction k arbitrary: f)
  case (Suc k)
  have f: "f div 10 < 10 ^ k" using Suc.prems(2) by (simp add: less_mult_imp_div_less mult.commute)
  have eq: "(w * 10 ^ Suc k + f) div 10 = w * 10 ^ k + f div 10" "(w * 10 ^ Suc k + f) mod 10 = f mod 10"
    by (simp_all add: div_add1_eq mod_add_eq [symmetric, of "w * (10 * 10 ^ k)"])
  have "\<not> w * 10 ^ Suc k + f < 10" using Suc.prems(1) by (simp add: not_less trans_le_add1)
  then show ?case
    using Suc.IH [OF Suc.prems(1) f] by (subst show_nat.simps) (simp only: eq pad_nat.simps, simp)
qed simp

lemma pad_nat_split: "pad_nat (j + k) n = pad_nat j (n div 10 ^ k) @ pad_nat k (n mod 10 ^ k)"
proof (induction k arbitrary: n)
  case (Suc k)
  have "n mod 10 ^ Suc k div 10 = n div 10 mod 10 ^ k" by (simp add: mod_mult2_eq)
  moreover have "n mod 10 ^ Suc k mod 10 = n mod 10" by (simp add: mod_mod_cancel)
  ultimately show ?case using Suc [of "n div 10"] by (simp add: div_mult2_eq)
qed simp

lemma show_0: "show_nat 0 = ''0''"
  using digit_char_0 [of 0] by (simp add: show_nat.simps)

lemma trim_pad: "n < 10 ^ k \<Longrightarrow> dropWhile (\<lambda>c. c = CHR ''0'') (pad_nat k n) = (if n = 0 then [] else show_nat n)"
proof (induction k arbitrary: n)
  case (Suc k)
  have less: "n div 10 < 10 ^ k" using Suc.prems by (simp add: less_mult_imp_div_less mult.commute)
  note ih = Suc.IH [OF less]
  show ?case
  proof (cases "n < 10")
    case True
    then show ?thesis using ih by (auto simp: dropWhile_append dropWhile_eq_Nil_conv digit_char_0 show_nat.simps [of n])
  next
    case False
    then have "n div 10 \<noteq> 0" by simp
    then have "dropWhile (\<lambda>c. c = CHR ''0'') (pad_nat k (n div 10)) = show_nat (n div 10)" using ih by simp
    note shown = this
    have "show_nat (n div 10) \<noteq> []" using False show_nat_first [of "n div 10"] by simp
    then have "\<not> (\<forall>c \<in> set (pad_nat k (n div 10)). c = CHR ''0'')"
      using shown by (simp flip: dropWhile_eq_Nil_conv)
    then show ?thesis using False shown by (simp add: dropWhile_append show_nat.simps [of n]) blast
  qed
qed simp

lemma trim_show:
  assumes "f < 10 ^ k"
  shows "(let t = dropWhile (\<lambda>c. c = CHR ''0'') (show_nat w @ pad_nat k f) in if t = [] then ''0'' else t) =
    show_nat (w * 10 ^ k + f)"
proof (cases "w = 0")
  case True
  then show ?thesis using trim_pad [OF assms] show_nat_first [of f] by (simp add: show_0)
next
  case False
  then have "show_nat w @ pad_nat k f = show_nat (w * 10 ^ k + f)" using show_nat_pad [OF assms] by simp
  moreover have "hd (show_nat (w * 10 ^ k + f)) \<noteq> CHR ''0''" "show_nat (w * 10 ^ k + f) \<noteq> []"
    using show_nat_first [of "w * 10 ^ k + f"] False by simp_all
  ultimately show ?thesis by (cases "show_nat (w * 10 ^ k + f)") auto
qed

section \<open>Half-up rounding\<close>

lemma half_up: "D \<le> 2 * r \<longleftrightarrow> D div 2 + D mod 2 \<le> (r :: nat)"
  by presburger

lemma rounded_quotient:
  assumes "r < (D :: nat)" and "N = Q * D + r"
  shows "(2 * N + D) div (2 * D) = (if D div 2 + D mod 2 \<le> r then Q + 1 else Q)"
proof -
  have "2 * N + D = (2 * r + D) + 2 * D * Q" using assms(2) by (simp add: algebra_simps)
  then have "(2 * N + D) div (2 * D) = Q + (2 * r + D) div (2 * D)"
    using assms(1) div_mult_self2 [of "2 * D" "2 * r + D" Q] by (simp only:)
  moreover have "(2 * r + D) div (2 * D) = (if D \<le> 2 * r then 1 else 0)"
    using assms(1) by (auto intro: div_nat_eqI)
  ultimately show ?thesis using half_up [of D r] by simp
qed

lemma pad_2:
  assumes "c < 100"
  shows "replicate (2 - length (show_nat c)) CHR ''0'' @ show_nat c = pad_nat 2 c"
proof (cases "c < 10")
  case True
  then show ?thesis using digit_char_0 [of 0] by (simp add: show_nat.simps [of c] numeral_2_eq_2)
next
  case False
  then have "c div 10 < 10" using assms by simp
  then show ?thesis using False by (simp add: show_nat.simps [of c] show_nat.simps [of "c div 10"] numeral_2_eq_2)
qed

end
