(* ===== verification/Exact_Ratio.thy ===== *)
theory Exact_Ratio
  imports Decimal
begin

text \<open>
  \<^verbatim>\<open>crates/api/src/utils/exact_ratio.rs\<close>: ratios and percentages of chain-sized
  integers printed with exact half-up rounding. The digits are produced by long
  division in which ten modular additions stand for a multiplication by ten, and the
  rounding carries through the digits; \<open>i128\<close> and \<open>u128\<close> are \<open>128 word\<close>.
\<close>

type_synonym u128 = "128 word"
type_synonym i128 = "128 word"

section \<open>The code\<close>

text \<open>The inner loop \<open>for _ in 0..10\<close>, with its number of rounds left.\<close>

fun modular_additions :: "nat \<Rightarrow> u128 \<Rightarrow> u128 \<Rightarrow> u128 \<Rightarrow> u8 \<Rightarrow> u128 \<times> u8" where
  "modular_additions 0 divisor prior_remainder next_remainder digit = (next_remainder, digit)"
| "modular_additions (Suc i) divisor prior_remainder next_remainder digit =
     (if divisor - prior_remainder \<le> next_remainder
      then modular_additions i divisor prior_remainder (next_remainder - (divisor - prior_remainder)) (digit + 1)
      else modular_additions i divisor prior_remainder (next_remainder + prior_remainder) digit)"

fun ratio_digits :: "nat \<Rightarrow> u128 \<Rightarrow> u128 \<Rightarrow> u8 list \<Rightarrow> u8 list \<times> u128" where
  "ratio_digits 0 divisor remainder digits = (digits, remainder)"
| "ratio_digits (Suc i) divisor remainder digits =
     (case modular_additions 10 divisor remainder 0 0 of
        (next_remainder, digit) \<Rightarrow> ratio_digits i divisor next_remainder (digits @ [digit]))"

text \<open>\<open>for digit in digits.iter_mut().rev()\<close>: the reversed digits and whether the carry is left.\<close>

fun carry_digits :: "u8 list \<Rightarrow> u8 list \<times> bool" where
  "carry_digits [] = ([], True)"
| "carry_digits (digit # digits) =
     (if digit = 9 then (case carry_digits digits of (digits', carry) \<Rightarrow> (0 # digits', carry))
      else ((digit + 1) # digits, False))"

definition format_ratio :: "i128 \<Rightarrow> i128 \<Rightarrow> u32 \<Rightarrow> string res" where
  "format_ratio numerator denominator decimals =
     (if sint numerator < 0 \<or> sint denominator \<le> 0 then Inl (Bail ''invalid ratio'')
      else if 18 < decimals then Inl (Bail ''unsupported ratio precision'')
      else
        let divisor = denominator;
            whole = numerator div divisor;
            (digits, remainder) = ratio_digits (unat decimals) divisor (numerator mod divisor) [];
            (whole, digits) =
              (if divisor div 2 + divisor mod 2 \<le> remainder
               then (case carry_digits (rev digits) of
                       (digits', carry) \<Rightarrow> (if carry then whole + 1 else whole, rev digits'))
               else (whole, digits))
        in Inr (if digits = [] then show_nat (unat whole)
                else show_nat (unat whole) @ ''.'' @ map (\<lambda>digit. char_of (unat (48 + digit))) digits))"

text \<open>\<open>trim_start_matches('0')\<close>, with an empty text read as zero.\<close>

definition trim_integer :: "string \<Rightarrow> string" where
  "trim_integer s = (let trimmed = dropWhile (\<lambda>c. c = CHR ''0'') s in if trimmed = [] then ''0'' else trimmed)"

definition format_percent :: "i128 \<Rightarrow> i128 \<Rightarrow> u32 \<Rightarrow> string res" where
  "format_percent numerator denominator decimals =
     rbind (ensure (uint decimals + 2 < 2 ^ 32) (Bail ''percentage precision overflow'')) (\<lambda>_.
     rbind (format_ratio numerator denominator (decimals + 2)) (\<lambda>ratio.
     rbind (ensure (CHR ''.'' \<in> set ratio) (Bail ''percentage requires fractional digits'')) (\<lambda>_.
     let whole = takeWhile (\<lambda>c. c \<noteq> CHR ''.'') ratio;
         fraction = tl (dropWhile (\<lambda>c. c \<noteq> CHR ''.'') ratio);
         integer_tail = take 2 fraction;
         decimal_tail = drop 2 fraction;
         integer = trim_integer (whole @ integer_tail)
     in Inr (if decimals = 0 then integer else integer @ ''.'' @ decimal_tail))))"

definition format_share_4 :: "i64 \<Rightarrow> i64 \<Rightarrow> string option res" where
  "format_share_4 numerator denominator =
     (if sint numerator < 0 \<or> sint denominator < 0 \<or> sint denominator < sint numerator
      then Inl (Bail ''invalid share'')
      else if denominator = 0 then Inr None
      else rbind (format_ratio (signed numerator) (signed denominator) 4) (\<lambda>t. Inr (Some t)))"

section \<open>Long division\<close>

lemma unat_less_128: "unat (w :: u128) < 340282366920938463463374607431768211456"
  using unsigned_less [of w] by simp

lemma modular_additions_spec:
  assumes "prior < divisor" and "r < divisor" and "unat digit + i < 256"
    and "modular_additions i divisor prior r digit = (r', digit')"
  shows "\<exists>q \<le> i. unat digit' = unat digit + q \<and> r' < divisor \<and>
    unat r + i * unat prior = unat r' + q * unat divisor"
  using assms(2-)
proof (induction i arbitrary: r digit)
  case (Suc i)
  note unats = word_less_nat_alt word_le_nat_alt
  have less: "unat prior < unat divisor" "unat r < unat divisor" using assms(1) Suc.prems(1) by (simp_all add: unats)
  then have gap: "unat (divisor - prior) = unat divisor - unat prior" by (simp add: unat_sub unats)
  show ?case
  proof (cases "divisor - prior \<le> r")
    case True
    then have sub: "unat (r - (divisor - prior)) = unat r + unat prior - unat divisor"
      using gap less by (simp add: unat_sub unats)
    have dig: "unat (digit + 1) = unat digit + 1" using Suc.prems(2) by (simp add: unat_word_ariths)
    have "r - (divisor - prior) < divisor" using sub less by (simp add: unats)
    then obtain q where "q \<le> i" "unat digit' = unat (digit + 1) + q" "r' < divisor"
        "unat (r - (divisor - prior)) + i * unat prior = unat r' + q * unat divisor"
      using Suc.IH [of "r - (divisor - prior)" "digit + 1"] Suc.prems dig True by auto
    then show ?thesis using sub dig True gap less by (intro exI [of _ "Suc q"]) (auto simp: unats)
  next
    case False
    then have room: "unat r + unat prior < unat divisor" using gap less by (simp add: unats)
    then have add: "unat (r + prior) = unat r + unat prior"
      using unat_less_128 [of divisor] by (simp add: unat_word_ariths)
    have "r + prior < divisor" using add room by (simp add: unats)
    then obtain q where "q \<le> i" "unat digit' = unat digit + q" "r' < divisor"
        "unat (r + prior) + i * unat prior = unat r' + q * unat divisor"
      using Suc.IH [of "r + prior" digit] Suc.prems False by auto
    then show ?thesis using add by (intro exI [of _ q]) auto
  qed
qed simp

lemma next_digit:
  assumes "r < divisor" and "modular_additions 10 divisor r 0 0 = (r', digit)"
  shows "unat digit < 10" "r' < divisor" "10 * unat r = unat r' + unat digit * unat divisor"
proof -
  have "(0 :: u128) < divisor" using assms(1) by (simp add: word_less_nat_alt)
  then obtain q where q: "q \<le> 10" "unat digit = q" "r' < divisor" "10 * unat r = unat r' + q * unat divisor"
    using modular_additions_spec [of r divisor 0 0 10 r' digit] assms by auto
  have "10 * unat r < 10 * unat divisor" using assms(1) by (simp add: word_less_nat_alt)
  then have "q * unat divisor < 10 * unat divisor" using q(4) by linarith
  then show "unat digit < 10" "r' < divisor" "10 * unat r = unat r' + unat digit * unat divisor" using q by simp_all
qed

lemma ratio_digits_spec:
  assumes "r < divisor" and "\<forall>d \<in> set ds. unat d < 10" and "ratio_digits k divisor r ds = (ds', r')"
  shows "\<exists>new. ds' = ds @ new \<and> length new = k \<and> (\<forall>d \<in> set new. unat d < 10) \<and> r' < divisor \<and>
    10 ^ k * unat r = unat r' + digits_val (map unat new) * unat divisor"
  using assms
proof (induction k arbitrary: r ds)
  case (Suc k)
  obtain r1 d where step: "modular_additions 10 divisor r 0 0 = (r1, d)" by force
  note d = next_digit [OF Suc.prems(1) step]
  obtain new where new: "ds' = (ds @ [d]) @ new" "length new = k" "\<forall>x \<in> set new. unat x < 10" "r' < divisor"
      "10 ^ k * unat r1 = unat r' + digits_val (map unat new) * unat divisor"
    using Suc.IH [of r1 "ds @ [d]"] Suc.prems d step by auto
  have "10 ^ Suc k * unat r = 10 ^ k * (unat r1 + unat d * unat divisor)" using d(3) by simp
  also have "\<dots> = unat r' + (unat d * 10 ^ k + digits_val (map unat new)) * unat divisor"
    using new(5) by (simp add: algebra_simps)
  finally show ?case
    using new d by (intro exI [of _ "d # new"]) (simp add: digits_val_Cons)
qed simp

section \<open>Rounding\<close>

lemma carry_digits_spec:
  assumes "\<forall>d \<in> set ds. unat d < 10" and "carry_digits (rev ds) = (ds', carry)"
  shows "length ds' = length ds \<and> (\<forall>d \<in> set ds'. unat d < 10) \<and>
    digits_val (map unat (rev ds')) + (if carry then 10 ^ length ds else 0) = digits_val (map unat ds) + 1"
  using assms
proof (induction ds arbitrary: ds' rule: rev_induct)
  case (snoc d ds)
  show ?case
  proof (cases "d = 9")
    case True
    then show ?thesis using snoc by (auto simp: split: prod.splits)
  next
    case False
    then have "unat d \<noteq> unat (9 :: u8)" by (metis word_unat_eq_iff)
    then have "unat d < 9" using snoc.prems(1) by fastforce
    then have "unat (d + 1) = unat d + 1" by (simp add: unat_word_ariths)
    then show ?thesis using False snoc.prems \<open>unat d < 9\<close> by (auto simp: rev_map)
  qed
qed auto

lemma digit_text: "unat (d :: u8) < 10 \<Longrightarrow> char_of (unat (48 + d)) = digit_char (unat d)"
  by (simp add: digit_char_def unat_word_ariths)

lemma fixed_text:
  assumes "\<forall>d \<in> set ds. unat (d :: u8) < 10"
  shows "(if ds = [] then show_nat w else show_nat w @ ''.'' @ map (\<lambda>d. char_of (unat (48 + d))) ds) =
    show_fixed (length ds) (w * 10 ^ length ds + digits_val (map unat ds))"
proof -
  have "map (\<lambda>d. char_of (unat (48 + d))) ds = map digit_char (map unat ds)"
    using assms digit_text by simp
  moreover have "pad_nat (length ds) (digits_val (map unat ds)) = map digit_char (map unat ds)"
    using pad_nat_digits [of "map unat ds"] assms by simp
  moreover have "digits_val (map unat ds) < 10 ^ length ds" using digits_val_less [of "map unat ds"] assms by simp
  ultimately show ?thesis by (simp add: show_fixed_def digits_val_def)
qed

definition ratio_text :: "nat \<Rightarrow> nat \<Rightarrow> nat \<Rightarrow> string" where
  "ratio_text n d k = show_fixed k ((2 * (n * 10 ^ k) + d) div (2 * d))"

lemma ratio_division:
  fixes numerator denominator :: i128
  assumes "0 \<le> sint numerator" and "0 < sint denominator"
    and "ratio_digits k denominator (numerator mod denominator) [] = (ds, r)"
  shows "length ds = k" "\<forall>d \<in> set ds. unat d < 10" "unat r < unat denominator"
    "unat (numerator div denominator) < 2 ^ 127"
    "unat numerator * 10 ^ k =
      (unat (numerator div denominator) * 10 ^ k + digits_val (map unat ds)) * unat denominator + unat r"
proof -
  let ?N = "unat numerator" and ?D = "unat denominator"
  have pos: "0 < ?D" using assms(2) by (metis gr0I order_less_irrefl signed_0 unat_eq_zero)
  have "int ?N < int (2 ^ 127)"
    using sint_lt [of numerator] sint_eq_uint_nonneg [OF assms(1)] by simp
  then have small: "?N < 2 ^ 127" by (simp only: of_nat_less_iff)
  have r0: "numerator mod denominator < denominator" "unat (numerator mod denominator) = ?N mod ?D"
    "unat (numerator div denominator) = ?N div ?D"
    using pos by (simp_all add: word_less_nat_alt unat_mod unat_div)
  have ds: "length ds = k" "\<forall>d \<in> set ds. unat d < 10" "unat r < ?D"
      "10 ^ k * (?N mod ?D) = unat r + digits_val (map unat ds) * ?D"
    using ratio_digits_spec [OF r0(1) _ assms(3)] r0 by (auto simp: word_less_nat_alt)
  then show "length ds = k" "\<forall>d \<in> set ds. unat d < 10" "unat r < ?D" by simp_all
  show "unat (numerator div denominator) < 2 ^ 127"
    unfolding r0(3) by (rule order_le_less_trans [OF div_le_dividend small])
  have "?N * 10 ^ k = (?N div ?D * ?D + ?N mod ?D) * 10 ^ k" by (simp only: div_mult_mod_eq)
  also have "\<dots> = ?N div ?D * ?D * 10 ^ k + 10 ^ k * (?N mod ?D)"
    unfolding add_mult_distrib by (simp only: mult.commute)
  also have "\<dots> = (?N div ?D * 10 ^ k + digits_val (map unat ds)) * ?D + unat r"
    unfolding ds(4) by (simp add: algebra_simps)
  finally show "?N * 10 ^ k = (unat (numerator div denominator) * 10 ^ k + digits_val (map unat ds)) * ?D + unat r"
    by (simp only: r0(3))
qed

lemma half_up_word: "(d :: u128) div 2 + d mod 2 \<le> r \<longleftrightarrow> unat d div 2 + unat d mod 2 \<le> unat r"
  using unat_less_128 [of d] by (simp add: word_le_nat_alt unat_word_ariths unat_div unat_mod)

lemma format_ratio_eq:
  assumes "0 \<le> sint numerator" and "0 < sint denominator" and "decimals \<le> 18"
  shows "format_ratio numerator denominator decimals =
    Inr (ratio_text (unat numerator) (unat denominator) (unat decimals))"
proof -
  let ?D = "unat denominator" and ?k = "unat decimals" and ?w = "numerator div denominator"
  obtain ds r where split: "ratio_digits ?k denominator (numerator mod denominator) [] = (ds, r)" by force
  note ds = ratio_division [OF assms(1,2) split]
  note round = rounded_quotient [OF ds(3,5)]
  define out where "out w ds =
    (if ds = [] then show_nat (unat w) else show_nat (unat w) @ ''.'' @ map (\<lambda>d. char_of (unat (48 + d))) ds)"
    for w :: u128 and ds :: "u8 list"
  have guards: "\<not> (sint numerator < 0 \<or> sint denominator \<le> 0)" "\<not> 18 < decimals" using assms by auto
  show ?thesis
  proof (cases "?D div 2 + ?D mod 2 \<le> unat r")
    case False
    then have "format_ratio numerator denominator decimals = Inr (out ?w ds)"
      unfolding format_ratio_def Let_def split prod.case if_not_P [OF guards(1)] if_not_P [OF guards(2)] half_up_word out_def
      by simp
    also have "out ?w ds = show_fixed ?k (unat ?w * 10 ^ ?k + digits_val (map unat ds))"
      using fixed_text [OF ds(2), of "unat ?w"] ds(1) by (simp add: out_def)
    finally show ?thesis using round False by (simp add: ratio_text_def)
  next
    case True
    obtain ds' carry where c: "carry_digits (rev ds) = (ds', carry)" by force
    note cs = carry_digits_spec [OF ds(2) c]
    let ?w' = "if carry then ?w + 1 else ?w"
    have w': "unat ?w' = unat ?w + (if carry then 1 else 0)" using ds(4) by (simp add: unat_word_ariths)
    have "format_ratio numerator denominator decimals = Inr (out ?w' (rev ds'))"
      using True
      unfolding format_ratio_def Let_def split prod.case if_not_P [OF guards(1)] if_not_P [OF guards(2)] half_up_word c out_def
      by simp
    also have "out ?w' (rev ds') = show_fixed ?k (unat ?w' * 10 ^ ?k + digits_val (map unat (rev ds')))"
      using fixed_text [of "rev ds'" "unat ?w'"] cs ds(1) by (simp add: out_def)
    also have "unat ?w' * 10 ^ ?k + digits_val (map unat (rev ds')) = unat ?w * 10 ^ ?k + digits_val (map unat ds) + 1"
      using cs ds(1) w' by (auto simp: algebra_simps)
    finally show ?thesis using round True by (simp add: ratio_text_def)
  qed
qed

section \<open>Percentages\<close>

lemma percent_text:
  assumes "k2 = k + 2"
  shows "(let whole = takeWhile (\<lambda>c. c \<noteq> CHR ''.'') (show_fixed k2 q);
         fraction = tl (dropWhile (\<lambda>c. c \<noteq> CHR ''.'') (show_fixed k2 q));
         integer = trim_integer (whole @ take 2 fraction)
     in if k = 0 then integer else integer @ ''.'' @ drop 2 fraction) = show_fixed k q"
proof -
  let ?w = "q div 10 ^ k2" and ?f = "q mod 10 ^ k2"
  have shown: "show_fixed k2 q = show_nat ?w @ CHR ''.'' # pad_nat k2 ?f" using assms by (simp add: show_fixed_def)
  have whole: "takeWhile (\<lambda>c. c \<noteq> CHR ''.'') (show_fixed k2 q) = show_nat ?w"
    unfolding shown using no_point_show [of ?w] by (subst takeWhile_append2) auto
  have frac: "tl (dropWhile (\<lambda>c. c \<noteq> CHR ''.'') (show_fixed k2 q)) = pad_nat k2 ?f"
    unfolding shown using no_point_show [of ?w] by (subst dropWhile_append2) auto
  have pad: "pad_nat k2 ?f = pad_nat 2 (?f div 10 ^ k) @ pad_nat k (?f mod 10 ^ k)"
    using pad_nat_split [of 2 k ?f] assms by (simp add: add.commute)
  have small: "?f div 10 ^ k < 10 ^ 2" using assms by (simp add: less_mult_imp_div_less power_add)
  have int_part: "?w * 10 ^ 2 + ?f div 10 ^ k = q div 10 ^ k"
    unfolding assms power_add div_mult2_eq mod_mult2_eq by simp
  have "trim_integer (show_nat ?w @ pad_nat 2 (?f div 10 ^ k)) = show_nat (q div 10 ^ k)"
    using trim_show [OF small, of ?w] unfolding int_part trim_integer_def .
  moreover have "?f mod 10 ^ k = q mod 10 ^ k" using assms by (simp add: mod_mod_cancel le_imp_power_dvd)
  moreover have "take 2 (pad_nat k2 ?f) = pad_nat 2 (?f div 10 ^ k)" "drop 2 (pad_nat k2 ?f) = pad_nat k (?f mod 10 ^ k)"
    unfolding pad by simp_all
  ultimately show ?thesis unfolding whole frac Let_def by (cases "k = 0") (simp_all add: show_fixed_def)
qed

lemma format_ratio_refused:
  "\<not> (0 \<le> sint n \<and> 0 < sint d \<and> k \<le> 18) \<Longrightarrow> \<not> is_ok (format_ratio n d k)"
  by (auto simp: format_ratio_def)

lemma precision: "uint (k :: u32) + 2 < 2 ^ 32 \<Longrightarrow> unat (k + 2) = unat k + 2"
proof -
  assume "uint k + 2 < 2 ^ 32"
  then have "int (unat k + 2) < int (2 ^ 32)" by simp
  then have "unat k + 2 < 2 ^ 32" by (simp only: of_nat_less_iff)
  then show ?thesis by (simp add: unat_word_ariths)
qed

lemma format_percent_refused:
  assumes "\<not> (0 \<le> sint n \<and> 0 < sint d \<and> k \<le> 16)"
  shows "\<not> is_ok (format_percent n d k)"
proof (cases "uint k + 2 < 2 ^ 32")
  case True
  have "k + 2 \<le> 18 \<longleftrightarrow> k \<le> 16" using precision [OF True] by (simp add: word_le_nat_alt)
  then have "\<not> is_ok (format_ratio n d (k + 2))" using assms format_ratio_refused by blast
  then obtain e where "format_ratio n d (k + 2) = Inl e" by (cases "format_ratio n d (k + 2)") auto
  then show ?thesis using True by (simp add: format_percent_def)
qed (simp add: format_percent_def)

lemma format_percent_eq:
  assumes "0 \<le> sint n" and "0 < sint d" and "k \<le> 16"
  shows "format_percent n d k = Inr (show_fixed (unat k) ((2 * (unat n * 10 ^ (unat k + 2)) + unat d) div (2 * unat d)))"
proof -
  have k: "unat k \<le> 16" using assms(3) by (simp add: word_le_nat_alt)
  then have "int (unat k) \<le> int 16" by (simp only: of_nat_le_iff)
  then have room: "uint k + 2 < 2 ^ 32" by simp
  note k2 = precision [OF room]
  have "k + 2 \<le> 18" using k k2 by (simp add: word_le_nat_alt)
  from format_ratio_eq [OF assms(1,2) this]
  have ratio: "format_ratio n d (k + 2) = Inr (show_fixed (unat (k + 2)) ((2 * (unat n * 10 ^ (unat k + 2)) + unat d) div (2 * unat d)))"
    by (simp only: ratio_text_def k2)
  have "k = 0 \<longleftrightarrow> unat k = 0" by (simp add: unat_eq_0)
  moreover have "CHR ''.'' \<in> set (show_fixed (unat (k + 2)) q)" for q unfolding k2 by (simp add: show_fixed_def)
  ultimately show ?thesis
    using percent_text [OF k2] room unfolding format_percent_def ratio Let_def by simp
qed

text \<open>
  C37. Every ratio the code accepts is printed with exactly half-up rounding: the text is
  the nearest number of \<open>k\<close> decimals, ties up, whatever the size of the operands; a percentage
  is the same of the ratio times 100, without ever forming that product; and the inputs
  refused are exactly negative numerators, denominators that are not positive, and more than 18
  decimals for a ratio or 16 for a percentage.
\<close>

theorem exact_ratio_half_up:
  "(if 0 \<le> sint n \<and> 0 < sint d \<and> k \<le> 18
    then format_ratio n d k = Inr (show_fixed (unat k) ((2 * (unat n * 10 ^ unat k) + unat d) div (2 * unat d)))
    else \<not> is_ok (format_ratio n d k)) \<and>
   (if 0 \<le> sint n \<and> 0 < sint d \<and> k \<le> 16
    then format_percent n d k =
      Inr (show_fixed (unat k) ((2 * (unat n * 10 ^ (unat k + 2)) + unat d) div (2 * unat d)))
    else \<not> is_ok (format_percent n d k))"
proof (rule conjI)
  show "if 0 \<le> sint n \<and> 0 < sint d \<and> k \<le> 18
    then format_ratio n d k = Inr (show_fixed (unat k) ((2 * (unat n * 10 ^ unat k) + unat d) div (2 * unat d)))
    else \<not> is_ok (format_ratio n d k)"
    using format_ratio_eq [of n d k] format_ratio_refused [of n d k] by (auto simp: ratio_text_def)
  show "if 0 \<le> sint n \<and> 0 < sint d \<and> k \<le> 16
    then format_percent n d k =
      Inr (show_fixed (unat k) ((2 * (unat n * 10 ^ (unat k + 2)) + unat d) div (2 * unat d)))
    else \<not> is_ok (format_percent n d k)"
    using format_percent_eq [of n d k] format_percent_refused [of n d k] by (auto simp: ratio_text_def)
qed

end
