(* ===== verification/Fee_Rate.thy ===== *)
theory Fee_Rate
  imports Complex_Main Decimal Ordered_Map
begin

text \<open>
  \<^verbatim>\<open>crates/api/src/utils/exact_fee.rs\<close>: exact fee rates, their order, mean and
  median. \<open>BigUint\<close> (\<open>num_bigint\<close>) and \<open>Integer::gcd\<close> (\<open>num_integer\<close>) are third-party
  code, so the operations the code calls are the parameter \<open>B\<close>; the locale \<open>biguint\<close>
  states what they are documented to do on the natural number a value denotes.
\<close>

section \<open>The operations of BigUint the code calls\<close>

record 'b big_ops =
  big_from :: "nat \<Rightarrow> 'b"
  big_default :: 'b
  big_add :: "'b \<Rightarrow> 'b \<Rightarrow> 'b"
  big_mul :: "'b \<Rightarrow> 'b \<Rightarrow> 'b"
  big_div_rem :: "'b \<Rightarrow> 'b \<Rightarrow> 'b \<times> 'b"
  big_rem_u64 :: "'b \<Rightarrow> u64 \<Rightarrow> 'b"
  big_div_u64 :: "'b \<Rightarrow> u64 \<Rightarrow> 'b"
  big_u64_digits :: "'b \<Rightarrow> u64 list"
  big_ge :: "'b \<Rightarrow> 'b \<Rightarrow> bool"
  big_display :: "'b \<Rightarrow> string"
  u64_gcd :: "u64 \<Rightarrow> u64 \<Rightarrow> u64"

locale biguint =
  fixes B :: "'b big_ops"
    and val :: "'b \<Rightarrow> nat"
  assumes val_from [simp]: "val (big_from B n) = n"
    and val_default [simp]: "val (big_default B) = 0"
    and val_add [simp]: "val (big_add B a b) = val a + val b"
    and val_mul [simp]: "val (big_mul B a b) = val a * val b"
    and val_div_rem [simp]: "val b \<noteq> 0 \<Longrightarrow> val (fst (big_div_rem B a b)) = val a div val b"
      "val b \<noteq> 0 \<Longrightarrow> val (snd (big_div_rem B a b)) = val a mod val b"
    and val_rem_u64 [simp]: "k \<noteq> 0 \<Longrightarrow> val (big_rem_u64 B a k) = val a mod unat k"
    and val_div_u64 [simp]: "k \<noteq> 0 \<Longrightarrow> val (big_div_u64 B a k) = val a div unat k"
    and digits_small: "val a < 2 ^ 64 \<Longrightarrow> big_u64_digits B a = (if val a = 0 then [] else [of_nat (val a)])"
    and ge_val [simp]: "big_ge B a b \<longleftrightarrow> val b \<le> val a"
    and display_val [simp]: "big_display B a = show_nat (val a)"
    and gcd_val: "unat (u64_gcd B k l) = gcd (unat k) (unat l)"

section \<open>The code\<close>

record FeeRate =
  fr_fee :: u64
  fr_size :: u64

definition fee_rate_new :: "u64 \<Rightarrow> u64 \<Rightarrow> FeeRate res" where
  "fee_rate_new fee bytes =
     (if bytes = 0 then Inl (Bail ''transaction fee-rate size must be positive'')
      else Inr \<lparr>fr_fee = fee, fr_size = bytes\<rparr>)"

datatype ordering = Less | Equal | Greater

definition fee_rate_cmp :: "FeeRate \<Rightarrow> FeeRate \<Rightarrow> ordering" where
  "fee_rate_cmp a b =
     (let l = (ucast (fr_fee a) :: 128 word) * ucast (fr_size b);
          r = (ucast (fr_fee b) :: 128 word) * ucast (fr_size a)
      in if l < r then Less else if l = r then Equal else Greater)"

text \<open>\<open>{cents:0>2}\<close>: padded with zeros to width two.\<close>

definition pad_left_2 :: "string \<Rightarrow> string" where
  "pad_left_2 s = replicate (2 - length s) CHR ''0'' @ s"

definition format_rational :: "'b big_ops \<Rightarrow> 'b \<Rightarrow> 'b \<Rightarrow> string" where
  "format_rational B numerator denominator =
     (let scaled = big_mul B numerator (big_from B 100);
          (quotient, remainder) = big_div_rem B scaled denominator;
          quotient' = (if big_ge B (big_mul B remainder (big_from B 2)) denominator
                       then big_add B quotient (big_from B 1) else quotient);
          (whole, cents) = big_div_rem B quotient' (big_from B 100)
      in big_display B whole @ ''.'' @ pad_left_2 (big_display B cents))"

definition fee_rate_format :: "'b big_ops \<Rightarrow> FeeRate \<Rightarrow> u64 \<Rightarrow> string" where
  "fee_rate_format B r bytes_per_unit =
     format_rational B (big_mul B (big_from B (unat (fr_fee r))) (big_from B (unat bytes_per_unit)))
       (big_from B (unat (fr_size r)))"

definition add_fee :: "'b big_ops \<Rightarrow> FeeRate \<Rightarrow> (u64, 'b) omap \<Rightarrow> (u64, 'b) omap" where
  "add_fee B r m =
     om_put (fr_size r)
       (big_add B (case om_get m (fr_size r) of None \<Rightarrow> big_default B | Some v \<Rightarrow> v) (big_from B (unat (fr_fee r)))) m"

definition extend_denominator :: "'b big_ops \<Rightarrow> u64 \<Rightarrow> 'b \<Rightarrow> 'b" where
  "extend_denominator B bytes denominator =
     (let remainder = (case big_u64_digits B (big_rem_u64 B denominator bytes) of [] \<Rightarrow> 0 | d # _ \<Rightarrow> d)
      in big_mul B denominator (big_from B (unat (bytes div u64_gcd B bytes remainder))))"

definition sum_rates :: "'b big_ops \<Rightarrow> FeeRate list \<Rightarrow> 'b \<times> 'b" where
  "sum_rates B rates =
     (let fees_by_size = fold (add_fee B) rates [];
          denominator = fold (extend_denominator B) (map fst fees_by_size) (big_from B 1);
          numerator = fold (\<lambda>(bytes, fees) n. big_add B n (big_mul B fees (big_div_u64 B denominator bytes)))
                        fees_by_size (big_from B 0)
      in (numerator, denominator))"

definition mean_rate :: "'b big_ops \<Rightarrow> FeeRate list \<Rightarrow> u64 \<Rightarrow> string option" where
  "mean_rate B rates bytes_per_unit =
     (if rates = [] then None
      else case sum_rates B rates of
        (sum_num, sum_den) \<Rightarrow>
          Some (format_rational B (big_mul B sum_num (big_from B (unat bytes_per_unit)))
                  (big_mul B sum_den (big_from B (length rates)))))"

definition median_rate :: "'b big_ops \<Rightarrow> FeeRate list \<Rightarrow> u64 \<Rightarrow> string option" where
  "median_rate B sorted_rates bytes_per_unit =
     (if sorted_rates = [] then None
      else let middle = length sorted_rates div 2
        in if length sorted_rates mod 2 = 1 then Some (fee_rate_format B (sorted_rates ! middle) bytes_per_unit)
           else case sum_rates B (take 2 (drop (middle - 1) sorted_rates)) of
             (sum_num, sum_den) \<Rightarrow>
               Some (format_rational B (big_mul B sum_num (big_from B (unat bytes_per_unit)))
                       (big_mul B sum_den (big_from B 2))))"

section \<open>Specification\<close>

definition rate :: "FeeRate \<Rightarrow> rat" where
  "rate r = of_nat (unat (fr_fee r)) / of_nat (unat (fr_size r))"

text \<open>A nonnegative rational to two decimals, ties up.\<close>

definition cents_text :: "rat \<Rightarrow> string" where
  "cents_text q = show_fixed 2 (nat \<lfloor>100 * q + 1 / 2\<rfloor>)"

lemma rat_less:
  "0 < b \<Longrightarrow> 0 < d \<Longrightarrow> (of_nat a / of_nat b :: rat) < of_nat c / of_nat d \<longleftrightarrow> a * d < c * (b :: nat)"
proof -
  assume "0 < b" "0 < d"
  then have "(of_nat a / of_nat b :: rat) < of_nat c / of_nat d \<longleftrightarrow> (of_nat (a * d) :: rat) < of_nat (c * b)"
    by (simp add: divide_simps)
  then show ?thesis by (simp only: of_nat_less_iff)
qed

lemma rat_eq:
  "0 < b \<Longrightarrow> 0 < d \<Longrightarrow> (of_nat a / of_nat b :: rat) = of_nat c / of_nat d \<longleftrightarrow> a * d = c * (b :: nat)"
proof -
  assume "0 < b" "0 < d"
  then have "(of_nat a / of_nat b :: rat) = of_nat c / of_nat d \<longleftrightarrow> (of_nat (a * d) :: rat) = of_nat (c * b)"
    by (simp add: divide_simps)
  then show ?thesis by (simp only: of_nat_eq_iff)
qed

lemma rat_div: "b dvd a \<Longrightarrow> (of_nat (a div b) :: rat) = of_nat a / of_nat (b :: nat)"
  by (cases "b = 0") (auto elim!: dvdE)

lemma fee_rate_order:
  assumes "fr_size a \<noteq> 0" and "fr_size b \<noteq> 0"
  shows "fee_rate_cmp a b = (if rate a < rate b then Less else if rate a = rate b then Equal else Greater)"
proof -
  have prod: "unat ((ucast x :: 128 word) * ucast y) = unat x * unat y" for x y :: u64
  proof -
    have "unat x < 2 ^ 64" "unat y < 2 ^ 64" using unsigned_less [of x] unsigned_less [of y] by simp_all
    then have "unat x * unat y < 2 ^ 64 * 2 ^ 64" by (intro mult_strict_mono) auto
    moreover have "unat (ucast x :: 128 word) = unat x" "unat (ucast y :: 128 word) = unat y"
      using \<open>unat x < 2 ^ 64\<close> \<open>unat y < 2 ^ 64\<close> by (simp_all add: unsigned_ucast_eq take_bit_nat_eq_self)
    ultimately show ?thesis by (simp add: unat_word_ariths)
  qed
  have pos: "0 < unat (fr_size a)" "0 < unat (fr_size b)" using assms by (simp_all add: unat_gt_0)
  note order = rat_less [OF pos] rat_eq [OF pos]
  show ?thesis unfolding fee_rate_cmp_def Let_def rate_def order word_less_nat_alt word_unat_eq_iff prod ..
qed

section \<open>The common denominator\<close>

definition fees_sum :: "('b \<Rightarrow> nat) \<Rightarrow> (u64, 'b) omap \<Rightarrow> rat" where
  "fees_sum val m = (\<Sum>(s, f)\<leftarrow>m. of_nat (val f) / of_nat (unat s))"

lemma fees_sum_put:
  "om_sorted m \<Longrightarrow> fees_sum val (om_put s v m) =
    fees_sum val m + of_nat (val v) / of_nat (unat s) -
    (case om_get m s of None \<Rightarrow> 0 | Some f \<Rightarrow> of_nat (val f) / of_nat (unat s))"
proof (induction s v m rule: om_put.induct)
  case (2 k v k' v' m)
  have "om_get m k = None" if "k < k'"
    using 2(2) that by (force simp: om_sorted_Cons map_of_eq_None_iff)
  then show ?case using 2 by (auto simp: fees_sum_def om_sorted_Cons)
qed (simp add: fees_sum_def)

context biguint
begin

lemma add_fee_sorted: "om_sorted m \<Longrightarrow> om_sorted (add_fee B r m)"
  by (simp add: add_fee_def)

lemma add_fee_sum: "om_sorted m \<Longrightarrow> fees_sum val (add_fee B r m) = fees_sum val m + rate r"
  by (auto simp: add_fee_def fees_sum_put rate_def add_divide_distrib split: option.splits)

lemma fees_by_size:
  assumes "om_sorted m" and "0 \<notin> fst ` set m" and "\<forall>r \<in> set rates. fr_size r \<noteq> 0"
  shows "om_sorted (fold (add_fee B) rates m)" "0 \<notin> fst ` set (fold (add_fee B) rates m)"
    "fees_sum val (fold (add_fee B) rates m) = fees_sum val m + (\<Sum>r\<leftarrow>rates. rate r)"
proof -
  have "om_sorted (fold (add_fee B) rates m) \<and> 0 \<notin> fst ` set (fold (add_fee B) rates m) \<and>
      fees_sum val (fold (add_fee B) rates m) = fees_sum val m + (\<Sum>r\<leftarrow>rates. rate r)"
    using assms
  proof (induction rates arbitrary: m)
    case (Cons r rates)
    have "0 \<notin> fst ` set (add_fee B r m)" using Cons.prems by (simp add: add_fee_def fst_om_put)
    then show ?case using Cons.IH [of "add_fee B r m"] Cons.prems add_fee_sum [of m r] by (simp add: add_fee_sorted)
  qed simp
  then show "om_sorted (fold (add_fee B) rates m)" "0 \<notin> fst ` set (fold (add_fee B) rates m)"
    "fees_sum val (fold (add_fee B) rates m) = fees_sum val m + (\<Sum>r\<leftarrow>rates. rate r)" by auto
qed

lemma val_extend:
  assumes "s \<noteq> 0"
  shows "val (extend_denominator B s d) = lcm (val d) (unat s)"
proof -
  have pos: "0 < unat s" using assms by (simp add: unat_gt_0)
  let ?r = "val d mod unat s"
  have "?r < unat s" using pos by simp
  moreover have "unat s < 2 ^ 64" using unsigned_less [of s] by simp
  ultimately have small: "?r < 2 ^ 64" by linarith
  have head: "unat (case big_u64_digits B (big_rem_u64 B d s) of [] \<Rightarrow> 0 | x # _ \<Rightarrow> x) = ?r"
    using digits_small [of "big_rem_u64 B d s"] assms small
    by (auto simp: unat_of_nat take_bit_nat_eq_self)
  have "gcd (unat s) ?r = gcd (unat s) (val d)" by (metis gcd.commute gcd_red_nat)
  then have "val (extend_denominator B s d) = val d * (unat s div gcd (unat s) (val d))"
    unfolding extend_denominator_def Let_def by (simp add: unat_div gcd_val head)
  also have "\<dots> = lcm (val d) (unat s)"
    by (simp add: lcm_nat_def div_mult_swap gcd.commute)
  finally show ?thesis .
qed

lemma denominator_multiple:
  assumes "0 \<notin> set ss" and "0 < val d"
  shows "0 < val (fold (extend_denominator B) ss d) \<and> val d dvd val (fold (extend_denominator B) ss d) \<and>
    (\<forall>s \<in> set ss. unat s dvd val (fold (extend_denominator B) ss d))"
  using assms
proof (induction ss arbitrary: d)
  case (Cons s ss)
  have s: "s \<noteq> 0" using Cons.prems(1) by auto
  then have "0 < val (extend_denominator B s d)"
    using Cons.prems(2) by (simp add: val_extend lcm_pos_nat unat_gt_0)
  then show ?case
    using Cons.IH [of "extend_denominator B s d"] Cons.prems(1) s
    by (auto simp: val_extend intro: dvd_trans [OF dvd_lcm1] dvd_trans [OF dvd_lcm2])
qed simp

lemma numerator_sum:
  assumes "0 \<notin> fst ` set m" and "0 < val d" and "\<forall>s \<in> fst ` set m. unat s dvd val d"
  shows "of_nat (val (fold (\<lambda>(s, f) n. big_add B n (big_mul B f (big_div_u64 B d s))) m n)) =
    of_nat (val n) + fees_sum val m * of_nat (val d)"
  using assms
proof (induction m arbitrary: n)
  case (Cons x m)
  obtain s f where x: "x = (s, f)" by force
  have s: "s \<noteq> 0" "unat s dvd val d" using Cons.prems by (auto simp: x)
  then have "(of_nat (val d div unat s) :: rat) = of_nat (val d) / of_nat (unat s)"
    by (intro rat_div)
  then show ?case using Cons s by (simp add: x fees_sum_def algebra_simps)
qed (simp add: fees_sum_def)

lemma sum_rates_exact:
  assumes "\<forall>r \<in> set rates. fr_size r \<noteq> 0" and "sum_rates B rates = (num, den)"
  shows "0 < val den" "of_nat (val num) = (\<Sum>r\<leftarrow>rates. rate r) * of_nat (val den)"
proof -
  let ?m = "fold (add_fee B) rates []"
  note m = fees_by_size [OF om_sorted_Nil _ assms(1), simplified]
  have den: "den = fold (extend_denominator B) (map fst ?m) (big_from B 1)"
    and num: "num = fold (\<lambda>(s, f) n. big_add B n (big_mul B f (big_div_u64 B den s))) ?m (big_from B 0)"
    using assms(2) by (auto simp: sum_rates_def Let_def)
  have d: "0 < val den" "\<forall>s \<in> fst ` set ?m. unat s dvd val den"
    using denominator_multiple [of "map fst ?m" "big_from B 1"] m(2) unfolding den by auto
  then show "0 < val den" by simp
  show "of_nat (val num) = (\<Sum>r\<leftarrow>rates. rate r) * of_nat (val den)"
    using numerator_sum [OF m(2) d, of "big_from B 0"] m(3) unfolding num by (simp add: fees_sum_def)
qed

lemma format_rational_exact:
  assumes "0 < val den"
  shows "format_rational B num den = cents_text (of_nat (val num) / of_nat (val den))"
proof -
  let ?N = "val num * 100" and ?D = "val den"
  define q where "q = (2 * ?N + ?D) div (2 * ?D)"
  have round: "q = (if ?D div 2 + ?D mod 2 \<le> ?N mod ?D then ?N div ?D + 1 else ?N div ?D)"
    unfolding q_def by (rule rounded_quotient [OF mod_less_divisor [OF assms]]) (simp only: div_mult_mod_eq)
  have "(100 :: rat) * (of_nat (val num) / of_nat ?D) + 1 / 2 = of_nat (2 * ?N + ?D) / of_nat (2 * ?D)"
    using assms by (simp add: divide_simps)
  then have "nat \<lfloor>100 * (of_nat (val num) / of_nat ?D :: rat) + 1 / 2\<rfloor> = q"
    unfolding q_def by (simp only: floor_divide_of_nat_eq nat_int)
  then have spec: "cents_text (of_nat (val num) / of_nat ?D) = show_nat (q div 100) @ ''.'' @ pad_nat 2 (q mod 100)"
    by (simp add: cents_text_def show_fixed_def)
  obtain quo rest where dr: "big_div_rem B (big_mul B num (big_from B 100)) den = (quo, rest)" by force
  then have vals: "val quo = ?N div ?D" "val rest = ?N mod ?D"
    using val_div_rem [of den "big_mul B num (big_from B 100)"] assms by simp_all
  define quo' where "quo' = (if big_ge B (big_mul B rest (big_from B 2)) den then big_add B quo (big_from B 1) else quo)"
  have q: "val quo' = q"
    using half_up [of ?D "?N mod ?D"] unfolding quo'_def round by (simp add: vals mult.commute)
  obtain w c where wc: "big_div_rem B quo' (big_from B 100) = (w, c)" by force
  then have "val w = q div 100" "val c = q mod 100"
    using val_div_rem [of "big_from B 100" quo'] q by simp_all
  then show ?thesis
    unfolding spec format_rational_def Let_def dr prod.case quo'_def [symmetric] wc
    by (simp add: pad_left_2_def pad_2)
qed

lemma fee_rate_format_exact:
  "fr_size r \<noteq> 0 \<Longrightarrow> fee_rate_format B r u = cents_text (rate r * of_nat (unat u))"
proof -
  assume "fr_size r \<noteq> 0"
  then have "0 < unat (fr_size r)" by (simp add: unat_gt_0)
  then have "fee_rate_format B r u = cents_text (of_nat (unat (fr_fee r) * unat u) / of_nat (unat (fr_size r)))"
    using format_rational_exact [of "big_from B (unat (fr_size r))"] by (simp add: fee_rate_format_def)
  then show ?thesis by (simp add: rate_def)
qed

lemma mean_exact:
  assumes "\<forall>r \<in> set rates. fr_size r \<noteq> 0" and "0 < n" and "sum_rates B rates = (num, den)"
  shows "format_rational B (big_mul B num (big_from B (unat u))) (big_mul B den (big_from B n)) =
    cents_text (of_nat (unat u) * (\<Sum>r\<leftarrow>rates. rate r) / of_nat n)"
proof -
  note sum = sum_rates_exact [OF assms(1,3)]
  have "(of_nat (val num * unat u) / of_nat (val den * n) :: rat) = of_nat (unat u) * (\<Sum>r\<leftarrow>rates. rate r) / of_nat n"
    unfolding of_nat_mult sum(2) using sum(1) by simp
  then show ?thesis using format_rational_exact [of "big_mul B den (big_from B n)"] sum(1) assms(2) by simp
qed

end

section \<open>An instance\<close>

definition nat_big :: "nat big_ops" where
  "nat_big = \<lparr>big_from = id, big_default = 0, big_add = (+), big_mul = (*), big_div_rem = (\<lambda>a b. (a div b, a mod b)),
     big_rem_u64 = (\<lambda>a k. a mod unat k), big_div_u64 = (\<lambda>a k. a div unat k),
     big_u64_digits = (\<lambda>a. if a = 0 then [] else [of_nat a]), big_ge = (\<lambda>a b. b \<le> a), big_display = show_nat,
     u64_gcd = (\<lambda>k l. of_nat (gcd (unat k) (unat l)))\<rparr>"

lemma gcd_u64: "unat (of_nat (gcd (unat k) (unat l)) :: u64) = gcd (unat k) (unat (l :: u64))" for k :: u64
proof -
  have "gcd (unat k) (unat l) \<le> max (unat k) (unat l)"
    by (cases "unat k = 0") (simp_all add: gcd_le1_nat max.coboundedI1)
  also have "\<dots> < 2 ^ 64" using unsigned_less [of k] unsigned_less [of l] by simp
  finally show ?thesis by (simp add: unat_of_nat take_bit_nat_eq_self)
qed

interpretation nat_big: biguint nat_big id
  by unfold_locales (simp_all add: nat_big_def gcd_u64)

section \<open>Properties\<close>

text \<open>
  C39. The order on fee rates is the order of the rationals fee over size, with equality
  exactly on equal rationals: the products cannot overflow.
\<close>

theorem fee_rate_cmp_exact:
  assumes "fee_rate_new f s = Inr a" and "fee_rate_new f' s' = Inr b"
  shows "fee_rate_cmp a b = (if rate a < rate b then Less else if rate a = rate b then Equal else Greater)"
  using assms by (intro fee_rate_order) (auto simp: fee_rate_new_def split: if_splits)

theorem fee_rate_cmp_exact_witness:
  "fee_rate_cmp \<lparr>fr_fee = 1, fr_size = 2\<rparr> \<lparr>fr_fee = 18446744073709551614, fr_size = 18446744073709551615\<rparr> = Less"
  using fee_rate_cmp_exact [of 1 2 _ 18446744073709551614 18446744073709551615]
  by (simp add: fee_rate_new_def rate_def)

text \<open>
  C38. The mean and the median of fee rates are exact: the sum over a common denominator
  grouped by size is the arithmetic sum of the rates, and the text printed is the mean
  (of all, of the middle two) or the middle rate, per the unit asked for, to two decimals
  with ties up. They are absent exactly for no rates.
\<close>

theorem fee_rate_aggregates_exact:
  assumes "biguint B val" and "\<forall>r \<in> set rates. fr_size r \<noteq> 0"
  shows "mean_rate B rates u =
      (if rates = [] then None
       else Some (cents_text (of_nat (unat u) * (\<Sum>r\<leftarrow>rates. rate r) / of_nat (length rates)))) \<and>
    median_rate B rates u =
      (if rates = [] then None
       else if odd (length rates) then Some (cents_text (rate (rates ! (length rates div 2)) * of_nat (unat u)))
       else Some (cents_text (of_nat (unat u) *
         (rate (rates ! (length rates div 2 - 1)) + rate (rates ! (length rates div 2))) / 2)))"
proof (cases "rates = []")
  case False
  obtain num den where sum: "sum_rates B rates = (num, den)" by force
  have mean: "mean_rate B rates u = Some (cents_text (of_nat (unat u) * (\<Sum>r\<leftarrow>rates. rate r) / of_nat (length rates)))"
    using biguint.mean_exact [OF assms(1,2) _ sum, of "length rates" u] False by (simp add: mean_rate_def sum)
  let ?i = "length rates div 2"
  have median: "median_rate B rates u =
      (if odd (length rates) then Some (cents_text (rate (rates ! ?i) * of_nat (unat u)))
       else Some (cents_text (of_nat (unat u) * (rate (rates ! (?i - 1)) + rate (rates ! ?i)) / 2)))"
  proof (cases "odd (length rates)")
    case True
    then have "?i < length rates" by (metis False div_less_dividend length_greater_0_conv one_less_numeral_iff semiring_norm(76))
    then have "fr_size (rates ! ?i) \<noteq> 0" using assms(2) by simp
    then show ?thesis
      using True False biguint.fee_rate_format_exact [OF assms(1)] by (simp add: median_rate_def odd_iff_mod_2_eq_one Let_def)
  next
    case even: False
    then have i: "0 < ?i" "?i < length rates" using False by (cases rates; cases "tl rates"; auto)+
    then have mid: "take 2 (drop (?i - 1) rates) = [rates ! (?i - 1), rates ! ?i]"
      by (cases "?i") (auto simp: numeral_2_eq_2 take_Suc_conv_app_nth Cons_nth_drop_Suc [symmetric])
    obtain num' den' where sum': "sum_rates B (take 2 (drop (?i - 1) rates)) = (num', den')" by force
    have "\<forall>r \<in> set (take 2 (drop (?i - 1) rates)). fr_size r \<noteq> 0"
      using assms(2) by (meson in_set_dropD in_set_takeD)
    from biguint.mean_exact [OF assms(1) this _ sum', of 2 u] have
      "format_rational B (big_mul B num' (big_from B (unat u))) (big_mul B den' (big_from B 2)) =
        cents_text (of_nat (unat u) * (rate (rates ! (?i - 1)) + rate (rates ! ?i)) / 2)"
      unfolding mid by simp
    then show ?thesis
      using even False unfolding median_rate_def Let_def sum' prod.case by (simp add: odd_iff_mod_2_eq_one)
  qed
  show ?thesis using mean median False by simp
qed (simp add: mean_rate_def median_rate_def)

theorem fee_rate_aggregates_exact_witness:
  "mean_rate nat_big [\<lparr>fr_fee = 1, fr_size = 3\<rparr>, \<lparr>fr_fee = 1, fr_size = 2\<rparr>] 1000 = Some (cents_text (1250 / 3))"
  using fee_rate_aggregates_exact [OF nat_big.biguint_axioms, of "[\<lparr>fr_fee = 1, fr_size = 3\<rparr>, \<lparr>fr_fee = 1, fr_size = 2\<rparr>]" 1000]
  by (simp add: rate_def)

end
