(* ===== verification/Molecule.thy ===== *)
theory Molecule
  imports Prelude
begin

text \<open>
  \<^verbatim>\<open>crates/indexer/src/parser/molecule.rs\<close>: the readers of molecule-encoded chain data.
  A slice expression out of range would panic, so every reader returns a result whose
  error is a panic, holding the \<open>Option\<close> the code returns; \<open>usize\<close> is \<open>nat\<close>. The encoders
  are the molecule format itself, as its specification defines it: they are what the
  readers are compared with.
\<close>

section \<open>The readers\<close>

definition parse_u32 :: "bytes \<Rightarrow> nat option" where
  "parse_u32 data = (if length data = 4 then Some (unat (from_le_bytes data :: u32)) else None)"

text \<open>\<open>let x = f(..)?;\<close> in a function that returns an \<open>Option\<close> and may panic.\<close>

definition obind :: "'a option res \<Rightarrow> ('a \<Rightarrow> 'b option res) \<Rightarrow> 'b option res" where
  "obind m f = rbind m (\<lambda>r. case r of None \<Rightarrow> Inr None | Some x \<Rightarrow> f x)"

definition u32_at :: "bytes \<Rightarrow> nat \<Rightarrow> nat option res" where
  "u32_at data start = rbind (slice start (start + 4) data) (\<lambda>b. Inr (parse_u32 b))"

definition parse_bytes :: "bytes \<Rightarrow> bytes option res" where
  "parse_bytes data =
     (if length data < 4 then Inr None
      else obind (u32_at data 0) (\<lambda>item_count.
           if item_count + 4 \<noteq> length data then Inr None
           else rbind (slice 4 (length data) data) (\<lambda>content. Inr (Some content))))"

text \<open>The loop over \<open>idx\<close>, from its start position.\<close>

fun read_offsets :: "bytes \<Rightarrow> nat \<Rightarrow> nat \<Rightarrow> nat list option res" where
  "read_offsets data start 0 = Inr (Some [])"
| "read_offsets data start (Suc n) =
     obind (u32_at data start) (\<lambda>x. obind (read_offsets data (start + 4) n) (\<lambda>xs. Inr (Some (x # xs))))"

fun slice_pairs :: "bytes \<Rightarrow> nat list \<Rightarrow> bytes list res" where
  "slice_pairs data (a # b # offsets) =
     rbind (slice a b data) (\<lambda>x. rbind (slice_pairs data (b # offsets)) (\<lambda>xs. Inr (x # xs)))"
| "slice_pairs data offsets = Inr []"

fun windows_ok :: "nat \<Rightarrow> nat list \<Rightarrow> bool" where
  "windows_ok total_size (a # b # offsets) \<longleftrightarrow> \<not> (b < a \<or> total_size < b) \<and> windows_ok total_size (b # offsets)"
| "windows_ok total_size offsets \<longleftrightarrow> True"

text \<open>From the first offset on, tables and dynvecs are read alike.\<close>

definition read_fields :: "bytes \<Rightarrow> nat \<Rightarrow> bytes list option res" where
  "read_fields data total_size =
     obind (u32_at data 4) (\<lambda>first_offset.
     if first_offset < 8 \<or> total_size < first_offset \<or> first_offset mod 4 \<noteq> 0 then Inr None
     else obind (read_offsets data 4 (first_offset div 4 - 1)) (\<lambda>xs.
          let offsets = xs @ [total_size]
          in if \<not> windows_ok total_size offsets then Inr None
             else rbind (slice_pairs data offsets) (\<lambda>fields. Inr (Some fields))))"

definition parse_table_fields :: "bytes \<Rightarrow> bytes list option res" where
  "parse_table_fields data =
     (if length data < 8 then Inr None
      else obind (u32_at data 0) (\<lambda>total_size.
           if total_size \<noteq> length data then Inr None else read_fields data total_size))"

definition parse_table_fields_exact :: "bytes \<Rightarrow> nat \<Rightarrow> bytes list option res" where
  "parse_table_fields_exact data field_count =
     obind (parse_table_fields data) (\<lambda>fields. Inr (if length fields = field_count then Some fields else None))"

definition parse_table_fields_at_least :: "bytes \<Rightarrow> nat \<Rightarrow> bytes list option res" where
  "parse_table_fields_at_least data min_field_count =
     obind (parse_table_fields data) (\<lambda>fields. Inr (if min_field_count \<le> length fields then Some fields else None))"

definition parse_dynvec_items :: "bytes \<Rightarrow> bytes list option res" where
  "parse_dynvec_items data =
     (if length data < 4 then Inr None
      else obind (u32_at data 0) (\<lambda>total_size.
           if total_size \<noteq> length data then Inr None
           else if total_size = 4 then Inr (Some [])
           else if length data < 8 then Inr None
           else read_fields data total_size))"

section \<open>The format\<close>

definition number :: "nat \<Rightarrow> bytes" where
  "number n = to_le_bytes (of_nat n :: u32)"

definition encode_bytes :: "bytes \<Rightarrow> bytes" where
  "encode_bytes content = number (length content) @ content"

fun offsets_from :: "nat \<Rightarrow> bytes list \<Rightarrow> nat list" where
  "offsets_from a [] = []"
| "offsets_from a (x # xs) = a # offsets_from (a + length x) xs"

definition table_size :: "bytes list \<Rightarrow> nat" where
  "table_size fields = 4 * (length fields + 1) + length (concat fields)"

definition encode_table :: "bytes list \<Rightarrow> bytes" where
  "encode_table fields =
     number (table_size fields) @
     concat (map number (offsets_from (4 * (length fields + 1)) fields)) @ concat fields"

section \<open>Reading numbers\<close>

lemma obind_simps [simp]:
  "obind (Inr None) f = Inr None" "obind (Inr (Some x)) f = f x" "obind (Inl e) f = Inl e"
  by (simp_all add: obind_def)

lemma length_number [simp]: "length (number n) = 4"
  by (simp add: number_def)

lemma parse_number: "n < 2 ^ 32 \<Longrightarrow> parse_u32 (number n) = Some n"
  by (simp add: parse_u32_def number_def unat_of_nat take_bit_nat_eq_self)

lemma parse_u32_Some: "parse_u32 b = Some n \<longleftrightarrow> n < 2 ^ 32 \<and> b = number n"
proof
  assume *: "parse_u32 b = Some n"
  then have b: "length b = 4" "n = unat (from_le_bytes b :: u32)" by (auto simp: parse_u32_def split: if_splits)
  then have "number n = b" by (simp add: number_def to_le_bytes_def from_le_bytes_def to_from_be_bytes)
  moreover have "n < 2 ^ 32" using b(2) unsigned_less [of "from_le_bytes b :: u32"] by simp
  ultimately show "n < 2 ^ 32 \<and> b = number n" by simp
qed (auto simp: parse_number)

lemma number_inj: "a < 2 ^ 32 \<Longrightarrow> b < 2 ^ 32 \<Longrightarrow> number a = number b \<longleftrightarrow> a = b"
  by (metis option.inject parse_number)

lemma u32_at_ok:
  assumes "start + 4 \<le> length data"
  obtains n where "u32_at data start = Inr (Some n)" "n < 2 ^ 32" "take 4 (drop start data) = number n"
proof -
  have "parse_u32 (take 4 (drop start data)) \<noteq> None" using assms by (simp add: parse_u32_def)
  then obtain n where "parse_u32 (take 4 (drop start data)) = Some n" by blast
  then show ?thesis using that [of n] assms by (simp add: u32_at_def parse_u32_Some)
qed

lemma u32_at_iff:
  "start + 4 \<le> length data \<Longrightarrow> n < 2 ^ 32 \<Longrightarrow>
   u32_at data start = Inr (Some n) \<longleftrightarrow> take 4 (drop start data) = number n"
  by (simp add: u32_at_def parse_u32_Some)

section \<open>Offsets\<close>

lemma take_number_append: "take 4 (number n @ r) = number n" "drop 4 (number n @ r) = r"
  by simp_all

lemma read_offsets_iff:
  "start + 4 * n \<le> length data \<Longrightarrow>
   read_offsets data start n = Inr (Some xs) \<longleftrightarrow>
     length xs = n \<and> (\<forall>x \<in> set xs. x < 2 ^ 32) \<and> take (4 * n) (drop start data) = concat (map number xs)"
proof (induction n arbitrary: start xs)
  case (Suc n)
  have "start + 4 \<le> length data" using Suc.prems by simp
  then obtain x where x: "u32_at data start = Inr (Some x)" "x < 2 ^ 32" "take 4 (drop start data) = number x"
    by (rule u32_at_ok)
  have four: "take (4 * Suc n) (drop start data) = number x @ take (4 * n) (drop (start + 4) data)"
    using x(3) take_add [of 4 "4 * n" "drop start data"] by (simp add: add.commute)
  have ih: "read_offsets data (start + 4) n = Inr (Some ys) \<longleftrightarrow>
      length ys = n \<and> (\<forall>y \<in> set ys. y < 2 ^ 32) \<and> take (4 * n) (drop (start + 4) data) = concat (map number ys)" for ys
    using Suc.IH [of "start + 4" ys] Suc.prems by simp
  have num: "number x = number y \<longleftrightarrow> y = x" if "y < 2 ^ 32" for y
    using number_inj [OF x(2) that] by auto
  show ?case
  proof (cases xs)
    case Nil
    then show ?thesis using x by (auto simp: obind_def rbind_def split: sum.splits option.splits)
  next
    case (Cons y ys)
    have step: "read_offsets data start (Suc n) = Inr (Some (y # ys)) \<longleftrightarrow>
        y = x \<and> read_offsets data (start + 4) n = Inr (Some ys)"
      using x(1) by (auto simp: obind_def rbind_def split: sum.splits option.splits)
    have chunk: "take (4 * Suc n) (drop start data) = concat (map number (y # ys)) \<longleftrightarrow>
        number x = number y \<and> take (4 * n) (drop (start + 4) data) = concat (map number ys)"
      unfolding four by (simp add: append_eq_append_conv)
    show ?thesis unfolding Cons step ih chunk using num [of y] x(2) by auto
  qed
qed auto

lemma read_offsets_total:
  "start + 4 * n \<le> length data \<Longrightarrow> \<exists>xs. read_offsets data start n = Inr (Some xs)"
proof (induction n arbitrary: start)
  case (Suc n)
  have "start + 4 \<le> length data" using Suc.prems by simp
  then obtain x where "u32_at data start = Inr (Some x)" by (rule u32_at_ok)
  moreover obtain xs where "read_offsets data (start + 4) n = Inr (Some xs)"
    using Suc.IH [of "start + 4"] Suc.prems by auto
  ultimately show ?case by simp
qed simp

lemma windows_sorted: "windows_ok t (xs @ [t]) \<longleftrightarrow> sorted (xs @ [t])"
proof (induction xs)
  case (Cons x xs)
  then show ?case by (cases xs) (auto simp: not_less intro: order_trans)
qed simp

lemma slice_pairs_encode:
  "take (length (concat fs)) (drop a data) = concat fs \<Longrightarrow> a + length (concat fs) \<le> length data \<Longrightarrow>
   slice_pairs data (offsets_from a fs @ [a + length (concat fs)]) = Inr fs"
proof (induction fs arbitrary: a)
  case (Cons x fs)
  have "take (length x) (drop a data) @ take (length (concat fs)) (drop (a + length x) data) = x @ concat fs"
    using Cons.prems(1) take_add [of "length x" "length (concat fs)" "drop a data"] by (simp add: add.commute)
  then have x: "take (length x) (drop a data) = x" and rest: "take (length (concat fs)) (drop (a + length x) data) = concat fs"
    using Cons.prems(2) by (simp_all add: append_eq_append_conv)
  have "slice_pairs data (offsets_from (a + length x) fs @ [a + length x + length (concat fs)]) = Inr fs"
    using Cons.IH [OF rest] Cons.prems(2) by simp
  moreover obtain os where "offsets_from (a + length x) fs @ [a + length x + length (concat fs)] = (a + length x) # os"
    by (cases fs) auto
  ultimately show ?case using Cons.prems(2) x by (simp add: add.assoc)
qed simp

lemma slice_pairs_sound:
  "sorted (a # os) \<Longrightarrow> slice_pairs data (a # os) = Inr fs \<Longrightarrow>
   offsets_from a fs @ [last (a # os)] = a # os \<and> concat fs = take (last (a # os) - a) (drop a data)"
proof (induction os arbitrary: a fs)
  case (Cons b os)
  obtain rest where rest: "slice_pairs data (b # os) = Inr rest" and ab: "a \<le> b" "b \<le> length data"
      and fs: "fs = take (b - a) (drop a data) # rest"
    using Cons.prems(2) by (auto simp: res_simps)
  have ih: "offsets_from b rest @ [last (b # os)] = b # os" "concat rest = take (last (b # os) - b) (drop b data)"
    using Cons.IH [OF _ rest] Cons.prems(1) by auto
  have "b \<le> last (b # os)" using Cons.prems(1) by (auto split: if_splits)
  then have "take (last (b # os) - a) (drop a data) = take (b - a) (drop a data) @ take (last (b # os) - b) (drop b data)"
    using take_add [of "b - a" "last (b # os) - b" "drop a data"] ab(1) by simp
  moreover have "a + length (take (b - a) (drop a data)) = b" using ab by simp
  ultimately show ?case using ih unfolding fs by simp
qed simp

lemma slice_pairs_total:
  "sorted os \<Longrightarrow> \<forall>x \<in> set os. x \<le> length data \<Longrightarrow> \<exists>fs. slice_pairs data os = Inr fs"
proof (induction data os rule: slice_pairs.induct)
  case (1 data a b os)
  then obtain fs where "slice_pairs data (b # os) = Inr fs" by auto
  then show ?case using 1 by simp
qed auto

section \<open>The readers accept exactly the format\<close>

lemma offsets_from_facts:
  "length (offsets_from a fs) = length fs"
  "\<forall>x \<in> set (offsets_from a fs). a \<le> x \<and> x \<le> a + length (concat fs)"
  "sorted (offsets_from a fs @ [a + length (concat fs)])"
proof -
  show "length (offsets_from a fs) = length fs" by (induction fs arbitrary: a) auto
  show bound: "\<forall>x \<in> set (offsets_from a fs). a \<le> x \<and> x \<le> a + length (concat fs)" for a fs
    by (induction fs arbitrary: a) fastforce+
  show "sorted (offsets_from a fs @ [a + length (concat fs)])"
  proof (induction fs arbitrary: a)
    case (Cons x fs)
    show ?case using Cons [of "a + length x"] bound [of "a + length x" fs] by (fastforce simp: add.assoc)
  qed simp
qed

lemma encode_table_parts:
  assumes "data = encode_table fs" and "n = length fs"
  shows "length data = table_size fs" "take 4 data = number (length data)"
    "take (4 * n) (drop 4 data) = concat (map number (offsets_from (4 * (n + 1)) fs))"
    "drop (4 * (n + 1)) data = concat fs"
proof -
  have hdr: "length (concat (map number xs)) = 4 * length xs" for xs by (induction xs) simp_all
  show len: "length data = table_size fs"
    using assms by (simp add: encode_table_def table_size_def hdr offsets_from_facts)
  show "take 4 data = number (length data)" unfolding len by (simp add: assms(1) encode_table_def)
  have four: "4 * (n + 1) = 4 + 4 * n" by simp
  show "take (4 * n) (drop 4 data) = concat (map number (offsets_from (4 * (n + 1)) fs))"
    using assms by (simp add: encode_table_def hdr offsets_from_facts)
  show "drop (4 * (n + 1)) data = concat fs"
    using assms unfolding four by (simp add: encode_table_def hdr offsets_from_facts drop_append)
qed

lemma read_fields_encode:
  assumes "data = encode_table fs" and "fs \<noteq> []" and "length data < 2 ^ 32"
  shows "read_fields data (length data) = Inr (Some fs)"
proof -
  let ?n = "length fs" let ?first = "4 * (?n + 1)" let ?xs = "offsets_from ?first fs"
  note parts = encode_table_parts [OF assms(1) refl]
  have total: "length data = ?first + length (concat fs)" using parts(1) by (simp add: table_size_def)
  have small: "\<forall>x \<in> set ?xs. x < 2 ^ 32" using offsets_from_facts(2) [of ?first fs] assms(3) total by fastforce
  have n: "0 < ?n" using assms(2) by simp
  have room: "4 + 4 * ?n \<le> length data" using total by simp
  have xs: "read_offsets data 4 ?n = Inr (Some ?xs)"
    using read_offsets_iff [OF room] offsets_from_facts(1) [of ?first fs] small parts(3) by simp
  obtain x fs' where fs: "fs = x # fs'" using assms(2) by (cases fs) auto
  have "take 4 (drop 4 data) = take 4 (take (4 * ?n) (drop 4 data))" using n by (simp add: min_def Suc_le_eq)
  also have "\<dots> = number ?first" unfolding parts(3) by (simp add: fs)
  finally have first: "u32_at data 4 = Inr (Some ?first)"
    using u32_at_iff [of 4 data ?first] room n assms(3) total by simp
  have "slice_pairs data (?xs @ [length data]) = Inr fs"
    using slice_pairs_encode [of fs ?first data] parts(4) total by simp
  moreover have "windows_ok (length data) (?xs @ [length data])"
    unfolding windows_sorted total by (rule offsets_from_facts(3))
  moreover have "?first div 4 - 1 = ?n" by simp
  ultimately show ?thesis
    unfolding read_fields_def first obind_simps using xs n total by (simp add: Let_def)
qed

lemma read_fields_sound:
  assumes "read_fields data (length data) = Inr (Some fs)" and "8 \<le> length data"
    and "take 4 data = number (length data)"
  shows "fs \<noteq> [] \<and> data = encode_table fs"
proof -
  obtain first where first: "u32_at data 4 = Inr (Some first)" "take 4 (drop 4 data) = number first" "first < 2 ^ 32"
    using assms(2) u32_at_ok [of 4 data] by (metis numeral_Bit0)
  let ?n = "first div 4 - 1"
  obtain xs where guard: "8 \<le> first" "first \<le> length data" "first mod 4 = 0"
      and xs: "read_offsets data 4 ?n = Inr (Some xs)" and sorted: "sorted (xs @ [length data])"
      and pairs: "slice_pairs data (xs @ [length data]) = Inr fs"
    using assms(1) unfolding read_fields_def first(1) obind_simps
    by (auto simp: obind_def rbind_def Let_def windows_sorted split: if_splits sum.splits option.splits)
  have four: "4 * (?n + 1) = first" "1 \<le> ?n" using guard by presburger+
  then have room: "4 + 4 * ?n \<le> length data" using guard(2) by linarith
  have os: "length xs = ?n" "take (4 * ?n) (drop 4 data) = concat (map number xs)" "\<forall>x \<in> set xs. x < 2 ^ 32"
    using xs unfolding read_offsets_iff [OF room] by auto
  obtain a ys where a: "xs = a # ys" using os(1) four(2) by (cases xs) auto
  have "number a = take 4 (take (4 * ?n) (drop 4 data))" unfolding os(2) by (simp add: a)
  also have "\<dots> = number first" using four(2) first(2) by (simp add: min_def)
  finally have "a = first" using number_inj [OF _ first(3), of a] os(3) a by simp
  note s = slice_pairs_sound [of a "ys @ [length data]" data fs]
  have enc: "offsets_from first fs = xs" "concat fs = drop first data"
    using s sorted pairs \<open>a = first\<close> by (simp_all add: a)
  have n: "length fs = ?n" using enc(1) offsets_from_facts(1) [of first fs] os(1) by simp
  have size: "length data = table_size fs" unfolding table_size_def n enc(2) four(1) using guard(2) by simp
  have "data = take 4 data @ take (4 * ?n) (drop 4 data) @ drop (4 + 4 * ?n) data"
    using append_take_drop_id [of 4 data] append_take_drop_id [of "4 * ?n" "drop 4 data"] by (simp add: add.commute)
  moreover have "4 + 4 * ?n = first" using four(1) by simp
  ultimately have "data = encode_table fs"
    unfolding encode_table_def n four(1) enc size [symmetric] assms(3) [symmetric] os(2) [symmetric] by simp
  then show ?thesis using n four(2) by auto
qed

lemma read_fields_total:
  assumes "8 \<le> length data"
  shows "\<exists>r. read_fields data (length data) = Inr r"
proof -
  obtain first where first: "u32_at data 4 = Inr (Some first)"
    using assms u32_at_ok [of 4 data] by (metis numeral_Bit0)
  show ?thesis
  proof (cases "8 \<le> first \<and> first \<le> length data \<and> first mod 4 = 0")
    case True
    then have "4 + 4 * (first div 4 - 1) \<le> length data" by presburger
    then obtain xs where xs: "read_offsets data 4 (first div 4 - 1) = Inr (Some xs)" using read_offsets_total by blast
    have "\<exists>fs. slice_pairs data (xs @ [length data]) = Inr fs" if "sorted (xs @ [length data])"
      using that by (intro slice_pairs_total) (auto simp: sorted_append)
    then show ?thesis using first xs True by (auto simp: read_fields_def Let_def windows_sorted)
  next
    case False
    then show ?thesis using first by (auto simp: read_fields_def not_le)
  qed
qed

lemma total_header:
  assumes "4 \<le> length data"
  obtains (size) "u32_at data 0 = Inr (Some (length data))" "length data < 2 ^ 32" "take 4 data = number (length data)"
    | (other) t where "u32_at data 0 = Inr (Some t)" "t \<noteq> length data"
        "length data < 2 ^ 32 \<Longrightarrow> take 4 data \<noteq> number (length data)"
proof -
  obtain t where t: "u32_at data 0 = Inr (Some t)" "t < 2 ^ 32" "take 4 data = number t"
    using u32_at_ok [of 0 data] assms by auto
  show ?thesis
  proof (cases "t = length data")
    case False
    then have "take 4 data \<noteq> number (length data)" if "length data < 2 ^ 32"
      using t number_inj [OF t(2) that] by simp
    then show ?thesis using other t False by blast
  qed (use t size in auto)
qed

lemma encode_table_length: "length (encode_table fs) = table_size fs"
  by (rule encode_table_parts(1) [OF refl refl])

lemma table_iff:
  "(\<exists>r. parse_table_fields data = Inr r) \<and>
   (parse_table_fields data = Inr (Some fs) \<longleftrightarrow> fs \<noteq> [] \<and> table_size fs < 2 ^ 32 \<and> data = encode_table fs)"
proof (cases "8 \<le> length data")
  case True
  then have "4 \<le> length data" by simp
  then show ?thesis
  proof (cases rule: total_header)
    case size
    then have eq: "parse_table_fields data = read_fields data (length data)" using True by (simp add: parse_table_fields_def)
    show ?thesis
      unfolding eq using read_fields_total [OF True] read_fields_sound [OF _ True size(3)] read_fields_encode [of data fs] size(2)
      by (metis encode_table_length)
  next
    case (other t)
    then have eq: "parse_table_fields data = Inr None" using True by (simp add: parse_table_fields_def)
    show ?thesis unfolding eq using other(3) encode_table_parts(2) [of data fs] encode_table_length [of fs] by auto
  qed
next
  case False
  moreover have "8 \<le> table_size fs" if "fs \<noteq> []" using that by (cases fs) (simp_all add: table_size_def)
  ultimately show ?thesis using encode_table_length [of fs] by (auto simp: parse_table_fields_def not_le)
qed

lemma encode_no_items: "encode_table [] = number 4"
  by (simp add: encode_table_def table_size_def)

lemma dynvec_iff:
  "(\<exists>r. parse_dynvec_items data = Inr r) \<and>
   (parse_dynvec_items data = Inr (Some fs) \<longleftrightarrow> table_size fs < 2 ^ 32 \<and> data = encode_table fs)"
proof (cases "8 \<le> length data")
  case True
  then have "parse_dynvec_items data = parse_table_fields data"
    by (auto simp: parse_dynvec_items_def parse_table_fields_def intro!: arg_cong [of _ _ "obind (u32_at data 0)"])
  moreover have "data \<noteq> encode_table []" using True by (auto simp: encode_no_items)
  ultimately show ?thesis using table_iff [of data fs] by auto
next
  case False
  have fields: "8 \<le> table_size fs" if "fs \<noteq> []" using that by (cases fs) (simp_all add: table_size_def)
  have empty: "table_size [] = 4" by (simp add: table_size_def)
  show ?thesis
  proof (cases "4 \<le> length data")
    case True
    then show ?thesis
    proof (cases rule: total_header)
      case size
      then have eq: "parse_dynvec_items data = Inr (if length data = 4 then Some [] else None)"
        using True False by (auto simp: parse_dynvec_items_def)
      have "data = encode_table fs \<longleftrightarrow> fs = [] \<and> length data = 4"
        using fields empty False size(3) encode_table_length [of fs] by (cases "fs = []") (auto simp: encode_no_items)
      then show ?thesis unfolding eq using empty by auto
    next
      case (other t)
      then have eq: "parse_dynvec_items data = Inr None" using True by (simp add: parse_dynvec_items_def)
      show ?thesis unfolding eq using other(3) encode_table_parts(2) [of data fs] encode_table_length [of fs] by auto
    qed
  next
    case short: False
    then have "4 \<le> table_size fs \<and> parse_dynvec_items data = Inr None"
      by (simp add: parse_dynvec_items_def table_size_def)
    then show ?thesis using short encode_table_length [of fs] by auto
  qed
qed

lemma bytes_iff:
  "(\<exists>r. parse_bytes data = Inr r) \<and> (parse_bytes data = Inr (Some c) \<longleftrightarrow> length c < 2 ^ 32 \<and> data = encode_bytes c)"
proof (cases "4 \<le> length data")
  case True
  then obtain n where n: "u32_at data 0 = Inr (Some n)" "n < 2 ^ 32" "take 4 data = number n"
    using u32_at_ok [of 0 data] by auto
  then have run: "parse_bytes data = Inr (if n + 4 = length data then Some (drop 4 data) else None)"
    using True by (simp add: parse_bytes_def)
  have "data = encode_bytes c \<longleftrightarrow> number (length c) = take 4 data \<and> c = drop 4 data"
    unfolding encode_bytes_def eq_commute [of data] append_eq_conv_conj by simp
  moreover have "number (length c) = number n \<longleftrightarrow> length c = n" if "length c < 2 ^ 32"
    by (rule number_inj [OF that n(2)])
  moreover have "length (encode_bytes c) = length c + 4" by (simp add: encode_bytes_def)
  ultimately show ?thesis unfolding run n(3) using True n(2) by auto
qed (auto simp: parse_bytes_def encode_bytes_def)

section \<open>Properties\<close>

text \<open>
  C40. The molecule readers never panic, whatever the bytes, and accept exactly the
  canonical encodings: a \<open>Bytes\<close>, a table with at least one field and a dynvec are read
  back from their encoding, and anything they accept is the encoding of what they return.
  (A table without fields is refused.)
\<close>

theorem molecule_readers_exact:
  "(\<exists>r. parse_bytes data = Inr r) \<and> (\<exists>r. parse_table_fields data = Inr r) \<and> (\<exists>r. parse_dynvec_items data = Inr r) \<and>
   (parse_bytes data = Inr (Some c) \<longleftrightarrow> length c < 2 ^ 32 \<and> data = encode_bytes c) \<and>
   (parse_table_fields data = Inr (Some fs) \<longleftrightarrow> fs \<noteq> [] \<and> table_size fs < 2 ^ 32 \<and> data = encode_table fs) \<and>
   (parse_dynvec_items data = Inr (Some fs) \<longleftrightarrow> table_size fs < 2 ^ 32 \<and> data = encode_table fs)"
  using bytes_iff [of data c] table_iff [of data fs] dynvec_iff [of data fs] by blast

end
