(* ===== verification/Live_Summary.thy ===== *)
theory Live_Summary
  imports Prelude
begin

text \<open>
  \<^verbatim>\<open>crates/indexer/src/sync/live_cell_summary.rs\<close> and \<open>LiveCellSummary\<close> of
  \<^verbatim>\<open>crates/ckbadger-store/src/types.rs\<close>: the four counters of the live cells, shared by the
  normal and the bulk sync. A \<open>u64\<close> counter is a natural number whose bound is checked
  where the code checks it. \<open>CellSummaryContext\<close> only feeds error messages and is left out.
\<close>

datatype LiveCellSummaryClass = DaoClass | TypedNonDaoClass | PlainClass

record LiveCellSummaryProjection =
  proj_class :: LiveCellSummaryClass
  proj_data_bearing :: bool

definition from_parts :: "bool \<Rightarrow> bool \<Rightarrow> bool \<Rightarrow> i32 \<Rightarrow> LiveCellSummaryProjection res" where
  "from_parts has_type_script has_type_code_hash is_dao data_size =
     (if has_type_script \<noteq> has_type_code_hash
      then Inl (Bail ''live-cell summary type-script projection mismatch'')
      else if is_dao \<and> \<not> has_type_script
      then Inl (Bail ''live-cell summary DAO classification without a type script'')
      else if sint data_size < 0 then Inl (Bail ''live-cell summary saw negative cell data size'')
      else Inr \<lparr>proj_class = (if is_dao then DaoClass else if has_type_script then TypedNonDaoClass else PlainClass),
                proj_data_bearing = 0 < sint data_size\<rparr>)"

record LiveCellSummaryCounter =
  cnt_dao :: nat
  cnt_typed_non_dao :: nat
  cnt_plain :: nat
  cnt_data_bearing :: nat

definition zero_counter :: LiveCellSummaryCounter where
  "zero_counter = \<lparr>cnt_dao = 0, cnt_typed_non_dao = 0, cnt_plain = 0, cnt_data_bearing = 0\<rparr>"

definition update_counter :: "nat \<Rightarrow> bool \<Rightarrow> nat res" where
  "update_counter current is_birth =
     (if is_birth
      then if current + 1 < 2 ^ 64 then Inr (current + 1) else Inl (Bail ''live-cell summary counter overflow'')
      else if current = 0 then Inl (Bail ''live-cell summary counter underflow'') else Inr (current - 1))"

definition after_transition :: "LiveCellSummaryCounter \<Rightarrow> LiveCellSummaryProjection \<Rightarrow> bool \<Rightarrow> LiveCellSummaryCounter res" where
  "after_transition c projection is_birth =
     rbind (case proj_class projection of
              DaoClass \<Rightarrow> rbind (update_counter (cnt_dao c) is_birth) (\<lambda>n. Inr (c\<lparr>cnt_dao := n\<rparr>))
            | TypedNonDaoClass \<Rightarrow>
                rbind (update_counter (cnt_typed_non_dao c) is_birth) (\<lambda>n. Inr (c\<lparr>cnt_typed_non_dao := n\<rparr>))
            | PlainClass \<Rightarrow> rbind (update_counter (cnt_plain c) is_birth) (\<lambda>n. Inr (c\<lparr>cnt_plain := n\<rparr>))) (\<lambda>c1.
     if proj_data_bearing projection
     then rbind (update_counter (cnt_data_bearing c1) is_birth) (\<lambda>n. Inr (c1\<lparr>cnt_data_bearing := n\<rparr>))
     else Inr c1)"

definition after_birth :: "LiveCellSummaryCounter \<Rightarrow> LiveCellSummaryProjection \<Rightarrow> LiveCellSummaryCounter res" where
  "after_birth c projection = after_transition c projection True"

definition after_spend :: "LiveCellSummaryCounter \<Rightarrow> LiveCellSummaryProjection \<Rightarrow> LiveCellSummaryCounter res" where
  "after_spend c projection = after_transition c projection False"

record LiveCellSummary =
  tip_block_number :: i64
  tip_block_hash :: bytes
  sum_dao :: nat
  sum_typed_non_dao :: nat
  sum_plain :: nat
  sum_data_bearing :: nat

definition live_cells_total :: "LiveCellSummary \<Rightarrow> nat res" where
  "live_cells_total s =
     rbind (ensure (sum_dao s + sum_typed_non_dao s < 2 ^ 64) (Bail ''live-cell summary class total overflow'')) (\<lambda>_.
     rbind (ensure (sum_dao s + sum_typed_non_dao s + sum_plain s < 2 ^ 64)
              (Bail ''live-cell summary class total overflow'')) (\<lambda>_.
     Inr (sum_dao s + sum_typed_non_dao s + sum_plain s)))"

definition validate_summary :: "LiveCellSummary \<Rightarrow> unit res" where
  "validate_summary s =
     rbind (ensure (0 \<le> sint (tip_block_number s)) (Bail ''live-cell summary has negative tip block'')) (\<lambda>_.
     rbind (live_cells_total s) (\<lambda>live_cells.
     ensure (sum_data_bearing s \<le> live_cells) (Bail ''live-cell summary data-bearing count exceeds live cells'')))"

definition validate_against_sync_totals :: "LiveCellSummary \<Rightarrow> i64 \<Rightarrow> i64 \<Rightarrow> unit res" where
  "validate_against_sync_totals s total_cells_created total_cells_consumed =
     rbind (validate_summary s) (\<lambda>_.
     rbind (ensure (\<not> (sint total_cells_created < 0 \<or> sint total_cells_consumed < 0))
              (Bail ''live-cell summary cannot validate against negative sync totals'')) (\<lambda>_.
     rbind (ok_or (checked fits_i64 (sint total_cells_created - sint total_cells_consumed))
              (Bail ''live-cell summary sync total subtraction overflow'')) (\<lambda>expected.
     rbind (ensure (\<not> expected < 0) (Bail ''live-cell summary sync totals imply a negative live-cell count'')) (\<lambda>_.
     rbind (live_cells_total s) (\<lambda>actual.
     ensure (int actual = expected) (Bail ''live-cell summary disagrees with sync totals''))))))"

definition from_summary :: "LiveCellSummary \<Rightarrow> LiveCellSummaryCounter res" where
  "from_summary s =
     rbind (validate_summary s) (\<lambda>_.
     Inr \<lparr>cnt_dao = sum_dao s, cnt_typed_non_dao = sum_typed_non_dao s, cnt_plain = sum_plain s,
          cnt_data_bearing = sum_data_bearing s\<rparr>)"

definition snapshot_counter :: "LiveCellSummaryCounter \<Rightarrow> i64 \<Rightarrow> bytes \<Rightarrow> LiveCellSummary res" where
  "snapshot_counter c block_number block_hash =
     rbind (ensure (length block_hash = 32) (Bail ''live-cell summary block hash must be exactly 32 bytes'')) (\<lambda>_.
     let summary = \<lparr>tip_block_number = block_number, tip_block_hash = block_hash, sum_dao = cnt_dao c,
           sum_typed_non_dao = cnt_typed_non_dao c, sum_plain = cnt_plain c, sum_data_bearing = cnt_data_bearing c\<rparr>
     in rbind (validate_summary summary) (\<lambda>_. Inr summary))"

section \<open>The counters as counts of projections\<close>

definition class_tally :: "LiveCellSummaryProjection \<Rightarrow> LiveCellSummaryCounter" where
  "class_tally p =
     \<lparr>cnt_dao = of_bool (proj_class p = DaoClass), cnt_typed_non_dao = of_bool (proj_class p = TypedNonDaoClass),
      cnt_plain = of_bool (proj_class p = PlainClass), cnt_data_bearing = of_bool (proj_data_bearing p)\<rparr>"

definition counter_add :: "LiveCellSummaryCounter \<Rightarrow> LiveCellSummaryCounter \<Rightarrow> LiveCellSummaryCounter" where
  "counter_add a b =
     \<lparr>cnt_dao = cnt_dao a + cnt_dao b, cnt_typed_non_dao = cnt_typed_non_dao a + cnt_typed_non_dao b,
      cnt_plain = cnt_plain a + cnt_plain b, cnt_data_bearing = cnt_data_bearing a + cnt_data_bearing b\<rparr>"

definition counter_fits :: "LiveCellSummaryCounter \<Rightarrow> bool" where
  "counter_fits c \<longleftrightarrow> cnt_dao c < 2 ^ 64 \<and> cnt_typed_non_dao c < 2 ^ 64 \<and> cnt_plain c < 2 ^ 64 \<and> cnt_data_bearing c < 2 ^ 64"

text \<open>A birth adds the cell's projection to the counters, a spend takes it off again.\<close>

lemma after_birth_Inr: "after_birth c p = Inr c' \<Longrightarrow> c' = counter_add c (class_tally p)"
  by (cases "proj_class p")
    (auto simp: after_birth_def after_transition_def update_counter_def counter_add_def class_tally_def res_simps split: if_splits)

lemma after_birth_iff:
  assumes "counter_fits c"
  shows "is_ok (after_birth c p) \<longleftrightarrow> counter_fits (counter_add c (class_tally p))"
  using assms by (cases "proj_class p")
    (auto simp: after_birth_def after_transition_def update_counter_def counter_add_def class_tally_def counter_fits_def is_ok_rbind)

lemma counter_fits_add: "counter_fits (counter_add c d) \<Longrightarrow> counter_fits c"
  by (simp add: counter_fits_def counter_add_def)

lemma after_birth_fits:
  "counter_fits (counter_add c (class_tally p)) \<Longrightarrow> after_birth c p = Inr (counter_add c (class_tally p))"
  by (cases "proj_class p")
    (auto simp: after_birth_def after_transition_def update_counter_def counter_add_def class_tally_def counter_fits_def)

lemma after_spend_undoes: "after_spend (counter_add c (class_tally p)) p = Inr c"
  by (cases "proj_class p")
    (auto simp: after_spend_def after_transition_def update_counter_def counter_add_def class_tally_def)

text \<open>The classes partition the live cells, so a snapshot of true counts only fails on overflow.\<close>

lemma snapshot_counter_Inr:
  "snapshot_counter c n h = Inr s \<Longrightarrow>
    s = \<lparr>tip_block_number = n, tip_block_hash = h, sum_dao = cnt_dao c, sum_typed_non_dao = cnt_typed_non_dao c,
      sum_plain = cnt_plain c, sum_data_bearing = cnt_data_bearing c\<rparr> \<and> 0 \<le> sint n"
  by (auto simp: snapshot_counter_def validate_summary_def Let_def res_simps)

lemma snapshot_counter_ok:
  assumes "length h = 32" "0 \<le> sint n" "cnt_dao c + cnt_typed_non_dao c + cnt_plain c < 2 ^ 64"
    "cnt_data_bearing c \<le> cnt_dao c + cnt_typed_non_dao c + cnt_plain c"
  shows "snapshot_counter c n h = Inr \<lparr>tip_block_number = n, tip_block_hash = h, sum_dao = cnt_dao c,
    sum_typed_non_dao = cnt_typed_non_dao c, sum_plain = cnt_plain c, sum_data_bearing = cnt_data_bearing c\<rparr>"
  using assms by (simp add: snapshot_counter_def validate_summary_def live_cells_total_def Let_def)

end
