(* ===== verification/Interner.thy ===== *)
theory Interner
  imports Prelude
begin

text \<open>
  \<^verbatim>\<open>crates/indexer/src/sync/bulk_build/interner.rs\<close>: the identity interner of the bulk
  build, its reclamation of identities nothing refers to, and the reference counts that
  decide which those are. \<open>InternId\<close> is the index it wraps. The lookup map is read
  without a lock, everything else happens under the storage lock, so a concurrent
  \<open>intern_bytes\<close> is a read of the map followed, on a miss, by one atomic slow step in a
  later state. Reclamation is one step: it runs between batches, when nothing interns.
  \<open>frozen_views\<close> counts the other owners of the shared value table. A panic
  aborts the process, so the state beside it does not matter.
\<close>

section \<open>The interner\<close>

record interner =
  by_value :: "bytes \<Rightarrow> nat option"
  slot_values :: "bytes option list"
  free_ids :: "nat list"
  payload_bytes :: nat
  lock_script_written :: "bool list"
  lock_script_written_count :: nat
  frozen_views :: nat
  intern_call_count :: u64
  intern_slow_path_count :: u64

definition empty_interner :: interner where
  "empty_interner = \<lparr>by_value = (\<lambda>_. None), slot_values = [], free_ids = [], payload_bytes = 0,
     lock_script_written = [], lock_script_written_count = 0, frozen_views = 0,
     intern_call_count = 0, intern_slow_path_count = 0\<rparr>"

definition InternId_new :: "nat \<Rightarrow> nat res" where
  "InternId_new index = (if index < 2 ^ 32 then Inr index else Inl (Panic ''intern id overflow''))"

text \<open>The storage update for a reused and for a new slot, after the guards of each.\<close>

definition place_value :: "interner \<Rightarrow> bytes \<Rightarrow> (interner \<times> nat) res" where
  "place_value s bs =
     (if free_ids s \<noteq> [] then
        let i = last (free_ids s)
        in if length (lock_script_written s) \<le> i
           then Inl (Panic ''free intern id is outside lock-script marker table'')
           else if lock_script_written s ! i then Inl (Panic ''free intern id still has a lock-script write marker'')
           else if frozen_views s \<noteq> 0 then Inl (Panic ''cannot intern identity while a frozen identity view is alive'')
           else if length (slot_values s) \<le> i then Inl (Panic ''free intern id is outside the value table'')
           else if slot_values s ! i \<noteq> None then Inl (Panic ''free intern id still has a value'')
           else Inr (s\<lparr>free_ids := butlast (free_ids s), slot_values := (slot_values s)[i := Some bs]\<rparr>, i)
      else if frozen_views s \<noteq> 0 then Inl (Panic ''cannot intern identity while a frozen identity view is alive'')
      else rbind (InternId_new (length (slot_values s))) (\<lambda>i.
           Inr (s\<lparr>slot_values := slot_values s @ [Some bs],
                  lock_script_written := lock_script_written s @ [False]\<rparr>, i)))"

definition intern_slow :: "interner \<Rightarrow> bytes \<Rightarrow> (interner \<times> nat) res" where
  "intern_slow s bs =
     (case by_value s bs of
        Some i \<Rightarrow> Inr (s, i)
      | None \<Rightarrow>
          rbind (ensure (payload_bytes s + length bs < 2 ^ 64) (Panic ''intern identity payload accounting overflow'')) (\<lambda>_.
          rbind (place_value s bs) (\<lambda>(s1, i).
          rbind (ensure (length (lock_script_written s1) = length (slot_values s1))
                   (Panic ''intern value and lock-script marker tables diverged after insert'')) (\<lambda>_.
          Inr (s1\<lparr>payload_bytes := payload_bytes s + length bs, by_value := (by_value s1)(bs \<mapsto> i)\<rparr>, i)))))"

definition intern_bytes :: "interner \<Rightarrow> bytes \<Rightarrow> (interner \<times> nat) res" where
  "intern_bytes s bs =
     (let s1 = s\<lparr>intern_call_count := intern_call_count s + 1\<rparr>
      in case by_value s1 bs of
           Some i \<Rightarrow> Inr (s1, i)
         | None \<Rightarrow> intern_slow (s1\<lparr>intern_slow_path_count := intern_slow_path_count s1 + 1\<rparr>) bs)"

definition drain_counters :: "interner \<Rightarrow> interner \<times> (u64 \<times> u64)" where
  "drain_counters s =
     (s\<lparr>intern_call_count := 0, intern_slow_path_count := 0\<rparr>, (intern_call_count s, intern_slow_path_count s))"

definition snapshot_for_reads :: "interner \<Rightarrow> interner \<times> bytes option list" where
  "snapshot_for_reads s = (s\<lparr>frozen_views := frozen_views s + 1\<rparr>, slot_values s)"

definition resolve_bytes :: "bytes option list \<Rightarrow> nat \<Rightarrow> bytes res" where
  "resolve_bytes view i =
     (if i < length view then ok_or (view ! i) (Panic ''missing interned identity bytes'')
      else Inl (Panic ''missing interned identity bytes''))"

definition mark_lock_script_written :: "interner \<Rightarrow> nat \<Rightarrow> interner \<times> bool res" where
  "mark_lock_script_written s i =
     (if \<not> (i < length (slot_values s) \<and> slot_values s ! i \<noteq> None)
      then (s, Inl (Bail ''cannot mark an inactive intern id as a written lock script''))
      else if length (lock_script_written s) \<le> i
      then (s, Inl (Bail ''lock-script marker table is missing an active intern id''))
      else if lock_script_written s ! i then (s, Inr False)
      else let s1 = s\<lparr>lock_script_written := (lock_script_written s)[i := True]\<rparr>
           in if 2 ^ 64 \<le> lock_script_written_count s + 1
              then (s1, Inl (Bail ''written lock-script identity count overflow''))
              else (s1\<lparr>lock_script_written_count := lock_script_written_count s + 1\<rparr>, Inr True))"

section \<open>Reclamation\<close>

record ReclaimStats =
  rs_identities :: nat
  rs_payload_bytes :: nat
  rs_invalidated :: nat

definition no_reclaim :: ReclaimStats where
  "no_reclaim = \<lparr>rs_identities = 0, rs_payload_bytes = 0, rs_invalidated = 0\<rparr>"

definition count_reclaimed :: "ReclaimStats \<Rightarrow> bool \<Rightarrow> nat \<Rightarrow> ReclaimStats res" where
  "count_reclaimed stats marked payload_len =
     rbind (ensure (rs_invalidated stats + (if marked then 1 else 0) < 2 ^ 64)
              (Bail ''invalidated lock-script marker count overflow'')) (\<lambda>_.
     rbind (ensure (rs_identities stats + 1 < 2 ^ 64) (Bail ''reclaimed identity count overflow'')) (\<lambda>_.
     rbind (ensure (rs_payload_bytes stats + payload_len < 2 ^ 64) (Bail ''reclaimed identity byte count overflow'')) (\<lambda>_.
     Inr \<lparr>rs_identities = rs_identities stats + 1,
          rs_payload_bytes = rs_payload_bytes stats + payload_len,
          rs_invalidated = rs_invalidated stats + (if marked then 1 else 0)\<rparr>)))"

text \<open>The body of the loop for one candidate; an early return leaves what was done so far.\<close>

definition reclaim_one :: "interner \<Rightarrow> ReclaimStats \<Rightarrow> nat \<Rightarrow> interner \<times> ReclaimStats res" where
  "reclaim_one s stats i =
     (if length (slot_values s) \<le> i then (s, Inl (Bail ''reclaim candidate is outside intern value table''))
      else case slot_values s ! i of
          None \<Rightarrow> (s, Inl (Bail ''reclaim candidate is already free''))
        | Some shared \<Rightarrow>
            let s1 = s\<lparr>slot_values := (slot_values s)[i := None]\<rparr>
            in case by_value s1 shared of
                None \<Rightarrow> (s1, Inl (Bail ''reclaim candidate is missing from identity lookup map''))
              | Some j \<Rightarrow>
                  let s2 = s1\<lparr>by_value := (by_value s1)(shared := None)\<rparr>
                  in if j \<noteq> i then (s2, Inl (Bail ''identity lookup map returned the wrong id during reclaim''))
                     else if payload_bytes s2 < length shared
                     then (s2, Inl (Bail ''identity payload accounting underflow during reclaim''))
                     else let s3 = s2\<lparr>payload_bytes := payload_bytes s2 - length shared, free_ids := free_ids s2 @ [i]\<rparr>
                       in if length (lock_script_written s3) \<le> i
                          then (s3, Inl (Bail ''lock-script marker table is missing a reclaimed intern id''))
                          else let marked = lock_script_written s3 ! i;
                                   s4 = (if marked then s3\<lparr>lock_script_written := (lock_script_written s3)[i := False]\<rparr> else s3)
                            in if marked \<and> lock_script_written_count s4 = 0
                               then (s4, Inl (Bail ''written lock-script identity count underflow during reclaim''))
                               else
                                 (if marked then s4\<lparr>lock_script_written_count := lock_script_written_count s4 - 1\<rparr> else s4,
                                  count_reclaimed stats marked (length shared)))"

fun reclaim_loop :: "interner \<Rightarrow> ReclaimStats \<Rightarrow> nat list \<Rightarrow> interner \<times> ReclaimStats res" where
  "reclaim_loop s stats [] = (s, Inr stats)"
| "reclaim_loop s stats (i # candidates) =
     (case reclaim_one s stats i of
        (s', Inl e) \<Rightarrow> (s', Inl e)
      | (s', Inr stats') \<Rightarrow> reclaim_loop s' stats' candidates)"

definition reclaim_zero_ref_identities :: "interner \<Rightarrow> nat list \<Rightarrow> interner \<times> ReclaimStats res" where
  "reclaim_zero_ref_identities s candidates =
     (if candidates = [] then (s, Inr no_reclaim)
      else if frozen_views s \<noteq> 0
      then (s, Inl (Bail ''cannot reclaim interned identities while frozen views are alive''))
      else reclaim_loop s no_reclaim candidates)"

section \<open>Reference counts\<close>

record IdentityLiveness =
  live_refs :: "nat list"
  queued_for_reclaim :: "bool list"
  zero_candidates :: "nat list"

definition no_liveness :: IdentityLiveness where
  "no_liveness = \<lparr>live_refs = [], queued_for_reclaim = [], zero_candidates = []\<rparr>"

definition ensure_slots :: "IdentityLiveness \<Rightarrow> nat \<Rightarrow> IdentityLiveness" where
  "ensure_slots l slot_len =
     (if length (live_refs l) < slot_len
      then l\<lparr>live_refs := live_refs l @ replicate (slot_len - length (live_refs l)) 0,
             queued_for_reclaim := take slot_len (queued_for_reclaim l) @
               replicate (slot_len - length (queued_for_reclaim l)) False\<rparr>
      else l)"

definition retain_id :: "IdentityLiveness \<Rightarrow> nat \<Rightarrow> IdentityLiveness res" where
  "retain_id l i =
     (if length (live_refs l) \<le> i then Inl (Bail ''cannot retain unknown intern id'')
      else if 2 ^ 32 \<le> live_refs l ! i + 1 then Inl (Bail ''live identity reference count overflow'')
      else Inr (l\<lparr>live_refs := (live_refs l)[i := live_refs l ! i + 1]\<rparr>))"

definition release_id :: "IdentityLiveness \<Rightarrow> nat \<Rightarrow> IdentityLiveness res" where
  "release_id l i =
     (if length (live_refs l) \<le> i then Inl (Bail ''cannot release unknown intern id'')
      else if live_refs l ! i = 0 then Inl (Bail ''live identity reference count underflow'')
      else
        let l1 = l\<lparr>live_refs := (live_refs l)[i := live_refs l ! i - 1]\<rparr>
        in if live_refs l1 ! i = 0 then
             (if length (queued_for_reclaim l1) \<le> i then Inl (Panic ''index out of bounds'')
              else if queued_for_reclaim l1 ! i then Inr l1
              else Inr (l1\<lparr>queued_for_reclaim := (queued_for_reclaim l1)[i := True],
                          zero_candidates := zero_candidates l1 @ [i]\<rparr>))
           else Inr l1)"

fun drain_loop :: "nat list \<Rightarrow> nat list \<Rightarrow> bool list \<Rightarrow> nat list \<Rightarrow> (bool list \<times> nat list) res" where
  "drain_loop refs [] queued reclaimable = Inr (queued, reclaimable)"
| "drain_loop refs (i # candidates) queued reclaimable =
     (if length queued \<le> i \<or> length refs \<le> i then Inl (Panic ''index out of bounds'')
      else drain_loop refs candidates (queued[i := False])
             (if refs ! i = 0 then reclaimable @ [i] else reclaimable))"

definition drain_zero_candidates :: "IdentityLiveness \<Rightarrow> (IdentityLiveness \<times> nat list) res" where
  "drain_zero_candidates l =
     rbind (drain_loop (live_refs l) (zero_candidates l) (queued_for_reclaim l) []) (\<lambda>(queued, reclaimable).
     Inr (l\<lparr>queued_for_reclaim := queued, zero_candidates := []\<rparr>, reclaimable))"

section \<open>The invariant\<close>

definition slot_at :: "interner \<Rightarrow> nat \<Rightarrow> bytes option" where
  "slot_at s i = (if i < length (slot_values s) then slot_values s ! i else None)"

definition interner_ok :: "interner \<Rightarrow> bool" where
  "interner_ok s \<longleftrightarrow>
     length (lock_script_written s) = length (slot_values s) \<and>
     (\<forall>bs i. by_value s bs = Some i \<longleftrightarrow> i < length (slot_values s) \<and> slot_values s ! i = Some bs) \<and>
     distinct (free_ids s) \<and>
     (\<forall>i. i \<in> set (free_ids s) \<longleftrightarrow> i < length (slot_values s) \<and> slot_values s ! i = None) \<and>
     payload_bytes s = (\<Sum>v\<leftarrow>slot_values s. case v of None \<Rightarrow> 0 | Some bs \<Rightarrow> length bs) \<and>
     payload_bytes s < 2 ^ 64 \<and>
     length (slot_values s) \<le> 2 ^ 32 \<and>
     lock_script_written_count s = (\<Sum>m\<leftarrow>lock_script_written s. of_bool m) \<and>
     (\<forall>i < length (slot_values s). lock_script_written s ! i \<longrightarrow> slot_values s ! i \<noteq> None)"

lemma sum_list_update_nat:
  fixes f :: "'a \<Rightarrow> nat"
  shows "i < length xs \<Longrightarrow> (\<Sum>x\<leftarrow>xs[i := y]. f x) + f (xs ! i) = (\<Sum>x\<leftarrow>xs. f x) + f y"
  by (induction xs arbitrary: i) (auto simp: nth_Cons' split: nat.splits)

lemma sum_list_of_bool_le: "(\<Sum>m\<leftarrow>ms. of_bool m :: nat) \<le> length ms"
  by (induction ms) auto

lemma interner_okD:
  assumes "interner_ok s"
  shows "length (lock_script_written s) = length (slot_values s)"
    and "by_value s bs = Some i \<longleftrightarrow> i < length (slot_values s) \<and> slot_values s ! i = Some bs"
    and "distinct (free_ids s)"
    and "i \<in> set (free_ids s) \<longleftrightarrow> i < length (slot_values s) \<and> slot_values s ! i = None"
    and "payload_bytes s = (\<Sum>v\<leftarrow>slot_values s. case v of None \<Rightarrow> 0 | Some bs \<Rightarrow> length bs)"
    and "lock_script_written_count s = (\<Sum>m\<leftarrow>lock_script_written s. of_bool m)"
    and "i < length (slot_values s) \<Longrightarrow> lock_script_written s ! i \<Longrightarrow> slot_values s ! i \<noteq> None"
    and "payload_bytes s < 2 ^ 64"
    and "length (slot_values s) \<le> 2 ^ 32"
  using assms unfolding interner_ok_def by blast+

lemma by_value_slot_at: "interner_ok s \<Longrightarrow> by_value s bs = Some i \<longleftrightarrow> slot_at s i = Some bs"
  by (auto simp: slot_at_def interner_okD(2))

lemma interner_ok_empty: "interner_ok empty_interner"
  by (simp add: interner_ok_def empty_interner_def)

lemma interner_ok_truncate:
  "interner_ok (s\<lparr>intern_call_count := c\<rparr>) = interner_ok s"
  "interner_ok (s\<lparr>intern_slow_path_count := c\<rparr>) = interner_ok s"
  "interner_ok (s\<lparr>frozen_views := n\<rparr>) = interner_ok s"
  by (simp_all add: interner_ok_def)

text \<open>Filling a free slot, appending a slot and clearing a slot keep the invariant.\<close>

lemma interner_ok_reuse:
  assumes ok: "interner_ok s" and miss: "by_value s bs = None" and free: "free_ids s \<noteq> []"
    and fits: "payload_bytes s + length bs < 2 ^ 64"
  defines "i \<equiv> last (free_ids s)"
  shows "interner_ok (s\<lparr>free_ids := butlast (free_ids s), slot_values := (slot_values s)[i := Some bs],
    payload_bytes := payload_bytes s + length bs, by_value := (by_value s)(bs \<mapsto> i)\<rparr>)"
proof -
  have split: "free_ids s = butlast (free_ids s) @ [i]" using free by (simp add: i_def)
  have mem: "i \<in> set (free_ids s)" using free by (simp add: i_def)
  have i: "i < length (slot_values s)" "slot_values s ! i = None"
    using mem interner_okD(4) [OF ok] by auto
  have dist: "distinct (butlast (free_ids s))" "i \<notin> set (butlast (free_ids s))"
    using interner_okD(3) [OF ok] split by (metis distinct_append distinct.simps(2) append_Nil2 not_distinct_conv_prefix distinct_butlast)+
  have frees: "j \<in> set (butlast (free_ids s)) \<longleftrightarrow> j \<in> set (free_ids s) \<and> j \<noteq> i" for j
    by (subst (2) split) (use dist(2) in auto)
  have nomatch: "slot_values s ! j \<noteq> Some bs" if "j < length (slot_values s)" for j
    using interner_okD(2) [OF ok, of bs j] miss that by simp
  have sum: "(\<Sum>v\<leftarrow>(slot_values s)[i := Some bs]. case v of None \<Rightarrow> 0 | Some bs \<Rightarrow> length bs) =
      payload_bytes s + length bs"
    using sum_list_update_nat [OF i(1), of "case_option 0 length" "Some bs"] i(2) interner_okD(5) [OF ok]
    by simp
  show ?thesis
    unfolding interner_ok_def
    using i nomatch fits interner_okD(1,6,7,9) [OF ok] dist(1)
    by (auto simp: frees interner_okD(2,4) [OF ok] sum nth_list_update)
qed

lemma interner_ok_append:
  assumes ok: "interner_ok s" and miss: "by_value s bs = None" and full: "free_ids s = []"
    and fits: "payload_bytes s + length bs < 2 ^ 64" "length (slot_values s) < 2 ^ 32"
  shows "interner_ok (s\<lparr>slot_values := slot_values s @ [Some bs], lock_script_written := lock_script_written s @ [False],
    payload_bytes := payload_bytes s + length bs, by_value := (by_value s)(bs \<mapsto> length (slot_values s))\<rparr>)"
proof -
  have used: "slot_values s ! j \<noteq> None" "slot_values s ! j \<noteq> Some bs" if "j < length (slot_values s)" for j
    using interner_okD(2) [OF ok, of bs j] interner_okD(4) [OF ok, of j] miss full that by auto
  show ?thesis
    unfolding interner_ok_def
    using used fits interner_okD(1,6,7) [OF ok] full
    by (auto simp: interner_okD(2,5) [OF ok] nth_append less_Suc_eq)
qed

lemma interner_ok_clear:
  assumes ok: "interner_ok s" and i: "i < length (slot_values s)" and v: "slot_values s ! i = Some bs"
  shows "interner_ok (s\<lparr>slot_values := (slot_values s)[i := None], by_value := (by_value s)(bs := None),
    payload_bytes := payload_bytes s - length bs, free_ids := free_ids s @ [i],
    lock_script_written := (lock_script_written s)[i := False],
    lock_script_written_count := lock_script_written_count s - of_bool (lock_script_written s ! i)\<rparr>)"
proof -
  have other: "slot_values s ! j = Some bs \<longleftrightarrow> j = i" if "j < length (slot_values s)" for j
    using interner_okD(2) [OF ok, of bs j] interner_okD(2) [OF ok, of bs i] i v that by auto
  have same: "y = bs" if "slot_values s ! i = Some y" for y using v that by simp
  have nfree: "i \<notin> set (free_ids s)" using interner_okD(4) [OF ok, of i] v by simp
  have "(\<Sum>v\<leftarrow>(slot_values s)[i := None]. case v of None \<Rightarrow> 0 | Some bs \<Rightarrow> length bs) =
      payload_bytes s - length bs"
    using sum_list_update_nat [OF i, of "case_option 0 length" None] v interner_okD(5) [OF ok] by simp
  moreover have "(\<Sum>m\<leftarrow>(lock_script_written s)[i := False]. of_bool m) =
      lock_script_written_count s - of_bool (lock_script_written s ! i)"
    using sum_list_update_nat [of i "lock_script_written s" of_bool False] i interner_okD(1,6) [OF ok] by simp
  ultimately show ?thesis
    unfolding interner_ok_def
    using i v nfree other interner_okD(1,3,7,8,9) [OF ok]
    by (auto simp: interner_okD(2,4) [OF ok] nth_list_update dest: same)
qed

section \<open>The operations on the invariant\<close>

lemma intern_slow_hit: "by_value s bs = Some i \<Longrightarrow> intern_slow s bs = Inr (s, i)"
  by (simp add: intern_slow_def)

lemma intern_slow_reuse:
  assumes ok: "interner_ok s" and miss: "by_value s bs = None" and free: "free_ids s \<noteq> []"
    and fits: "payload_bytes s + length bs < 2 ^ 64"
  shows "intern_slow s bs = (if frozen_views s \<noteq> 0 then Inl (Panic ''cannot intern identity while a frozen identity view is alive'')
    else Inr (s\<lparr>free_ids := butlast (free_ids s), slot_values := (slot_values s)[last (free_ids s) := Some bs],
      payload_bytes := payload_bytes s + length bs, by_value := (by_value s)(bs \<mapsto> last (free_ids s))\<rparr>, last (free_ids s)))"
proof -
  have i: "last (free_ids s) < length (slot_values s)" "slot_values s ! last (free_ids s) = None"
    using free interner_okD(4) [OF ok, of "last (free_ids s)"] by auto
  then have "\<not> lock_script_written s ! last (free_ids s)" using interner_okD(7) [OF ok] by blast
  then show ?thesis
    using i miss free fits interner_okD(1) [OF ok]
    by (simp add: intern_slow_def place_value_def ensure_def rbind_def Let_def)
qed

lemma intern_slow_append:
  assumes ok: "interner_ok s" and miss: "by_value s bs = None" and full: "free_ids s = []"
    and fits: "payload_bytes s + length bs < 2 ^ 64"
  shows "intern_slow s bs = (if frozen_views s \<noteq> 0 then Inl (Panic ''cannot intern identity while a frozen identity view is alive'')
    else if length (slot_values s) < 2 ^ 32
    then Inr (s\<lparr>slot_values := slot_values s @ [Some bs], lock_script_written := lock_script_written s @ [False],
      payload_bytes := payload_bytes s + length bs, by_value := (by_value s)(bs \<mapsto> length (slot_values s))\<rparr>, length (slot_values s))
    else Inl (Panic ''intern id overflow''))"
  using miss full fits interner_okD(1) [OF ok]
  by (simp add: intern_slow_def place_value_def InternId_new_def ensure_def rbind_def)

lemma intern_slow_ok:
  assumes ok: "interner_ok s" and run: "intern_slow s bs = Inr (s', i)"
  shows "interner_ok s'" "slot_at s' = (slot_at s)(i \<mapsto> bs)" "slot_at s i \<in> {None, Some bs}"
    "frozen_views s' = frozen_views s" "frozen_views s \<noteq> 0 \<Longrightarrow> slot_values s' = slot_values s"
proof -
  consider j where "by_value s bs = Some j"
    | "by_value s bs = None" "\<not> payload_bytes s + length bs < 2 ^ 64"
    | "by_value s bs = None" "payload_bytes s + length bs < 2 ^ 64" "free_ids s \<noteq> []"
    | "by_value s bs = None" "payload_bytes s + length bs < 2 ^ 64" "free_ids s = []"
    by (cases "by_value s bs") auto
  then have "interner_ok s' \<and> slot_at s' = (slot_at s)(i \<mapsto> bs) \<and> slot_at s i \<in> {None, Some bs} \<and>
    frozen_views s' = frozen_views s \<and> (frozen_views s \<noteq> 0 \<longrightarrow> slot_values s' = slot_values s)"
  proof cases
    case 1
    then show ?thesis using run ok by (auto simp: intern_slow_hit by_value_slot_at fun_upd_idem)
  next
    case 2
    then show ?thesis using run by (simp add: intern_slow_def ensure_def rbind_def)
  next
    case 3
    have "last (free_ids s) < length (slot_values s) \<and> slot_values s ! last (free_ids s) = None"
      using 3(3) interner_okD(4) [OF ok, of "last (free_ids s)"] by auto
    then show ?thesis
      using run interner_ok_reuse [OF ok 3(1,3,2)]
      by (auto simp: intern_slow_reuse [OF ok 3(1,3,2)] slot_at_def fun_eq_iff split: if_splits)
  next
    case 4
    then show ?thesis
      using run interner_ok_append [OF ok 4(1,3,2)]
      by (auto simp: intern_slow_append [OF ok 4(1,3,2)] slot_at_def fun_eq_iff nth_append split: if_splits)
  qed
  then show "interner_ok s'" "slot_at s' = (slot_at s)(i \<mapsto> bs)" "slot_at s i \<in> {None, Some bs}"
    "frozen_views s' = frozen_views s" "frozen_views s \<noteq> 0 \<Longrightarrow> slot_values s' = slot_values s"
    by blast+
qed

text \<open>On the invariant no internal assertion fails: only a live view or an exhausted counter stops it.\<close>

lemma intern_slow_succeeds:
  assumes ok: "interner_ok s"
  shows "is_ok (intern_slow s bs) \<longleftrightarrow> by_value s bs \<noteq> None \<or>
    frozen_views s = 0 \<and> payload_bytes s + length bs < 2 ^ 64 \<and> (free_ids s \<noteq> [] \<or> length (slot_values s) < 2 ^ 32)"
proof -
  consider j where "by_value s bs = Some j"
    | "by_value s bs = None" "\<not> payload_bytes s + length bs < 2 ^ 64"
    | "by_value s bs = None" "payload_bytes s + length bs < 2 ^ 64" "free_ids s \<noteq> []"
    | "by_value s bs = None" "payload_bytes s + length bs < 2 ^ 64" "free_ids s = []"
    by (cases "by_value s bs") auto
  then show ?thesis
  proof cases
    case 1
    then show ?thesis by (simp add: intern_slow_hit)
  next
    case 2
    then show ?thesis by (simp add: intern_slow_def ensure_def rbind_def)
  next
    case 3
    then show ?thesis by (simp add: intern_slow_reuse [OF ok 3(1,3,2)])
  next
    case 4
    then show ?thesis by (simp add: intern_slow_append [OF ok 4(1,3,2)])
  qed
qed

lemma mark_ok:
  assumes ok: "interner_ok s"
  shows "mark_lock_script_written s i =
    (case slot_at s i of
       None \<Rightarrow> (s, Inl (Bail ''cannot mark an inactive intern id as a written lock script''))
     | Some _ \<Rightarrow> if lock_script_written s ! i then (s, Inr False)
         else (s\<lparr>lock_script_written := (lock_script_written s)[i := True],
                lock_script_written_count := lock_script_written_count s + 1\<rparr>, Inr True))"
proof -
  have "lock_script_written_count s \<le> length (lock_script_written s)"
    unfolding interner_okD(6) [OF ok] by (rule sum_list_of_bool_le)
  also have "\<dots> \<le> 2 ^ 32" using interner_okD(1,9) [OF ok] by simp
  finally have "lock_script_written_count s + 1 < 2 ^ 64" by simp
  then show ?thesis
    using interner_okD(1) [OF ok]
    by (auto simp: mark_lock_script_written_def slot_at_def Let_def split: option.splits)
qed

lemma interner_ok_mark:
  assumes ok: "interner_ok s" and i: "slot_at s i \<noteq> None" and m: "\<not> lock_script_written s ! i"
  shows "interner_ok (s\<lparr>lock_script_written := (lock_script_written s)[i := True],
    lock_script_written_count := lock_script_written_count s + 1\<rparr>)"
proof -
  have "i < length (lock_script_written s)" using i interner_okD(1) [OF ok] by (auto simp: slot_at_def split: if_splits)
  then have "(\<Sum>m\<leftarrow>(lock_script_written s)[i := True]. of_bool m) = lock_script_written_count s + 1"
    using sum_list_update_nat [of i "lock_script_written s" of_bool True] m interner_okD(6) [OF ok] by simp
  then show ?thesis
    using ok i by (auto simp: interner_ok_def nth_list_update slot_at_def split: if_splits)
qed

lemma mark_keeps: "interner_ok s \<Longrightarrow> interner_ok (fst (mark_lock_script_written s i))"
proof (cases "slot_at s i = None \<or> lock_script_written s ! i")
  case False
  assume ok: "interner_ok s"
  have "mark_lock_script_written s i = (s\<lparr>lock_script_written := (lock_script_written s)[i := True],
    lock_script_written_count := lock_script_written_count s + 1\<rparr>, Inr True)"
    using False by (simp add: mark_ok [OF ok] split: option.splits)
  moreover have "slot_at s i \<noteq> None" "\<not> lock_script_written s ! i" using False by auto
  ultimately show ?thesis using interner_ok_mark [OF ok] by (simp only: fst_conv)
qed (auto simp: mark_ok split: option.splits)

lemma reclaim_one_inactive:
  "slot_at s i = None \<Longrightarrow> \<exists>e. reclaim_one s stats i = (s, Inl (Bail e))"
  by (simp add: reclaim_one_def slot_at_def split: if_splits)

lemma reclaim_one_active:
  assumes ok: "interner_ok s" and v: "slot_at s i = Some bs"
  shows "\<exists>s'. reclaim_one s stats i = (s', count_reclaimed stats (lock_script_written s ! i) (length bs)) \<and>
    interner_ok s' \<and> slot_at s' = (slot_at s)(i := None) \<and> frozen_views s' = frozen_views s \<and>
    payload_bytes s' + length bs = payload_bytes s"
proof -
  have i: "i < length (slot_values s)" "slot_values s ! i = Some bs" using v by (auto simp: slot_at_def split: if_splits)
  have look: "by_value s bs = Some i" using v by_value_slot_at [OF ok] by simp
  have "length bs \<le> (\<Sum>v\<leftarrow>slot_values s. case v of None \<Rightarrow> 0 | Some bs \<Rightarrow> length bs)"
    by (rule member_le_sum_list) (use i in \<open>force simp: in_set_conv_nth\<close>, simp)
  then have pay: "length bs \<le> payload_bytes s" using interner_okD(5) [OF ok] by simp
  have cnt: "lock_script_written_count s \<noteq> 0" if "lock_script_written s ! i"
  proof -
    have "True \<in> set (lock_script_written s)"
      using that nth_mem [of i "lock_script_written s"] i(1) interner_okD(1) [OF ok] by simp
    then show ?thesis unfolding interner_okD(6) [OF ok] by auto
  qed
  define s' where "s' = s\<lparr>slot_values := (slot_values s)[i := None], by_value := (by_value s)(bs := None),
    payload_bytes := payload_bytes s - length bs, free_ids := free_ids s @ [i],
    lock_script_written := (lock_script_written s)[i := False],
    lock_script_written_count := lock_script_written_count s - of_bool (lock_script_written s ! i)\<rparr>"
  have same: "(lock_script_written s)[i := False] = lock_script_written s" if "\<not> lock_script_written s ! i"
    using that list_update_id [of "lock_script_written s" i] by simp
  have "reclaim_one s stats i = (s', count_reclaimed stats (lock_script_written s ! i) (length bs))"
    using i look pay cnt same interner_okD(1) [OF ok]
    by (cases "lock_script_written s ! i") (simp_all add: reclaim_one_def s'_def Let_def)
  moreover have "interner_ok s'" unfolding s'_def by (rule interner_ok_clear [OF ok i])
  moreover have "slot_at s' = (slot_at s)(i := None)"
    by (auto simp: s'_def slot_at_def fun_eq_iff)
  moreover have "frozen_views s' = frozen_views s" "payload_bytes s' + length bs = payload_bytes s"
    using pay by (simp_all add: s'_def)
  ultimately show ?thesis by blast
qed

text \<open>The loop on distinct active candidates clears exactly those.\<close>

lemma reclaim_loop_active:
  assumes "interner_ok s" "distinct cs" "\<forall>i\<in>set cs. slot_at s i \<noteq> None"
    "rs_payload_bytes st + payload_bytes s < 2 ^ 64" "rs_identities st + length cs \<le> 2 ^ 32"
    "rs_invalidated st \<le> rs_identities st"
  shows "\<exists>s' st'. reclaim_loop s st cs = (s', Inr st') \<and> interner_ok s' \<and> slot_at s' = slot_at s |` (- set cs) \<and>
    frozen_views s' = frozen_views s \<and> rs_identities st' = rs_identities st + length cs \<and>
    rs_payload_bytes st' + payload_bytes s' = rs_payload_bytes st + payload_bytes s"
  using assms
proof (induction cs arbitrary: s st)
  case Nil
  then show ?case by simp
next
  case (Cons i cs)
  obtain bs where bs: "slot_at s i = Some bs" using Cons.prems(3) by auto
  let ?st = "\<lparr>rs_identities = rs_identities st + 1, rs_payload_bytes = rs_payload_bytes st + length bs,
    rs_invalidated = rs_invalidated st + (if lock_script_written s ! i then 1 else 0)\<rparr>"
  obtain s1 where s1: "reclaim_one s st i = (s1, count_reclaimed st (lock_script_written s ! i) (length bs))"
      "interner_ok s1" "slot_at s1 = (slot_at s)(i := None)" "frozen_views s1 = frozen_views s"
      "payload_bytes s1 + length bs = payload_bytes s"
    using reclaim_one_active [OF Cons.prems(1) bs] by blast
  have "count_reclaimed st (lock_script_written s ! i) (length bs) = Inr ?st"
    using Cons.prems(4-6) s1(5) by (auto simp: count_reclaimed_def ensure_def rbind_def)
  then have step: "reclaim_loop s st (i # cs) = reclaim_loop s1 ?st cs" using s1(1) by simp
  have "\<exists>s' st'. reclaim_loop s1 ?st cs = (s', Inr st') \<and> interner_ok s' \<and> slot_at s' = slot_at s1 |` (- set cs) \<and>
    frozen_views s' = frozen_views s1 \<and> rs_identities st' = rs_identities ?st + length cs \<and>
    rs_payload_bytes st' + payload_bytes s' = rs_payload_bytes ?st + payload_bytes s1"
    by (rule Cons.IH) (use Cons.prems s1 in auto)
  moreover have "slot_at s1 |` (- set cs) = slot_at s |` (- set (i # cs))"
    by (auto simp: s1(3) restrict_map_def)
  ultimately show ?case unfolding step using s1(4,5) by auto
qed

text \<open>Whatever the candidates are, the loop keeps the invariant, also where it returns early.\<close>

lemma reclaim_loop_ok: "interner_ok s \<Longrightarrow> reclaim_loop s st cs = (s', r) \<Longrightarrow> interner_ok s'"
proof (induction cs arbitrary: s st)
  case (Cons i cs)
  show ?case
  proof (cases "slot_at s i")
    case None
    then show ?thesis using reclaim_one_inactive [of s i st] Cons.prems by auto
  next
    case (Some bs)
    obtain s1 where s1: "reclaim_one s st i = (s1, count_reclaimed st (lock_script_written s ! i) (length bs))" "interner_ok s1"
      using reclaim_one_active [OF Cons.prems(1) Some] by blast
    then show ?thesis using Cons.IH [OF s1(2)] Cons.prems(2) by (auto split: sum.splits)
  qed
qed simp

lemma reclaim_distinct:
  assumes "interner_ok s" "distinct cs" "\<forall>i\<in>set cs. slot_at s i \<noteq> None" "frozen_views s = 0"
  shows "\<exists>s' st. reclaim_zero_ref_identities s cs = (s', Inr st) \<and> interner_ok s' \<and>
    slot_at s' = slot_at s |` (- set cs) \<and> rs_identities st = length cs \<and>
    rs_payload_bytes st + payload_bytes s' = payload_bytes s"
proof (cases "cs = []")
  case True
  then show ?thesis using assms(1) by (simp add: reclaim_zero_ref_identities_def no_reclaim_def restrict_map_def)
next
  case False
  have "set cs \<subseteq> {..<length (slot_values s)}" using assms(3) by (auto simp: slot_at_def split: if_splits)
  then have "length cs \<le> length (slot_values s)"
    using card_mono [of "{..<length (slot_values s)}" "set cs"] distinct_card [OF assms(2)] by simp
  then have "length cs \<le> 2 ^ 32" using interner_okD(9) [OF assms(1)] by (rule le_trans)
  then show ?thesis
    using False reclaim_loop_active [of s cs no_reclaim] assms interner_okD(8) [OF assms(1)]
    by (auto simp: reclaim_zero_ref_identities_def no_reclaim_def)
qed

section \<open>Any interleaving of the operations\<close>

inductive interner_step :: "interner \<Rightarrow> interner \<Rightarrow> bool" where
  slow_step: "intern_slow s bs = Inr (s', i) \<Longrightarrow> interner_step s s'"
| count_step: "interner_step s (s\<lparr>intern_call_count := c, intern_slow_path_count := d\<rparr>)"
| mark_step: "mark_lock_script_written s i = (s', r) \<Longrightarrow> interner_step s s'"
| reclaim_step: "reclaim_zero_ref_identities s cs = (s', r) \<Longrightarrow> interner_step s s'"
| snapshot_step: "snapshot_for_reads s = (s', view) \<Longrightarrow> interner_step s s'"
| drop_view_step: "interner_step s (s\<lparr>frozen_views := frozen_views s - 1\<rparr>)"

lemma interner_step_ok: "interner_step s s' \<Longrightarrow> interner_ok s \<Longrightarrow> interner_ok s'"
proof (induction rule: interner_step.induct)
  case (slow_step s bs s' i)
  then show ?case by (blast intro: intern_slow_ok(1))
next
  case (count_step s c d)
  then show ?case by (simp add: interner_ok_def)
next
  case (mark_step s i s' r)
  then show ?case using mark_keeps [of s i] by simp
next
  case (reclaim_step s cs s' r)
  then show ?case by (auto simp: reclaim_zero_ref_identities_def split: if_splits intro: reclaim_loop_ok)
next
  case (snapshot_step s s' view)
  then show ?case by (auto simp: snapshot_for_reads_def interner_ok_def)
next
  case (drop_view_step s)
  then show ?case by (simp add: interner_ok_def)
qed

lemma interner_reach_ok: "interner_step\<^sup>*\<^sup>* s s' \<Longrightarrow> interner_ok s \<Longrightarrow> interner_ok s'"
  by (induction rule: rtranclp_induct) (auto intro: interner_step_ok)

lemma intern_bytes_slow:
  assumes "intern_bytes s bs = Inr (s', i)"
  shows "\<exists>c d. intern_slow (s\<lparr>intern_call_count := c, intern_slow_path_count := d\<rparr>) bs = Inr (s', i)"
proof (cases "by_value s bs")
  case None
  then show ?thesis using assms by (auto simp: intern_bytes_def)
next
  case (Some j)
  let ?t = "s\<lparr>intern_call_count := intern_call_count s + 1, intern_slow_path_count := intern_slow_path_count s\<rparr>"
  have eq: "?t = s\<lparr>intern_call_count := intern_call_count s + 1\<rparr>" by simp
  have hit: "intern_slow ?t bs = Inr (?t, j)" by (rule intern_slow_hit) (simp add: Some)
  have "Inr (?t, j) = intern_bytes s bs" unfolding eq by (simp add: Some intern_bytes_def)
  then have "intern_slow ?t bs = Inr (s', i)" unfolding hit assms .
  then show ?thesis by blast
qed

lemma slot_at_counters: "slot_at (s\<lparr>intern_call_count := c, intern_slow_path_count := d\<rparr>) = slot_at s"
  by (simp add: slot_at_def fun_eq_iff)

lemma interner_ok_counters: "interner_ok (s\<lparr>intern_call_count := c, intern_slow_path_count := d\<rparr>) = interner_ok s"
  by (simp add: interner_ok_def)

lemma intern_bytes_succeeds:
  assumes "interner_ok s"
  shows "is_ok (intern_bytes s bs) \<longleftrightarrow> by_value s bs \<noteq> None \<or>
    frozen_views s = 0 \<and> payload_bytes s + length bs < 2 ^ 64 \<and> (free_ids s \<noteq> [] \<or> length (slot_values s) < 2 ^ 32)"
proof (cases "by_value s bs")
  case None
  let ?t = "s\<lparr>intern_call_count := intern_call_count s + 1, intern_slow_path_count := intern_slow_path_count s + 1\<rparr>"
  have "intern_bytes s bs = intern_slow ?t bs" using None by (simp add: intern_bytes_def)
  moreover have "interner_ok ?t" using assms by (simp only: interner_ok_counters)
  ultimately show ?thesis using intern_slow_succeeds [of ?t bs] by simp
next
  case (Some i)
  then show ?thesis by (simp add: intern_bytes_def)
qed

lemma intern_bytes_ok:
  assumes "interner_ok s" "intern_bytes s bs = Inr (s', i)"
  shows "interner_ok s'" "slot_at s' = (slot_at s)(i \<mapsto> bs)" "slot_at s i \<in> {None, Some bs}"
    "frozen_views s \<noteq> 0 \<Longrightarrow> slot_values s' = slot_values s"
proof -
  obtain c d where run: "intern_slow (s\<lparr>intern_call_count := c, intern_slow_path_count := d\<rparr>) bs = Inr (s', i)"
    using intern_bytes_slow [OF assms(2)] by blast
  have ok: "interner_ok (s\<lparr>intern_call_count := c, intern_slow_path_count := d\<rparr>)"
    using assms(1) by (simp add: interner_ok_counters)
  show "interner_ok s'" "slot_at s' = (slot_at s)(i \<mapsto> bs)" "slot_at s i \<in> {None, Some bs}"
    "frozen_views s \<noteq> 0 \<Longrightarrow> slot_values s' = slot_values s"
    using intern_slow_ok [OF ok run] by (simp_all add: slot_at_counters)
qed

section \<open>Reference counting\<close>

datatype liveness_op = Retain nat | Release nat

fun run_liveness :: "IdentityLiveness \<Rightarrow> liveness_op list \<Rightarrow> IdentityLiveness res" where
  "run_liveness l [] = Inr l"
| "run_liveness l (Retain i # ops) = rbind (retain_id l i) (\<lambda>l'. run_liveness l' ops)"
| "run_liveness l (Release i # ops) = rbind (release_id l i) (\<lambda>l'. run_liveness l' ops)"

definition liveness_ok :: "IdentityLiveness \<Rightarrow> bool" where
  "liveness_ok l \<longleftrightarrow> length (queued_for_reclaim l) = length (live_refs l) \<and> distinct (zero_candidates l) \<and>
     (\<forall>i. i \<in> set (zero_candidates l) \<longleftrightarrow> i < length (live_refs l) \<and> queued_for_reclaim l ! i)"

lemma liveness_ok_ensure_slots: "liveness_ok l \<Longrightarrow> liveness_ok (ensure_slots l n)"
  by (auto simp: liveness_ok_def ensure_slots_def nth_append)

lemma retain_ok:
  assumes ok: "liveness_ok l" and run: "retain_id l i = Inr l'"
  shows "liveness_ok l'" "set (zero_candidates l') = set (zero_candidates l)"
    "i < length (live_refs l)" "live_refs l' = (live_refs l)[i := live_refs l ! i + 1]"
proof -
  have l': "l' = l\<lparr>live_refs := (live_refs l)[i := live_refs l ! i + 1]\<rparr>" "i < length (live_refs l)"
    using run by (simp_all add: retain_id_def split: if_splits)
  then show "liveness_ok l'" "set (zero_candidates l') = set (zero_candidates l)"
    "i < length (live_refs l)" "live_refs l' = (live_refs l)[i := live_refs l ! i + 1]"
    using ok by (simp_all add: liveness_ok_def)
qed

lemma release_ok:
  assumes ok: "liveness_ok l" and run: "release_id l i = Inr l'"
  shows "liveness_ok l'" "i < length (live_refs l)" "0 < live_refs l ! i"
    "live_refs l' = (live_refs l)[i := live_refs l ! i - 1]"
    "set (zero_candidates l') = set (zero_candidates l) \<union> (if live_refs l ! i = 1 then {i} else {})"
proof -
  show i: "i < length (live_refs l)" "0 < live_refs l ! i"
    using run by (simp_all add: release_id_def split: if_splits)
  let ?l1 = "l\<lparr>live_refs := (live_refs l)[i := live_refs l ! i - 1]\<rparr>"
  have len: "length (queued_for_reclaim l) = length (live_refs l)" using ok by (simp add: liveness_ok_def)
  have mem: "i \<in> set (zero_candidates l) \<longleftrightarrow> queued_for_reclaim l ! i" using ok i(1) by (simp add: liveness_ok_def)
  have l': "l' = (if live_refs l ! i = 1 \<and> \<not> queued_for_reclaim l ! i
      then ?l1\<lparr>queued_for_reclaim := (queued_for_reclaim l)[i := True], zero_candidates := zero_candidates l @ [i]\<rparr>
      else ?l1)"
    using run i len by (simp add: release_id_def Let_def le_Suc_eq split: if_splits)
  show "live_refs l' = (live_refs l)[i := live_refs l ! i - 1]" by (simp add: l')
  show "set (zero_candidates l') = set (zero_candidates l) \<union> (if live_refs l ! i = 1 then {i} else {})"
    using mem by (auto simp: l')
  show "liveness_ok l'"
  proof (cases "live_refs l ! i = 1 \<and> \<not> queued_for_reclaim l ! i")
    case True
    then show ?thesis using ok i mem by (simp add: liveness_ok_def l' nth_list_update)
  next
    case False
    then show ?thesis using ok by (simp only: l' if_False) (simp add: liveness_ok_def)
  qed
qed

definition retains :: "nat \<Rightarrow> liveness_op list \<Rightarrow> nat" where
  "retains i ops = length (filter ((=) (Retain i)) ops)"

definition releases :: "nat \<Rightarrow> liveness_op list \<Rightarrow> nat" where
  "releases i ops = length (filter ((=) (Release i)) ops)"

lemma run_liveness_ok:
  assumes "liveness_ok l" "run_liveness l ops = Inr l'"
  shows "liveness_ok l' \<and> length (live_refs l') = length (live_refs l) \<and>
    (\<forall>i < length (live_refs l). live_refs l' ! i + releases i ops = live_refs l ! i + retains i ops) \<and>
    set (zero_candidates l) \<subseteq> set (zero_candidates l') \<and>
    set (zero_candidates l') \<subseteq> set (zero_candidates l) \<union> {i. Release i \<in> set ops} \<and>
    {i. Release i \<in> set ops \<and> live_refs l' ! i = 0} \<subseteq> set (zero_candidates l')"
  using assms
proof (induction l ops rule: run_liveness.induct)
  case (1 l)
  then show ?case by (simp add: releases_def retains_def)
next
  case (2 l i ops)
  then obtain m where m: "retain_id l i = Inr m" "run_liveness m ops = Inr l'"
    by (auto simp: rbind_def split: sum.splits)
  then show ?case
    using 2(1) [of m] retain_ok [OF 2(2) m(1)]
    by (auto simp: releases_def retains_def nth_list_update)
next
  case (3 l i ops)
  then obtain m where m: "release_id l i = Inr m" "run_liveness m ops = Inr l'"
    by (auto simp: rbind_def split: sum.splits)
  note r = release_ok [OF 3(2) m(1)]
  have IH: "liveness_ok l' \<and> length (live_refs l') = length (live_refs m) \<and>
    (\<forall>j < length (live_refs m). live_refs l' ! j + releases j ops = live_refs m ! j + retains j ops) \<and>
    set (zero_candidates m) \<subseteq> set (zero_candidates l') \<and>
    set (zero_candidates l') \<subseteq> set (zero_candidates m) \<union> {j. Release j \<in> set ops} \<and>
    {j. Release j \<in> set ops \<and> live_refs l' ! j = 0} \<subseteq> set (zero_candidates l')"
    using 3(1) m r(1) by blast
  have "i \<in> set (zero_candidates l')" if "live_refs l' ! i = 0"
  proof (cases "Release i \<in> set ops")
    case True
    then show ?thesis using IH that by blast
  next
    case False
    then have "releases i ops = 0" by (auto simp: releases_def filter_empty_conv)
    then have "live_refs m ! i = 0" using IH that r(2,4) by auto
    then show ?thesis using IH r by auto
  qed
  then show ?case
    using IH r by (auto simp: releases_def retains_def nth_list_update split: if_splits)
qed

lemma drain_loop_ok:
  "distinct cs \<Longrightarrow> \<forall>i\<in>set cs. i < length refs \<Longrightarrow> length queued = length refs \<Longrightarrow>
    \<exists>queued'. drain_loop refs cs queued out = Inr (queued', out @ filter (\<lambda>i. refs ! i = 0) cs) \<and>
      length queued' = length refs \<and> (\<forall>i < length refs. queued' ! i \<longleftrightarrow> queued ! i \<and> i \<notin> set cs)"
proof (induction cs arbitrary: queued out)
  case (Cons i cs)
  have "\<exists>queued'. drain_loop refs cs (queued[i := False]) (if refs ! i = 0 then out @ [i] else out) =
      Inr (queued', (if refs ! i = 0 then out @ [i] else out) @ filter (\<lambda>i. refs ! i = 0) cs) \<and>
      length queued' = length refs \<and> (\<forall>j < length refs. queued' ! j \<longleftrightarrow> queued[i := False] ! j \<and> j \<notin> set cs)"
    by (rule Cons.IH) (use Cons.prems in auto)
  then show ?case using Cons.prems by (auto simp: nth_list_update)
qed simp

lemma drain_ok:
  assumes "liveness_ok l"
  shows "\<exists>l'. drain_zero_candidates l = Inr (l', filter (\<lambda>i. live_refs l ! i = 0) (zero_candidates l)) \<and>
    liveness_ok l' \<and> zero_candidates l' = [] \<and> live_refs l' = live_refs l"
proof -
  obtain q where "drain_loop (live_refs l) (zero_candidates l) (queued_for_reclaim l) [] =
      Inr (q, filter (\<lambda>i. live_refs l ! i = 0) (zero_candidates l))" "length q = length (live_refs l)"
      "\<forall>i < length (live_refs l). q ! i \<longleftrightarrow> queued_for_reclaim l ! i \<and> i \<notin> set (zero_candidates l)"
    using drain_loop_ok [of "zero_candidates l" "live_refs l" "queued_for_reclaim l" "[]"] assms
    by (auto simp: liveness_ok_def)
  then show ?thesis
    using assms by (auto simp: drain_zero_candidates_def rbind_def liveness_ok_def)
qed

section \<open>Properties\<close>

text \<open>
  C24. Whatever the interleaving of interning (the lock-free lookup and the locked slow
  path apart), marking, snapshots, dropped views and reclamation, including reclamations
  that return an error halfway, the interner stays consistent: the lookup map and the
  value table are inverse to each other, the free list names each free slot once, the
  payload counter is the total length of the live values and within 64 bits, ids fit 32
  bits, and the lock-script markers are counted and sit on live ids only.
\<close>

theorem interner_invariant:
  assumes "interner_step\<^sup>*\<^sup>* empty_interner s"
  shows "interner_ok s"
  using interner_reach_ok [OF assms interner_ok_empty] .

text \<open>A state with one identity interned, marked and reclaimed.\<close>

definition interner_example :: interner where
  "interner_example = \<lparr>by_value = [[7, 7] \<mapsto> 1], slot_values = [None, Some [7, 7]], free_ids = [0], payload_bytes = 2,
     lock_script_written = [False, True], lock_script_written_count = 1, frozen_views = 0,
     intern_call_count = 0, intern_slow_path_count = 0\<rparr>"

lemma interner_example_reachable: "interner_step\<^sup>*\<^sup>* empty_interner interner_example"
proof -
  let ?s1 = "empty_interner\<lparr>slot_values := [Some [5]], lock_script_written := [False], payload_bytes := 1, by_value := [[5] \<mapsto> 0]\<rparr>"
  let ?s2 = "?s1\<lparr>slot_values := [Some [5], Some [7, 7]], lock_script_written := [False, False], payload_bytes := 3,
    by_value := [[5] \<mapsto> 0, [7, 7] \<mapsto> 1]\<rparr>"
  let ?s3 = "?s2\<lparr>lock_script_written := [False, True], lock_script_written_count := 1\<rparr>"
  have "intern_slow empty_interner [5] = Inr (?s1, 0)"
    by (simp add: intern_slow_def place_value_def InternId_new_def empty_interner_def rbind_def ensure_def)
  then have "interner_step empty_interner ?s1" by (rule slow_step)
  moreover have "intern_slow ?s1 [7, 7] = Inr (?s2, 1)"
    by (simp add: intern_slow_def place_value_def InternId_new_def empty_interner_def rbind_def ensure_def)
  then have "interner_step ?s1 ?s2" by (rule slow_step)
  moreover have "mark_lock_script_written ?s2 1 = (?s3, Inr True)"
    by (simp add: mark_lock_script_written_def empty_interner_def)
  then have "interner_step ?s2 ?s3" by (rule mark_step)
  moreover have "fst (reclaim_zero_ref_identities ?s3 [0]) = interner_example"
    by (auto simp: reclaim_zero_ref_identities_def reclaim_one_def empty_interner_def interner_example_def
      count_reclaimed_def no_reclaim_def rbind_def ensure_def Let_def)
  then have "interner_step ?s3 interner_example" by (metis reclaim_step prod.collapse)
  ultimately show ?thesis by (meson rtranclp.rtrancl_refl rtranclp.rtrancl_into_rtrancl)
qed

theorem interner_invariant_witness: "interner_ok interner_example"
  by (rule interner_invariant [OF interner_example_reachable])

text \<open>
  C25. Interning refines a partial map from ids to bytes. In a consistent interner
  \<open>intern_bytes\<close> succeeds unless the bytes are new and a frozen view is alive, the payload
  counter would exceed 64 bits or the ids are used up: none of its assertions can fail. It
  returns an id that was free or already stood for these bytes, every other id keeps its
  meaning, and a view taken later resolves the id to the bytes.
\<close>

theorem intern_refines_map:
  assumes "interner_ok s"
  shows "(is_ok (intern_bytes s bs) \<longleftrightarrow> by_value s bs \<noteq> None \<or>
      frozen_views s = 0 \<and> payload_bytes s + length bs < 2 ^ 64 \<and> (free_ids s \<noteq> [] \<or> length (slot_values s) < 2 ^ 32)) \<and>
    (\<forall>s' i. intern_bytes s bs = Inr (s', i) \<longrightarrow>
      interner_ok s' \<and> slot_at s' = (slot_at s)(i \<mapsto> bs) \<and> slot_at s i \<in> {None, Some bs} \<and>
      resolve_bytes (snd (snapshot_for_reads s')) i = Inr bs \<and>
      (frozen_views s \<noteq> 0 \<longrightarrow> slot_values s' = slot_values s))"
proof -
  have "interner_ok s' \<and> slot_at s' = (slot_at s)(i \<mapsto> bs) \<and> slot_at s i \<in> {None, Some bs} \<and>
      resolve_bytes (snd (snapshot_for_reads s')) i = Inr bs \<and>
      (frozen_views s \<noteq> 0 \<longrightarrow> slot_values s' = slot_values s)" if run: "intern_bytes s bs = Inr (s', i)" for s' i
  proof -
    have "resolve_bytes (slot_values s') i = Inr bs" if "slot_at s' i = Some bs"
      using that by (simp add: resolve_bytes_def slot_at_def ok_or_def split: if_splits)
    then show ?thesis
      using intern_bytes_ok [OF assms run] by (simp add: snapshot_for_reads_def)
  qed
  then show ?thesis using intern_bytes_succeeds [OF assms] by blast
qed

theorem intern_refines_map_witness:
  "\<exists>s'. intern_bytes interner_example [9] = Inr (s', 0) \<and> resolve_bytes (snd (snapshot_for_reads s')) 0 = Inr [9]"
proof -
  have ok: "interner_ok interner_example" by (rule interner_reach_ok [OF interner_example_reachable interner_ok_empty])
  obtain s' where "intern_bytes interner_example [9] = Inr (s', 0)"
    by (simp add: intern_bytes_def intern_slow_def place_value_def interner_example_def rbind_def ensure_def)
  then show ?thesis using intern_refines_map [OF ok] by blast
qed

text \<open>
  C26. Reclaiming distinct live ids while no view is alive always succeeds, although every
  candidate passes a series of fallible steps: exactly those ids become free, every other id keeps
  its bytes, the interner stays consistent, and the returned statistics account for the
  ids and for every byte the payload counter lost.
\<close>

theorem reclaim_exact:
  assumes "interner_ok s" "distinct cs" "\<forall>i\<in>set cs. slot_at s i \<noteq> None" "frozen_views s = 0"
  shows "\<exists>s' st. reclaim_zero_ref_identities s cs = (s', Inr st) \<and> interner_ok s' \<and>
    slot_at s' = slot_at s |` (- set cs) \<and> rs_identities st = length cs \<and>
    rs_payload_bytes st + payload_bytes s' = payload_bytes s"
  by (rule reclaim_distinct [OF assms])

theorem reclaim_exact_witness:
  "\<exists>s' st. reclaim_zero_ref_identities interner_example [1] = (s', Inr st) \<and> slot_at s' 1 = None \<and> rs_identities st = 1"
proof -
  have ok: "interner_ok interner_example" by (rule interner_reach_ok [OF interner_example_reachable interner_ok_empty])
  have "\<forall>i\<in>set [1]. slot_at interner_example i \<noteq> None" "frozen_views interner_example = 0"
    by (simp_all add: interner_example_def slot_at_def)
  from reclaim_exact [OF ok _ this] obtain s' st where
    "reclaim_zero_ref_identities interner_example [1] = (s', Inr st)"
    "slot_at s' = slot_at interner_example |` (- set [1])" "rs_identities st = length [1 :: nat]"
    by (metis distinct_singleton)
  then show ?thesis by simp
qed

text \<open>
  C27. Starting from a drained queue, after any accepted sequence of retains and releases
  every count is the initial one plus the retains minus the releases, and draining returns,
  without repetition, exactly the ids that were released in the sequence and have no
  reference left: no live id is handed to reclamation and none that died is missed.
\<close>

theorem drain_exact:
  assumes "liveness_ok l" "zero_candidates l = []" "run_liveness l ops = Inr l'"
  shows "\<exists>l'' out. drain_zero_candidates l' = Inr (l'', out) \<and> distinct out \<and>
    set out = {i. Release i \<in> set ops \<and> live_refs l' ! i = 0} \<and>
    liveness_ok l'' \<and> zero_candidates l'' = [] \<and> live_refs l'' = live_refs l' \<and>
    (\<forall>i < length (live_refs l). live_refs l' ! i + releases i ops = live_refs l ! i + retains i ops)"
proof -
  have run: "liveness_ok l'" "set (zero_candidates l') \<subseteq> {i. Release i \<in> set ops}"
    "{i. Release i \<in> set ops \<and> live_refs l' ! i = 0} \<subseteq> set (zero_candidates l')"
    "\<forall>i < length (live_refs l). live_refs l' ! i + releases i ops = live_refs l ! i + retains i ops"
    using run_liveness_ok [OF assms(1,3)] assms(2) by auto
  obtain l'' where "drain_zero_candidates l' = Inr (l'', filter (\<lambda>i. live_refs l' ! i = 0) (zero_candidates l'))"
      "liveness_ok l''" "zero_candidates l'' = []" "live_refs l'' = live_refs l'"
    using drain_ok [OF run(1)] by blast
  moreover have "distinct (filter (\<lambda>i. live_refs l' ! i = 0) (zero_candidates l'))"
    using run(1) by (simp add: liveness_ok_def)
  moreover have "set (filter (\<lambda>i. live_refs l' ! i = 0) (zero_candidates l')) = {i. Release i \<in> set ops \<and> live_refs l' ! i = 0}"
    using run(2,3) by auto
  ultimately show ?thesis using run(4) by blast
qed

theorem drain_exact_witness:
  "\<exists>l' l'' out. run_liveness (ensure_slots no_liveness 3)
      [Retain 0, Retain 1, Retain 1, Release 1, Release 0, Release 1, Retain 0] = Inr l' \<and>
    drain_zero_candidates l' = Inr (l'', out) \<and> set out = {1}"
proof -
  have ok: "liveness_ok (ensure_slots no_liveness 3)" "zero_candidates (ensure_slots no_liveness 3) = []"
    by (rule liveness_ok_ensure_slots, simp add: liveness_ok_def no_liveness_def)
      (simp add: ensure_slots_def no_liveness_def)
  let ?ops = "[Retain 0, Retain 1, Retain 1, Release 1, Release 0, Release 1, Retain 0]"
  have slots: "ensure_slots no_liveness 3 =
      \<lparr>live_refs = [0, 0, 0], queued_for_reclaim = [False, False, False], zero_candidates = []\<rparr>"
    by (simp add: ensure_slots_def no_liveness_def numeral_3_eq_3)
  have "run_liveness (ensure_slots no_liveness 3) ?ops =
      Inr \<lparr>live_refs = [1, 0, 0], queued_for_reclaim = [True, True, False], zero_candidates = [0, 1]\<rparr>"
    by (simp add: slots retain_id_def release_id_def rbind_def Let_def)
  then obtain l' where l': "run_liveness (ensure_slots no_liveness 3) ?ops = Inr l'" "live_refs l' = [1, 0, 0]"
    by simp
  from drain_exact [OF ok l'(1)] obtain l'' out where
    "drain_zero_candidates l' = Inr (l'', out)"
    "set out = {i. Release i \<in> set ?ops \<and> live_refs l' ! i = 0}"
    by blast
  moreover have "live_refs l' ! 0 = 1" "live_refs l' ! 1 = 0" by (simp_all add: l'(2))
  then have "{i. Release i \<in> set ?ops \<and> live_refs l' ! i = 0} = {1}"
    by (simp only: list.set insert_iff liveness_op.simps simp_thms) force
  ultimately show ?thesis using l'(1) by metis
qed

end
