(* ===== verification/Live_Cells.thy ===== *)
theory Live_Cells
  imports Live_Summary Interner
begin

text \<open>
  The live-cell set of the bulk build: the facts of
  \<^verbatim>\<open>crates/indexer/src/sync/bulk_build/facts.rs\<close> it stores and
  \<^verbatim>\<open>crates/indexer/src/sync/bulk_build/live_cells.rs\<close>. The fields that \<open>CellFacts\<close>,
  \<open>LiveCellSlot\<close> and \<open>ResolvedInputFacts\<close> have in common are one parent record. A hash map
  is a partial map, a hash a byte list. The heap size of stored protocol facts depends on
  the capacity the allocator gave their vectors, so it is a parameter \<open>heap\<close>; a stored
  value is moved, never resized, so it is a function of that value.
\<close>

section \<open>Facts\<close>

record OutPointKey =
  op_tx_hash :: bytes
  op_index :: u32

datatype CellSemanticTag =
    PlainTag | DaoTag | SudtTag | XudtTag | DotbitTag | BitCellTag | DidCkbTag | MnftTag | SporeTag | ClusterTag | DotCellTag

datatype DaoCellState = Deposit | WithdrawRequest i64

record DaoCompensationArs =
  deposit_ar :: u64
  withdraw_request_ar :: u64

record SporeProtocolFacts =
  spore_id :: bytes
  content_type :: string
  content :: bytes
  spore_cluster_id :: "bytes option"

record ClusterProtocolFacts =
  cluster_id :: bytes
  cluster_name :: "string option"
  cluster_description :: "string option"

record MnftIssuerProtocolFacts =
  issuer_id :: bytes
  issuer_name :: "string option"
  issuer_info :: "bytes option"
  class_count :: u32
  set_count :: u32

record MnftClassProtocolFacts =
  class_id :: bytes
  class_issuer_id :: bytes
  class_name :: "string option"
  class_description :: "string option"
  class_renderer :: "string option"
  class_total :: u32
  class_issued :: u32
  class_configure :: u8

record MnftTokenProtocolFacts =
  token_id :: bytes
  token_class_id :: bytes
  token_index :: u32
  characteristic :: bytes
  token_configure :: u8
  token_state :: u8

record DotbitProtocolFacts =
  account_id :: bytes
  account :: "string option"
  next_account_id :: "bytes option"
  expired_at :: "u64 option"
  registered_at :: "u64 option"
  account_status :: "u8 option"

record BitCellProtocolFacts =
  bit_identity_id :: bytes
  bit_account_id :: bytes
  bit_account :: string
  bit_expired_at :: u64

record DotCellNameData =
  dc_layout_version :: u8
  dc_records_hash :: bytes
  dc_next_id :: bytes
  dc_expired_at :: u64
  dc_owner_hash20 :: bytes
  dc_manager_hash20 :: bytes
  dc_label :: string
  dc_id :: bytes

record DotCellRecord =
  dr_key :: string
  dr_label :: string
  dr_value :: bytes
  dr_ttl :: u32

datatype CellProtocolFacts =
    Spore SporeProtocolFacts
  | DidCkb bytes
  | Cluster ClusterProtocolFacts
  | MnftIssuer MnftIssuerProtocolFacts
  | MnftClass MnftClassProtocolFacts
  | MnftToken MnftTokenProtocolFacts
  | Dotbit DotbitProtocolFacts
  | BitCell BitCellProtocolFacts
  | DotCell DotCellNameData bytes "DotCellRecord list"
  | XudtExtensions "bytes list"

fun kept_while_live :: "CellProtocolFacts option \<Rightarrow> CellProtocolFacts option" where
  "kept_while_live (Some (XudtExtensions _)) = None"
| "kept_while_live None = None"
| "kept_while_live (Some other) = Some other"

record cell_base =
  created_at_block :: i64
  created_by_block_dao_ar :: u64
  capacity :: i64
  occupied_capacity :: i64
  data_size :: i32
  lock_script_hash_id :: nat
  lock_code_hash_id :: nat
  lock_hash_type :: i16
  lock_args_id :: nat
  type_script_hash_id :: "nat option"
  type_code_hash_id :: "nat option"
  type_hash_type :: "i16 option"
  type_args_id :: "nat option"
  semantic_tag :: CellSemanticTag

record CellFacts = cell_base +
  outpoint :: OutPointKey
  cell_data :: bytes
  data_hash :: "bytes option"
  udt_amount :: "128 word option"
  dao_state :: "DaoCellState option"
  protocol_facts :: "CellProtocolFacts option"

record LiveCellSlot = cell_base +
  slot_data_hash :: bytes

record LiveCellExtras =
  ex_udt_amount :: "128 word option"
  ex_dao_state :: "DaoCellState option"
  ex_dao_compensation_ars :: "DaoCompensationArs option"

record ResolvedInputFacts = cell_base +
  ri_outpoint :: OutPointKey
  ri_data_hash :: "bytes option"
  ri_udt_amount :: "128 word option"
  ri_dao_state :: "DaoCellState option"
  ri_dao_compensation_ars :: "DaoCompensationArs option"
  ri_protocol_facts :: "CellProtocolFacts option"

section \<open>Slots\<close>

definition no_extras :: LiveCellExtras where
  "no_extras = \<lparr>ex_udt_amount = None, ex_dao_state = None, ex_dao_compensation_ars = None\<rparr>"

definition extras_from_cell_facts :: "CellFacts \<Rightarrow> DaoCompensationArs option \<Rightarrow> LiveCellExtras option" where
  "extras_from_cell_facts cell ars =
     (if udt_amount cell \<noteq> None \<or> dao_state cell \<noteq> None \<or> ars \<noteq> None
      then Some \<lparr>ex_udt_amount = udt_amount cell, ex_dao_state = dao_state cell, ex_dao_compensation_ars = ars\<rparr>
      else None)"

definition slot_from_cell_facts :: "CellFacts \<Rightarrow> LiveCellSlot res" where
  "slot_from_cell_facts cell =
     rbind (ok_or (data_hash cell) (Bail ''live cell is missing its canonical data hash'')) (\<lambda>h.
     Inr \<lparr>created_at_block = created_at_block cell, created_by_block_dao_ar = created_by_block_dao_ar cell,
          capacity = capacity cell, occupied_capacity = occupied_capacity cell, data_size = data_size cell,
          lock_script_hash_id = lock_script_hash_id cell, lock_code_hash_id = lock_code_hash_id cell,
          lock_hash_type = lock_hash_type cell, lock_args_id = lock_args_id cell,
          type_script_hash_id = type_script_hash_id cell, type_code_hash_id = type_code_hash_id cell,
          type_hash_type = type_hash_type cell, type_args_id = type_args_id cell,
          semantic_tag = semantic_tag cell, slot_data_hash = h\<rparr>)"

definition into_resolved_input_facts ::
    "LiveCellSlot \<Rightarrow> OutPointKey \<Rightarrow> LiveCellExtras \<Rightarrow> CellProtocolFacts option \<Rightarrow> ResolvedInputFacts" where
  "into_resolved_input_facts slot op extras facts =
     \<lparr>created_at_block = created_at_block slot, created_by_block_dao_ar = created_by_block_dao_ar slot,
      capacity = capacity slot, occupied_capacity = occupied_capacity slot, data_size = data_size slot,
      lock_script_hash_id = lock_script_hash_id slot, lock_code_hash_id = lock_code_hash_id slot,
      lock_hash_type = lock_hash_type slot, lock_args_id = lock_args_id slot,
      type_script_hash_id = type_script_hash_id slot, type_code_hash_id = type_code_hash_id slot,
      type_hash_type = type_hash_type slot, type_args_id = type_args_id slot,
      semantic_tag = semantic_tag slot, ri_outpoint = op, ri_data_hash = Some (slot_data_hash slot),
      ri_udt_amount = ex_udt_amount extras, ri_dao_state = ex_dao_state extras,
      ri_dao_compensation_ars = ex_dao_compensation_ars extras, ri_protocol_facts = facts\<rparr>"

definition live_cell_summary_projection :: "LiveCellSlot \<Rightarrow> LiveCellSummaryProjection res" where
  "live_cell_summary_projection slot =
     from_parts (type_script_hash_id slot \<noteq> None) (type_code_hash_id slot \<noteq> None)
       (semantic_tag slot = DaoTag) (data_size slot)"

section \<open>The owner\<close>

record LiveCellOwner =
  live :: "OutPointKey \<Rightarrow> LiveCellSlot option"
  extras :: "OutPointKey \<Rightarrow> LiveCellExtras option"
  live_protocol_facts :: "OutPointKey \<Rightarrow> CellProtocolFacts option"
  protocol_heap_bytes :: nat
  summary :: LiveCellSummaryCounter

definition empty_owner :: LiveCellOwner where
  "empty_owner = \<lparr>live = (\<lambda>_. None), extras = (\<lambda>_. None), live_protocol_facts = (\<lambda>_. None),
     protocol_heap_bytes = 0, summary = zero_counter\<rparr>"

definition insert_created ::
    "(CellProtocolFacts \<Rightarrow> nat) \<Rightarrow> LiveCellOwner \<Rightarrow> OutPointKey \<Rightarrow> LiveCellSlot \<Rightarrow> LiveCellExtras option \<Rightarrow>
     CellProtocolFacts option \<Rightarrow> LiveCellOwner res" where
  "insert_created heap w op slot ex facts =
     (if live w op \<noteq> None \<or> extras w op \<noteq> None \<or> live_protocol_facts w op \<noteq> None
      then Inl (Bail ''duplicate live output insertion'')
      else
        rbind (live_cell_summary_projection slot) (\<lambda>projection.
        rbind (after_birth (summary w) projection) (\<lambda>updated_summary.
        rbind (case facts of
                 None \<Rightarrow> Inr (protocol_heap_bytes w)
               | Some f \<Rightarrow>
                   rbind (ensure (protocol_heap_bytes w + heap f < 2 ^ 64)
                            (Bail ''live protocol-facts heap accounting overflow'')) (\<lambda>_.
                   Inr (protocol_heap_bytes w + heap f))) (\<lambda>updated_protocol_heap_bytes.
        Inr (w\<lparr>live := (live w)(op \<mapsto> slot),
               extras := (case ex of None \<Rightarrow> extras w | Some x \<Rightarrow> (extras w)(op \<mapsto> x)),
               live_protocol_facts :=
                 (case facts of None \<Rightarrow> live_protocol_facts w | Some f \<Rightarrow> (live_protocol_facts w)(op \<mapsto> f)),
               protocol_heap_bytes := updated_protocol_heap_bytes,
               summary := updated_summary\<rparr>)))))"

definition consume ::
    "(CellProtocolFacts \<Rightarrow> nat) \<Rightarrow> LiveCellOwner \<Rightarrow> OutPointKey \<Rightarrow> (LiveCellOwner \<times> ResolvedInputFacts) res" where
  "consume heap w op =
     rbind (ok_or (live w op) (Bail ''missing live input'')) (\<lambda>slot.
     rbind (live_cell_summary_projection slot) (\<lambda>projection.
     rbind (after_spend (summary w) projection) (\<lambda>updated_summary.
     rbind (case live_protocol_facts w op of
              None \<Rightarrow> Inr (protocol_heap_bytes w)
            | Some f \<Rightarrow>
                rbind (ensure (heap f \<le> protocol_heap_bytes w)
                         (Bail ''live protocol-facts heap accounting underflow'')) (\<lambda>_.
                Inr (protocol_heap_bytes w - heap f))) (\<lambda>updated_protocol_heap_bytes.
     Inr (w\<lparr>live := (live w)(op := None), extras := (extras w)(op := None),
            live_protocol_facts := (live_protocol_facts w)(op := None),
            protocol_heap_bytes := updated_protocol_heap_bytes, summary := updated_summary\<rparr>,
          into_resolved_input_facts slot op (case extras w op of None \<Rightarrow> no_extras | Some x \<Rightarrow> x)
            (live_protocol_facts w op))))))"

definition owner_summary :: "LiveCellOwner \<Rightarrow> i64 \<Rightarrow> bytes \<Rightarrow> LiveCellSummary res" where
  "owner_summary w block_number block_hash = snapshot_counter (summary w) block_number block_hash"

section \<open>Specification\<close>

text \<open>
  A ledger maps each unspent outpoint to the facts an input that spends it sees. The
  owner's three maps and its counters are one ledger.
\<close>

type_synonym ledger = "OutPointKey \<Rightarrow> ResolvedInputFacts option"

definition ledger_of :: "LiveCellOwner \<Rightarrow> ledger" where
  "ledger_of w op =
     (case live w op of
        None \<Rightarrow> None
      | Some slot \<Rightarrow> Some (into_resolved_input_facts slot op (case extras w op of None \<Rightarrow> no_extras | Some x \<Rightarrow> x)
                           (live_protocol_facts w op)))"

definition cell_projection :: "'a cell_base_scheme \<Rightarrow> LiveCellSummaryProjection" where
  "cell_projection c =
     \<lparr>proj_class = (if semantic_tag c = DaoTag then DaoClass else if type_script_hash_id c \<noteq> None then TypedNonDaoClass else PlainClass),
      proj_data_bearing = 0 < sint (data_size c)\<rparr>"

definition cell_consistent :: "'a cell_base_scheme \<Rightarrow> bool" where
  "cell_consistent c \<longleftrightarrow> (type_script_hash_id c = None \<longleftrightarrow> type_code_hash_id c = None) \<and>
     (semantic_tag c = DaoTag \<longrightarrow> type_script_hash_id c \<noteq> None) \<and> 0 \<le> sint (data_size c)"

definition count_cells :: "(ResolvedInputFacts \<Rightarrow> bool) \<Rightarrow> ledger \<Rightarrow> nat" where
  "count_cells P U = card {op. \<exists>r. U op = Some r \<and> P r}"

definition ledger_counter :: "ledger \<Rightarrow> LiveCellSummaryCounter" where
  "ledger_counter U =
     \<lparr>cnt_dao = count_cells (\<lambda>r. semantic_tag r = DaoTag) U,
      cnt_typed_non_dao = count_cells (\<lambda>r. semantic_tag r \<noteq> DaoTag \<and> type_script_hash_id r \<noteq> None) U,
      cnt_plain = count_cells (\<lambda>r. semantic_tag r \<noteq> DaoTag \<and> type_script_hash_id r = None) U,
      cnt_data_bearing = count_cells (\<lambda>r. 0 < sint (data_size r)) U\<rparr>"

definition ledger_sum :: "(ResolvedInputFacts \<Rightarrow> nat) \<Rightarrow> ledger \<Rightarrow> nat" where
  "ledger_sum f U = (\<Sum>op\<in>dom U. f (the (U op)))"

definition ledger_heap :: "(CellProtocolFacts \<Rightarrow> nat) \<Rightarrow> ledger \<Rightarrow> nat" where
  "ledger_heap heap = ledger_sum (\<lambda>r. case ri_protocol_facts r of None \<Rightarrow> 0 | Some f \<Rightarrow> heap f)"

definition owner_ok :: "(CellProtocolFacts \<Rightarrow> nat) \<Rightarrow> LiveCellOwner \<Rightarrow> bool" where
  "owner_ok heap w \<longleftrightarrow> finite (dom (live w)) \<and> dom (extras w) \<subseteq> dom (live w) \<and> dom (live_protocol_facts w) \<subseteq> dom (live w) \<and>
     (\<forall>op r. ledger_of w op = Some r \<longrightarrow> cell_consistent r) \<and>
     summary w = ledger_counter (ledger_of w) \<and> counter_fits (summary w) \<and> protocol_heap_bytes w = ledger_heap heap (ledger_of w)"

text \<open>What a created cell becomes in the ledger.\<close>

definition input_of_cell :: "CellFacts \<Rightarrow> bytes \<Rightarrow> DaoCompensationArs option \<Rightarrow> ResolvedInputFacts" where
  "input_of_cell cell h ars =
     \<lparr>created_at_block = created_at_block cell, created_by_block_dao_ar = created_by_block_dao_ar cell,
      capacity = capacity cell, occupied_capacity = occupied_capacity cell, data_size = data_size cell,
      lock_script_hash_id = lock_script_hash_id cell, lock_code_hash_id = lock_code_hash_id cell,
      lock_hash_type = lock_hash_type cell, lock_args_id = lock_args_id cell,
      type_script_hash_id = type_script_hash_id cell, type_code_hash_id = type_code_hash_id cell,
      type_hash_type = type_hash_type cell, type_args_id = type_args_id cell,
      semantic_tag = semantic_tag cell, ri_outpoint = outpoint cell, ri_data_hash = Some h,
      ri_udt_amount = udt_amount cell, ri_dao_state = dao_state cell,
      ri_dao_compensation_ars = ars, ri_protocol_facts = kept_while_live (protocol_facts cell)\<rparr>"

section \<open>Ledger updates\<close>

lemma projection_ok: "cell_consistent slot \<Longrightarrow> live_cell_summary_projection slot = Inr (cell_projection slot)"
  by (auto simp: live_cell_summary_projection_def from_parts_def cell_consistent_def cell_projection_def)

lemma projection_Inr:
  "live_cell_summary_projection slot = Inr p \<Longrightarrow> cell_consistent slot \<and> p = cell_projection slot"
  by (auto simp: live_cell_summary_projection_def from_parts_def cell_consistent_def cell_projection_def split: if_splits)

lemma resolved_base:
  "cell_consistent (into_resolved_input_facts slot op ex facts) = cell_consistent slot"
  "cell_projection (into_resolved_input_facts slot op ex facts) = cell_projection slot"
  "ri_protocol_facts (into_resolved_input_facts slot op ex facts) = facts"
  by (simp_all add: into_resolved_input_facts_def cell_consistent_def cell_projection_def)

lemma count_cells_insert:
  assumes "finite (dom U)" "U op = None"
  shows "count_cells P (U(op \<mapsto> r)) = count_cells P U + of_bool (P r)"
proof -
  have "{x. \<exists>y. (U(op \<mapsto> r)) x = Some y \<and> P y} = (if P r then insert op else id) {x. \<exists>y. U x = Some y \<and> P y}"
    using assms(2) by auto
  moreover have "finite {x. \<exists>y. U x = Some y \<and> P y}"
    by (rule finite_subset [OF _ assms(1)]) auto
  ultimately show ?thesis using assms(2) by (auto simp: count_cells_def)
qed

lemma ledger_counter_insert:
  "finite (dom U) \<Longrightarrow> U op = None \<Longrightarrow>
    ledger_counter (U(op \<mapsto> r)) = counter_add (ledger_counter U) (class_tally (cell_projection r))"
  by (auto simp: ledger_counter_def counter_add_def class_tally_def cell_projection_def count_cells_insert)

lemma ledger_sum_insert:
  assumes "finite (dom U)" "U op = None"
  shows "ledger_sum f (U(op \<mapsto> r)) = ledger_sum f U + f r"
proof -
  have op: "op \<notin> dom U" using assms(2) by auto
  have "(\<Sum>x\<in>dom U. f (the ((U(op \<mapsto> r)) x))) = ledger_sum f U"
    unfolding ledger_sum_def by (rule sum.cong) (use op in auto)
  then show ?thesis using assms(1) op by (simp add: ledger_sum_def)
qed

lemma ledger_remove_insert: "U op = Some r \<Longrightarrow> U = (U(op := None))(op \<mapsto> r)"
  by auto

lemma ledger_counter_remove:
  assumes "finite (dom U)" "U op = Some r"
  shows "ledger_counter U = counter_add (ledger_counter (U(op := None))) (class_tally (cell_projection r))"
  using ledger_counter_insert [of "U(op := None)" op r] assms ledger_remove_insert [of U op r] by simp

lemma ledger_sum_remove:
  assumes "finite (dom U)" "U op = Some r"
  shows "ledger_sum f U = ledger_sum f (U(op := None)) + f r"
  using ledger_sum_insert [of "U(op := None)" op f r] assms ledger_remove_insert [of U op r] by simp

lemma dom_ledger_of: "dom (ledger_of w) = dom (live w)"
  by (auto simp: ledger_of_def split: option.splits)

lemma owner_ok_empty: "owner_ok heap empty_owner"
proof -
  have "ledger_of empty_owner = Map.empty" by (simp add: ledger_of_def empty_owner_def fun_eq_iff)
  then show ?thesis
    by (simp add: owner_ok_def ledger_counter_def ledger_heap_def ledger_sum_def count_cells_def) (simp add: empty_owner_def zero_counter_def counter_fits_def)
qed

section \<open>The owner implements the ledger\<close>

lemma consume_ok:
  assumes ok: "owner_ok heap w" and r: "ledger_of w op = Some r"
  shows "\<exists>w'. consume heap w op = Inr (w', r) \<and> owner_ok heap w' \<and> ledger_of w' = (ledger_of w)(op := None)"
proof -
  obtain slot where slot: "live w op = Some slot"
    and r': "r = into_resolved_input_facts slot op (case extras w op of None \<Rightarrow> no_extras | Some x \<Rightarrow> x) (live_protocol_facts w op)"
    using r by (auto simp: ledger_of_def split: option.splits)
  have fin: "finite (dom (ledger_of w))" using ok by (simp add: owner_ok_def dom_ledger_of)
  have "cell_consistent r" using ok r unfolding owner_ok_def by blast
  then have cons: "cell_consistent slot" by (simp add: r' resolved_base)
  let ?U = "(ledger_of w)(op := None)"
  let ?f = "case live_protocol_facts w op of None \<Rightarrow> 0 | Some f \<Rightarrow> heap f"
  have cnt: "summary w = counter_add (ledger_counter ?U) (class_tally (cell_projection slot))"
    using ok ledger_counter_remove [OF fin r] by (simp add: owner_ok_def r' resolved_base)
  have hp: "protocol_heap_bytes w = ledger_heap heap ?U + ?f"
    using ok ledger_sum_remove [OF fin r] by (simp add: owner_ok_def ledger_heap_def r' resolved_base)
  define w' where "w' = w\<lparr>live := (live w)(op := None), extras := (extras w)(op := None),
    live_protocol_facts := (live_protocol_facts w)(op := None),
    protocol_heap_bytes := ledger_heap heap ?U, summary := ledger_counter ?U\<rparr>"
  have run: "consume heap w op = Inr (w', r)"
    using hp by (auto simp: consume_def slot projection_ok [OF cons] cnt after_spend_undoes w'_def r' split: option.splits)
  have U': "ledger_of w' = ?U" by (auto simp: ledger_of_def w'_def fun_eq_iff split: option.splits)
  have "counter_fits (ledger_counter ?U)" using ok counter_fits_add cnt unfolding owner_ok_def by metis
  then have "owner_ok heap w'"
    unfolding owner_ok_def U'
    using ok by (auto simp: owner_ok_def w'_def)
  then show ?thesis using run U' by blast
qed

lemma consume_missing: "ledger_of w op = None \<Longrightarrow> consume heap w op = Inl (Bail ''missing live input'')"
  by (auto simp: consume_def ledger_of_def split: option.splits)

lemma owner_ok_fits: "owner_ok heap w \<Longrightarrow> counter_fits (summary w)"
  unfolding owner_ok_def by blast

lemma insert_created_ok:
  assumes ok: "owner_ok heap w" and run: "insert_created heap w op slot ex facts = Inr w'"
  defines "r \<equiv> into_resolved_input_facts slot op (case ex of None \<Rightarrow> no_extras | Some x \<Rightarrow> x) facts"
  shows "ledger_of w op = None \<and> owner_ok heap w' \<and> ledger_of w' = (ledger_of w)(op \<mapsto> r)"
proof -
  have fresh: "live w op = None" "extras w op = None" "live_protocol_facts w op = None"
    using run by (auto simp: insert_created_def split: if_splits)
  then have none: "ledger_of w op = None" by (simp add: ledger_of_def)
  have fin: "finite (dom (ledger_of w))" using ok by (simp add: owner_ok_def dom_ledger_of)
  obtain p c h where p: "live_cell_summary_projection slot = Inr p" and c: "after_birth (summary w) p = Inr c"
    and h: "h = protocol_heap_bytes w + (case facts of None \<Rightarrow> 0 | Some f \<Rightarrow> heap f)"
    and w': "w' = w\<lparr>live := (live w)(op \<mapsto> slot),
               extras := (case ex of None \<Rightarrow> extras w | Some x \<Rightarrow> (extras w)(op \<mapsto> x)),
               live_protocol_facts :=
                 (case facts of None \<Rightarrow> live_protocol_facts w | Some f \<Rightarrow> (live_protocol_facts w)(op \<mapsto> f)),
               protocol_heap_bytes := h, summary := c\<rparr>"
    using run fresh by (auto simp: insert_created_def res_simps split: option.splits)
  have cons: "cell_consistent slot" "p = cell_projection slot" using projection_Inr [OF p] by auto
  have U': "ledger_of w' = (ledger_of w)(op \<mapsto> r)"
    using fresh by (auto simp: ledger_of_def w' fun_eq_iff r_def split: option.splits)
  have "c = ledger_counter (ledger_of w')"
    using after_birth_Inr [OF c] ok unfolding U' ledger_counter_insert [OF fin none]
    by (simp add: owner_ok_def cons(2) r_def resolved_base)
  then have "summary w' = ledger_counter (ledger_of w')" by (simp add: w')
  moreover have "counter_fits c"
    using after_birth_iff [OF owner_ok_fits [OF ok], of p] after_birth_Inr [OF c] c by simp
  then have "counter_fits (summary w')" by (simp add: w')
  moreover have "h = ledger_heap heap (ledger_of w')"
    using ok unfolding U' ledger_heap_def ledger_sum_insert [OF fin none] by (simp add: h owner_ok_def ledger_heap_def r_def resolved_base)
  then have "protocol_heap_bytes w' = ledger_heap heap (ledger_of w')" by (simp add: w')
  moreover have "finite (dom (live w'))" "dom (extras w') \<subseteq> dom (live w')" "dom (live_protocol_facts w') \<subseteq> dom (live w')"
    using ok by (auto simp: owner_ok_def w' split: option.splits)
  moreover have "\<forall>q x. ledger_of w' q = Some x \<longrightarrow> cell_consistent x"
    using ok cons(1) by (auto simp: U' owner_ok_def r_def resolved_base)
  ultimately show ?thesis using none U' by (simp add: owner_ok_def)
qed

text \<open>Splitting a cell into slot, sparse extras and kept facts loses nothing.\<close>

lemma slot_from_cell_Inr:
  assumes "slot_from_cell_facts cell = Inr slot"
  shows "\<exists>h. data_hash cell = Some h \<and>
    into_resolved_input_facts slot (outpoint cell)
      (case extras_from_cell_facts cell ars of None \<Rightarrow> no_extras | Some x \<Rightarrow> x)
      (kept_while_live (protocol_facts cell)) = input_of_cell cell h ars"
  using assms
  by (auto simp: slot_from_cell_facts_def res_simps into_resolved_input_facts_def input_of_cell_def
      extras_from_cell_facts_def no_extras_def)

lemma insert_created_succeeds:
  assumes "owner_ok heap w"
  shows "is_ok (insert_created heap w op slot ex facts) \<longleftrightarrow> ledger_of w op = None \<and> cell_consistent slot \<and>
      counter_fits (counter_add (summary w) (class_tally (cell_projection slot))) \<and>
      (\<forall>f. facts = Some f \<longrightarrow> protocol_heap_bytes w + heap f < 2 ^ 64)"
proof -
  have "ledger_of w op = None \<longleftrightarrow> \<not> (live w op \<noteq> None \<or> extras w op \<noteq> None \<or> live_protocol_facts w op \<noteq> None)"
    using assms by (fastforce simp: owner_ok_def ledger_of_def split: option.splits)
  moreover have "(\<exists>p. live_cell_summary_projection slot = Inr p \<and> P p) \<longleftrightarrow> cell_consistent slot \<and> P (cell_projection slot)" for P
    using projection_ok projection_Inr by metis
  moreover have "is_ok (after_birth (summary w) p) \<longleftrightarrow> counter_fits (counter_add (summary w) (class_tally p))" for p
    by (rule after_birth_iff [OF owner_ok_fits [OF assms]])
  then have "(\<exists>c. after_birth (summary w) p = Inr c \<and> Q) \<longleftrightarrow> counter_fits (counter_add (summary w) (class_tally p)) \<and> Q" for p Q
    by (auto simp: is_ok_iff)
  ultimately show ?thesis by (cases facts) (auto simp: insert_created_def is_ok_rbind res_simps)
qed

section \<open>Properties\<close>

text \<open>
  C23. In a consistent owner the checked arithmetic of the summary and of the heap account
  never gets in the way of a spend: consuming fails exactly when the outpoint is not live,
  and otherwise returns the facts stored for it, removes only it, and leaves the owner
  consistent. Inserting an output fails exactly when its outpoint is live, its type-script
  facts contradict each other or its size is negative, or a 64-bit counter is exhausted.
\<close>

theorem owner_errors_exact:
  assumes "owner_ok heap w"
  shows "(case ledger_of w op of
      None \<Rightarrow> consume heap w op = Inl (Bail ''missing live input'')
    | Some r \<Rightarrow> \<exists>w'. consume heap w op = Inr (w', r) \<and> owner_ok heap w' \<and> ledger_of w' = (ledger_of w)(op := None)) \<and>
    (is_ok (insert_created heap w op slot ex facts) \<longleftrightarrow> ledger_of w op = None \<and> cell_consistent slot \<and>
      counter_fits (counter_add (summary w) (class_tally (cell_projection slot))) \<and>
      (\<forall>f. facts = Some f \<longrightarrow> protocol_heap_bytes w + heap f < 2 ^ 64))"
  using consume_ok [OF assms] consume_missing insert_created_succeeds [OF assms] by (auto split: option.splits)

definition example_slot :: LiveCellSlot where
  "example_slot =
     \<lparr>created_at_block = 0, created_by_block_dao_ar = 7, capacity = 100, occupied_capacity = 61, data_size = 0,
      lock_script_hash_id = 1, lock_code_hash_id = 1, lock_hash_type = 1, lock_args_id = 1,
      type_script_hash_id = None, type_code_hash_id = None, type_hash_type = None, type_args_id = None,
      semantic_tag = PlainTag, slot_data_hash = [9]\<rparr>"

text \<open>A cell is created and spent; a second spend of it fails.\<close>

theorem owner_errors_exact_witness:
  "\<exists>w w' r. insert_created (\<lambda>_. 0) empty_owner \<lparr>op_tx_hash = [], op_index = 0\<rparr> example_slot None None = Inr w \<and>
     consume (\<lambda>_. 0) w \<lparr>op_tx_hash = [], op_index = 0\<rparr> = Inr (w', r) \<and> capacity r = 100 \<and>
     consume (\<lambda>_. 0) w' \<lparr>op_tx_hash = [], op_index = 0\<rparr> = Inl (Bail ''missing live input'')"
proof -
  let ?op = "\<lparr>op_tx_hash = [], op_index = 0\<rparr>"
  have "is_ok (insert_created (\<lambda>_. 0) empty_owner ?op example_slot None None)"
    using conjunct2 [OF owner_errors_exact [OF owner_ok_empty]]
    by (simp add: ledger_of_def empty_owner_def example_slot_def cell_consistent_def counter_fits_def counter_add_def
        class_tally_def zero_counter_def)
  then obtain w where w: "insert_created (\<lambda>_. 0) empty_owner ?op example_slot None None = Inr w" by (auto simp: is_ok_iff)
  note inserted = insert_created_ok [OF owner_ok_empty w]
  then obtain r where r: "ledger_of w ?op = Some r" "capacity r = 100"
    by (simp add: into_resolved_input_facts_def example_slot_def)
  obtain w' where w': "consume (\<lambda>_. 0) w ?op = Inr (w', r)" "owner_ok (\<lambda>_. 0) w'" "ledger_of w' = (ledger_of w)(?op := None)"
    using conjunct1 [OF owner_errors_exact [of "\<lambda>_. 0" w ?op]] inserted r(1) by auto
  have "consume (\<lambda>_. 0) w' ?op = Inl (Bail ''missing live input'')"
    using conjunct1 [OF owner_errors_exact [OF w'(2), of ?op]] w'(3) by simp
  then show ?thesis using w w'(1) r(2) by blast
qed

end
