(* ===== verification/Sequencer.thy ===== *)
theory Sequencer
  imports Live_Cells
begin

text \<open>
  \<^verbatim>\<open>crates/indexer/src/sync/bulk_build/sequencer.rs\<close>: the sequential pass of the bulk build
  that resolves the inputs of a batch of blocks against the live cells, counts identity
  references, and records a summary per block. An error ends the bulk build, so a failing
  operation returns no state. \<open>usize\<close> is \<open>nat\<close>; \<open>\<^verbatim>\<open>with_context\<close>\<close> only rewords errors.
\<close>

section \<open>Facts of a batch\<close>

record BlockFacts =
  block_number :: i64
  block_hash :: bytes
  block_parent_hash :: bytes
  block_timestamp_ms :: i64
  block_chain_time_ms :: i64
  block_epoch_number :: i64
  block_epoch_index :: i32
  block_epoch_length :: i32
  block_dao :: bytes
  block_compact_target :: u32
  block_uncles_count :: i32
  block_proposals_count :: i32
  block_miner_lock_hash :: "bytes option"
  block_transactions_count :: i32
  block_tx_range :: "nat \<times> nat"

record TxFacts =
  tx_hash :: bytes
  tx_block_number :: i64
  tx_block_hash :: bytes
  tx_timestamp_ms :: i64
  tx_chain_time_ms :: i64
  tx_block_dao_ar :: u64
  tx_index :: i32
  tx_is_cellbase :: bool
  tx_inputs_count :: i16
  tx_outputs_count :: i16
  tx_size :: i32
  tx_cycles :: "i64 option"
  tx_dotbit_action :: "string option"
  tx_input_outpoints :: "OutPointKey list"
  tx_output_range :: "nat \<times> nat"

record FactsArena =
  arena_blocks :: "BlockFacts list"
  arena_txs :: "TxFacts list"
  arena_cells :: "CellFacts list"

record ResolvedTxFacts =
  rt_tx_hash :: bytes
  rt_block_number :: i64
  rt_block_hash :: bytes
  rt_timestamp_ms :: i64
  rt_chain_time_ms :: i64
  rt_block_dao_ar :: u64
  rt_tx_index :: i32
  rt_dotbit_action :: "string option"
  rt_resolved_inputs :: "ResolvedInputFacts list"
  rt_cells :: "CellFacts list"

record BulkSequencer =
  live_cells :: LiveCellOwner
  live_cell_summaries :: "LiveCellSummary list"

definition MAX_SHALLOW_REORG_DEPTH :: nat where "MAX_SHALLOW_REORG_DEPTH = 36"

definition LIVE_CELL_SUMMARY_HISTORY_BLOCKS :: nat where
  "LIVE_CELL_SUMMARY_HISTORY_BLOCKS = MAX_SHALLOW_REORG_DEPTH + 1"

definition new_sequencer :: BulkSequencer where
  "new_sequencer = \<lparr>live_cells = empty_owner, live_cell_summaries = []\<rparr>"

section \<open>Block partition\<close>

fun validate_blocks :: "nat \<Rightarrow> nat \<Rightarrow> i64 option \<Rightarrow> BlockFacts list \<Rightarrow> nat res" where
  "validate_blocks txs expected_tx_start previous_number [] = Inr expected_tx_start"
| "validate_blocks txs expected_tx_start previous_number (b # blocks) =
     (let (start, stop) = block_tx_range b
      in rbind (ensure (\<not> (start \<noteq> expected_tx_start \<or> stop \<le> start \<or> txs < stop))
                  (Bail ''invalid bulk block transaction partition'')) (\<lambda>_.
         rbind (ensure (0 \<le> sint (block_transactions_count b)) (Bail ''negative bulk block transaction count'')) (\<lambda>_.
         rbind (ensure (nat (sint (block_transactions_count b)) = stop - start)
                  (Bail ''bulk block transaction count/range mismatch'')) (\<lambda>_.
         rbind (case previous_number of
                  None \<Rightarrow> Inr ()
                | Some n \<Rightarrow>
                    rbind (ensure (fits_i64 (sint n + 1)) (Bail ''bulk live-cell summary block number overflow'')) (\<lambda>_.
                    ensure (sint (block_number b) = sint n + 1)
                      (Bail ''non-contiguous bulk live-cell summary block sequence''))) (\<lambda>_.
         validate_blocks txs stop (Some (block_number b)) blocks)))))"

definition validate_block_partition :: "FactsArena \<Rightarrow> LiveCellSummary option \<Rightarrow> unit res" where
  "validate_block_partition arena previous_summary =
     (if arena_blocks arena = [] then
        (if arena_txs arena = [] then Inr () else Inl (Bail ''bulk sequencer has transactions without blocks''))
      else
        rbind (validate_blocks (length (arena_txs arena)) 0 (map_option tip_block_number previous_summary) (arena_blocks arena))
          (\<lambda>covered. ensure (covered = length (arena_txs arena))
             (Bail ''bulk sequencer block ranges do not cover all transactions'')))"

section \<open>Identity references\<close>

text \<open>The ids a cell names, in the order the code retains and releases them.\<close>

definition opt_list :: "'a option \<Rightarrow> 'a list" where
  "opt_list x = (case x of None \<Rightarrow> [] | Some a \<Rightarrow> [a])"

definition cell_ids :: "'a cell_base_scheme \<Rightarrow> nat list" where
  "cell_ids c = [lock_script_hash_id c, lock_code_hash_id c, lock_args_id c] @
     opt_list (type_script_hash_id c) @ opt_list (type_code_hash_id c) @ opt_list (type_args_id c)"

fun retain_all :: "IdentityLiveness \<Rightarrow> nat list \<Rightarrow> IdentityLiveness res" where
  "retain_all l [] = Inr l"
| "retain_all l (i # ids) = rbind (retain_id l i) (\<lambda>l'. retain_all l' ids)"

fun release_all :: "IdentityLiveness \<Rightarrow> nat list \<Rightarrow> IdentityLiveness res" where
  "release_all l [] = Inr l"
| "release_all l (i # ids) = rbind (release_id l i) (\<lambda>l'. release_all l' ids)"

definition retain_cell_identities :: "IdentityLiveness \<Rightarrow> CellFacts \<Rightarrow> IdentityLiveness res" where
  "retain_cell_identities l cell = retain_all l (cell_ids cell)"

definition release_input_identities :: "IdentityLiveness \<Rightarrow> ResolvedInputFacts \<Rightarrow> IdentityLiveness res" where
  "release_input_identities l input = release_all l (cell_ids input)"

definition if_liveness ::
    "(IdentityLiveness \<Rightarrow> IdentityLiveness res) \<Rightarrow> IdentityLiveness option \<Rightarrow> IdentityLiveness option res" where
  "if_liveness f lv = (case lv of None \<Rightarrow> Inr None | Some l \<Rightarrow> rbind (f l) (\<lambda>l'. Inr (Some l')))"

section \<open>DAO withdrawal requests\<close>

definition is_request :: "CellFacts \<Rightarrow> bool" where
  "is_request c = (case dao_state c of Some (WithdrawRequest _) \<Rightarrow> True | _ \<Rightarrow> False)"

fun match_requests ::
    "CellFacts list \<Rightarrow> u64 \<Rightarrow> nat \<Rightarrow> ResolvedInputFacts list \<Rightarrow> DaoCompensationArs option list \<Rightarrow>
     DaoCompensationArs option list res" where
  "match_requests outputs block_dao_ar input_index [] matched = Inr matched"
| "match_requests outputs block_dao_ar input_index (input # inputs) matched =
     (if ri_dao_state input \<noteq> Some Deposit
      then match_requests outputs block_dao_ar (input_index + 1) inputs matched
      else if length outputs \<le> input_index then Inl (Bail ''DAO deposit has no corresponding output'')
      else case dao_state (outputs ! input_index) of
          Some (WithdrawRequest deposit_block_number) \<Rightarrow>
            if deposit_block_number \<noteq> created_at_block input
            then Inl (Bail ''DAO withdraw-request deposit_block mismatch'')
            else match_requests outputs block_dao_ar (input_index + 1) inputs
                   (matched[input_index := Some \<lparr>deposit_ar = created_by_block_dao_ar input,
                                                withdraw_request_ar = block_dao_ar\<rparr>])
        | _ \<Rightarrow> Inl (Bail ''DAO deposit expected withdraw-request at same output position''))"

definition resolve_request_output_ars ::
    "CellFacts list \<Rightarrow> ResolvedInputFacts list \<Rightarrow> u64 \<Rightarrow> DaoCompensationArs option list res" where
  "resolve_request_output_ars outputs resolved_inputs block_dao_ar =
     (if \<not> list_ex is_request outputs then Inr (replicate (length outputs) None)
      else match_requests outputs block_dao_ar 0 resolved_inputs (replicate (length outputs) None))"

section \<open>Resolution\<close>

fun resolve_inputs ::
    "(CellProtocolFacts \<Rightarrow> nat) \<Rightarrow> nat \<Rightarrow> OutPointKey list \<Rightarrow> LiveCellOwner \<Rightarrow> IdentityLiveness option \<Rightarrow>
     (LiveCellOwner \<times> IdentityLiveness option \<times> ResolvedInputFacts list) res" where
  "resolve_inputs heap input_position [] w lv = Inr (w, lv, [])"
| "resolve_inputs heap input_position (op # outpoints) w lv =
     rbind (ensure (input_position < 2 ^ 31) (Bail ''input index exceeds i32'')) (\<lambda>_.
     rbind (consume heap w op) (\<lambda>(w1, resolved).
     rbind (if_liveness (\<lambda>l. release_input_identities l resolved) lv) (\<lambda>lv1.
     rbind (resolve_inputs heap (input_position + 1) outpoints w1 lv1) (\<lambda>(w2, lv2, rest).
     Inr (w2, lv2, resolved # rest)))))"

fun create_outputs ::
    "(CellProtocolFacts \<Rightarrow> nat) \<Rightarrow> DaoCompensationArs option list \<Rightarrow> nat \<Rightarrow> CellFacts list \<Rightarrow> LiveCellOwner \<Rightarrow>
     IdentityLiveness option \<Rightarrow> (LiveCellOwner \<times> IdentityLiveness option) res" where
  "create_outputs heap ars output_pos [] w lv = Inr (w, lv)"
| "create_outputs heap ars output_pos (cell # outputs) w lv =
     rbind (if_liveness (\<lambda>l. retain_cell_identities l cell) lv) (\<lambda>lv1.
     rbind (slot_from_cell_facts cell) (\<lambda>slot.
     rbind (ensure (output_pos < length ars) (Panic ''index out of bounds'')) (\<lambda>_.
     rbind (insert_created heap w (outpoint cell) slot (extras_from_cell_facts cell (ars ! output_pos))
              (kept_while_live (protocol_facts cell))) (\<lambda>w1.
     create_outputs heap ars (output_pos + 1) outputs w1 lv1))))"

definition get_range :: "nat \<times> nat \<Rightarrow> 'a list \<Rightarrow> 'a list option" where
  "get_range r xs = (case r of (start, stop) \<Rightarrow>
     if start \<le> stop \<and> stop \<le> length xs then Some (take (stop - start) (drop start xs)) else None)"

definition resolve_tx ::
    "(CellProtocolFacts \<Rightarrow> nat) \<Rightarrow> CellFacts list \<Rightarrow> TxFacts \<Rightarrow> LiveCellOwner \<Rightarrow> IdentityLiveness option \<Rightarrow>
     (LiveCellOwner \<times> IdentityLiveness option \<times> ResolvedTxFacts) res" where
  "resolve_tx heap cells tx w lv =
     rbind (if tx_is_cellbase tx then Inr (w, lv, []) else resolve_inputs heap 0 (tx_input_outpoints tx) w lv) (\<lambda>(w1, lv1, resolved_inputs).
     rbind (ok_or (get_range (tx_output_range tx) cells) (Bail ''tx output range out of bounds'')) (\<lambda>outputs.
     rbind (resolve_request_output_ars outputs resolved_inputs (tx_block_dao_ar tx)) (\<lambda>request_output_ars.
     rbind (create_outputs heap request_output_ars 0 outputs w1 lv1) (\<lambda>(w2, lv2).
     Inr (w2, lv2,
       \<lparr>rt_tx_hash = tx_hash tx, rt_block_number = tx_block_number tx, rt_block_hash = tx_block_hash tx,
        rt_timestamp_ms = tx_timestamp_ms tx, rt_chain_time_ms = tx_chain_time_ms tx,
        rt_block_dao_ar = tx_block_dao_ar tx, rt_tx_index = tx_index tx, rt_dotbit_action = tx_dotbit_action tx,
        rt_resolved_inputs = resolved_inputs, rt_cells = outputs\<rparr>)))))"

definition push_summary :: "LiveCellOwner \<Rightarrow> BlockFacts \<Rightarrow> LiveCellSummary list \<Rightarrow> LiveCellSummary list res" where
  "push_summary w b summaries =
     rbind (owner_summary w (block_number b) (block_hash b)) (\<lambda>s.
     rbind (ensure (\<not> LIVE_CELL_SUMMARY_HISTORY_BLOCKS < length summaries)
              (Bail ''bulk live-cell summary window exceeded its fixed bound'')) (\<lambda>_.
     Inr ((if length summaries = LIVE_CELL_SUMMARY_HISTORY_BLOCKS then tl summaries else summaries) @ [s])))"

fun resolve_txs ::
    "(CellProtocolFacts \<Rightarrow> nat) \<Rightarrow> FactsArena \<Rightarrow> nat \<Rightarrow> TxFacts list \<Rightarrow> nat \<Rightarrow> BulkSequencer \<Rightarrow> IdentityLiveness option \<Rightarrow>
     (BulkSequencer \<times> IdentityLiveness option \<times> ResolvedTxFacts list \<times> nat) res" where
  "resolve_txs heap arena tx_position [] next_block_index q lv = Inr (q, lv, [], next_block_index)"
| "resolve_txs heap arena tx_position (tx # txs) next_block_index q lv =
     rbind (ensure (next_block_index < length (arena_blocks arena))
              (Bail ''bulk sequencer transaction is not covered by a block'')) (\<lambda>_.
     let b = arena_blocks arena ! next_block_index
     in rbind (ensure (\<not> (tx_block_number tx \<noteq> block_number b \<or> tx_block_hash tx \<noteq> block_hash b))
                 (Bail ''bulk live-cell summary tx/block mismatch'')) (\<lambda>_.
        rbind (resolve_tx heap (arena_cells arena) tx (live_cells q) lv) (\<lambda>(w1, lv1, resolved).
        rbind (if tx_position + 1 = snd (block_tx_range b)
               then rbind (push_summary w1 b (live_cell_summaries q)) (\<lambda>ss. Inr (ss, next_block_index + 1))
               else Inr (live_cell_summaries q, next_block_index)) (\<lambda>(ss, next_block_index').
        rbind (resolve_txs heap arena (tx_position + 1) txs next_block_index'
                 \<lparr>live_cells = w1, live_cell_summaries = ss\<rparr> lv1) (\<lambda>(q', lv', rest, n).
        Inr (q', lv', resolved # rest, n))))))"

definition resolve_inner ::
    "(CellProtocolFacts \<Rightarrow> nat) \<Rightarrow> BulkSequencer \<Rightarrow> FactsArena \<Rightarrow> IdentityLiveness option \<Rightarrow>
     (BulkSequencer \<times> IdentityLiveness option \<times> ResolvedTxFacts list) res" where
  "resolve_inner heap q arena lv =
     rbind (validate_block_partition arena
              (if live_cell_summaries q = [] then None else Some (last (live_cell_summaries q)))) (\<lambda>_.
     rbind (resolve_txs heap arena 0 (arena_txs arena) 0 q lv) (\<lambda>(q', lv', resolved_txs, next_block_index).
     rbind (ensure (next_block_index = length (arena_blocks arena))
              (Bail ''bulk sequencer did not finalize every block summary'')) (\<lambda>_.
     Inr (q', lv', resolved_txs))))"

definition resolve_arena :: "(CellProtocolFacts \<Rightarrow> nat) \<Rightarrow> BulkSequencer \<Rightarrow> FactsArena \<Rightarrow> (BulkSequencer \<times> ResolvedTxFacts list) res" where
  "resolve_arena heap q arena = rbind (resolve_inner heap q arena None) (\<lambda>(q', _, resolved). Inr (q', resolved))"

definition resolve_with_liveness ::
    "(CellProtocolFacts \<Rightarrow> nat) \<Rightarrow> BulkSequencer \<Rightarrow> FactsArena \<Rightarrow> IdentityLiveness \<Rightarrow>
     (BulkSequencer \<times> IdentityLiveness option \<times> ResolvedTxFacts list) res" where
  "resolve_with_liveness heap q arena l = resolve_inner heap q arena (Some l)"

end
