(* ===== verification/Ledger.thy ===== *)
theory Ledger
  imports Sequencer
begin

text \<open>
  What the sequencer promises. The abstract ledger is a partial map from unspent outpoints
  to the facts their spender sees; a transaction removes its inputs in order and adds its
  outputs. The sequencer's maps, counters, reference counts and per-block summaries are
  shown to implement it, and the reference counts are composed with the interner: a whole
  batch never reclaims an identity that a live cell names.
\<close>

section \<open>The abstract ledger\<close>

fun spend_all :: "ledger \<Rightarrow> OutPointKey list \<Rightarrow> (ledger \<times> ResolvedInputFacts list) option" where
  "spend_all U [] = Some (U, [])"
| "spend_all U (op # ops) =
     (case U op of
        None \<Rightarrow> None
      | Some r \<Rightarrow> (case spend_all (U(op := None)) ops of None \<Rightarrow> None | Some (U', rs) \<Rightarrow> Some (U', r # rs)))"

fun create_all :: "ledger \<Rightarrow> (CellFacts \<times> DaoCompensationArs option) list \<Rightarrow> ledger option" where
  "create_all U [] = Some U"
| "create_all U ((cell, ars) # outs) =
     (case data_hash cell of
        None \<Rightarrow> None
      | Some h \<Rightarrow> if U (outpoint cell) \<noteq> None then None
                  else create_all (U(outpoint cell \<mapsto> input_of_cell cell h ars)) outs)"

text \<open>The request at position \<open>i\<close> inherits the rates of the deposit spent at position \<open>i\<close>.\<close>

definition request_ars :: "CellFacts list \<Rightarrow> ResolvedInputFacts list \<Rightarrow> u64 \<Rightarrow> DaoCompensationArs option list" where
  "request_ars outputs inputs ar =
     map (\<lambda>i. if list_ex is_request outputs \<and> i < length inputs \<and> ri_dao_state (inputs ! i) = Some Deposit
              then Some \<lparr>deposit_ar = created_by_block_dao_ar (inputs ! i), withdraw_request_ar = ar\<rparr> else None)
       [0..<length outputs]"

definition ledger_tx :: "CellFacts list \<Rightarrow> ledger \<Rightarrow> TxFacts \<Rightarrow> (ledger \<times> ResolvedInputFacts list) option" where
  "ledger_tx cells U tx =
     (case (if tx_is_cellbase tx then Some (U, []) else spend_all U (tx_input_outpoints tx)) of
        None \<Rightarrow> None
      | Some (U1, ins) \<Rightarrow>
          (case get_range (tx_output_range tx) cells of
             None \<Rightarrow> None
           | Some outs \<Rightarrow> map_option (\<lambda>U2. (U2, ins)) (create_all U1 (zip outs (request_ars outs ins (tx_block_dao_ar tx))))))"

text \<open>The ledger after each transaction, with the inputs it resolved.\<close>

fun ledger_run :: "CellFacts list \<Rightarrow> ledger \<Rightarrow> TxFacts list \<Rightarrow> (ledger \<times> ResolvedInputFacts list) list option" where
  "ledger_run cells U [] = Some []"
| "ledger_run cells U (tx # txs) =
     (case ledger_tx cells U tx of
        None \<Rightarrow> None
      | Some (U', ins) \<Rightarrow> map_option (Cons (U', ins)) (ledger_run cells U' txs))"

definition ledger_summary :: "BlockFacts \<Rightarrow> ledger \<Rightarrow> LiveCellSummary" where
  "ledger_summary b U =
     \<lparr>tip_block_number = block_number b, tip_block_hash = block_hash b,
      sum_dao = count_cells (\<lambda>r. semantic_tag r = DaoTag) U,
      sum_typed_non_dao = count_cells (\<lambda>r. semantic_tag r \<noteq> DaoTag \<and> type_script_hash_id r \<noteq> None) U,
      sum_plain = count_cells (\<lambda>r. semantic_tag r \<noteq> DaoTag \<and> type_script_hash_id r = None) U,
      sum_data_bearing = count_cells (\<lambda>r. 0 < sint (data_size r)) U\<rparr>"

definition recent :: "LiveCellSummary list \<Rightarrow> LiveCellSummary list" where
  "recent ss = drop (length ss - LIVE_CELL_SUMMARY_HISTORY_BLOCKS) ss"

section \<open>Reference counts of a ledger\<close>

definition refs_ok :: "IdentityLiveness \<Rightarrow> ledger \<Rightarrow> bool" where
  "refs_ok l U \<longleftrightarrow> (\<forall>i < length (live_refs l). live_refs l ! i = ledger_sum (\<lambda>r. count_list (cell_ids r) i) U) \<and>
     (\<forall>op r. U op = Some r \<longrightarrow> set (cell_ids r) \<subseteq> {..<length (live_refs l)})"

definition ledger_ids :: "ledger \<Rightarrow> nat set" where
  "ledger_ids U = {i. \<exists>op r. U op = Some r \<and> i \<in> set (cell_ids r)}"

definition cells_ids :: "CellFacts list \<Rightarrow> nat set" where
  "cells_ids cells = (\<Union>c\<in>set cells. set (cell_ids c))"

text \<open>The counts follow the ledger from \<open>U\<close> to \<open>U'\<close>, releasing ids of \<open>S\<close> only.\<close>

definition counts_track :: "IdentityLiveness option \<Rightarrow> ledger \<Rightarrow> IdentityLiveness option \<Rightarrow> ledger \<Rightarrow> nat set \<Rightarrow> bool" where
  "counts_track lv U lv' U' S =
     (case lv of
        None \<Rightarrow> lv' = None
      | Some l \<Rightarrow> liveness_ok l \<longrightarrow> refs_ok l U \<longrightarrow>
          (\<exists>ops l'. lv' = Some l' \<and> run_liveness l ops = Inr l' \<and> {i. Release i \<in> set ops} \<subseteq> S \<and>
             liveness_ok l' \<and> refs_ok l' U'))"

lemma counts_track_refl: "counts_track lv U lv U {}"
  by (auto simp: counts_track_def split: option.splits intro: exI [of _ "[]"])

lemma run_liveness_append:
  "run_liveness l (ops @ ops') = rbind (run_liveness l ops) (\<lambda>l'. run_liveness l' ops')"
  by (induction l ops rule: run_liveness.induct) (auto simp: rbind_def split: sum.splits)

lemma counts_track_trans:
  assumes "counts_track lv U lv1 U1 S" "counts_track lv1 U1 lv2 U2 T"
  shows "counts_track lv U lv2 U2 (S \<union> T)"
proof (cases lv)
  case None
  then show ?thesis using assms by (simp add: counts_track_def)
next
  case (Some l)
  have "\<exists>ops l'. lv2 = Some l' \<and> run_liveness l ops = Inr l' \<and> {i. Release i \<in> set ops} \<subseteq> S \<union> T \<and> liveness_ok l' \<and> refs_ok l' U2"
    if ok: "liveness_ok l" "refs_ok l U"
  proof -
    obtain ops l1 where 1: "lv1 = Some l1" "run_liveness l ops = Inr l1" "{i. Release i \<in> set ops} \<subseteq> S" "liveness_ok l1" "refs_ok l1 U1"
      using assms(1) ok by (auto simp: counts_track_def Some)
    obtain ops' l2 where 2: "lv2 = Some l2" "run_liveness l1 ops' = Inr l2" "{i. Release i \<in> set ops'} \<subseteq> T" "liveness_ok l2" "refs_ok l2 U2"
      using assms(2) 1 by (auto simp: counts_track_def)
    have "run_liveness l (ops @ ops') = Inr l2" using 1 2 by (simp add: run_liveness_append)
    moreover have "{i. Release i \<in> set (ops @ ops')} \<subseteq> S \<union> T" using 1(3) 2(3) by auto
    ultimately show ?thesis using 2 by blast
  qed
  then show ?thesis by (simp add: counts_track_def Some)
qed

lemma counts_track_mono: "counts_track lv U lv' U' S \<Longrightarrow> S \<subseteq> T \<Longrightarrow> counts_track lv U lv' U' T"
  by (auto simp: counts_track_def split: option.splits)

lemma retain_all_run: "retain_all l ids = run_liveness l (map Retain ids)"
  by (induction l ids rule: retain_all.induct) (simp_all add: rbind_def split: sum.splits)

lemma release_all_run: "release_all l ids = run_liveness l (map Release ids)"
  by (induction l ids rule: release_all.induct) (simp_all add: rbind_def split: sum.splits)

lemma ops_counts:
  "releases i (map Release ids) = count_list ids i" "retains i (map Release ids) = 0"
  "releases i (map Retain ids) = 0" "retains i (map Retain ids) = count_list ids i"
  by (induction ids) (auto simp: releases_def retains_def)

lemma retain_all_bound: "retain_all l ids = Inr l' \<Longrightarrow> set ids \<subseteq> {..<length (live_refs l)}"
  by (induction l ids rule: retain_all.induct)
    (force simp: res_simps retain_id_def split: if_splits)+

lemma release_tracks:
  assumes fin: "finite (dom U)" and r: "U op = Some r" and run: "if_liveness (\<lambda>l. release_input_identities l r) lv = Inr lv'"
  shows "counts_track lv U lv' (U(op := None)) (set (cell_ids r))"
proof (cases lv)
  case (Some l)
  then obtain l' where l': "lv' = Some l'" "run_liveness l (map Release (cell_ids r)) = Inr l'"
    using run by (auto simp: if_liveness_def release_input_identities_def release_all_run res_simps)
  have "liveness_ok l' \<and> refs_ok l' (U(op := None))" if ok: "liveness_ok l" "refs_ok l U"
  proof -
    note R = run_liveness_ok [OF ok(1) l'(2), unfolded ops_counts]
    have "live_refs l' ! i = ledger_sum (\<lambda>r. count_list (cell_ids r) i) (U(op := None))" if "i < length (live_refs l')" for i
    proof -
      have "live_refs l' ! i + count_list (cell_ids r) i = ledger_sum (\<lambda>r. count_list (cell_ids r) i) U"
        using R that ok(2) by (simp add: refs_ok_def)
      then show ?thesis using ledger_sum_remove [OF fin r, of "\<lambda>r. count_list (cell_ids r) i"] by simp
    qed
    then show ?thesis using R ok(2) by (auto simp: refs_ok_def split: if_splits)
  qed
  then show ?thesis using l' by (auto simp: counts_track_def Some)
qed (use run in \<open>auto simp: counts_track_def if_liveness_def\<close>)

lemma retain_tracks:
  assumes fin: "finite (dom U)" and none: "U op = None" and same: "cell_ids r = cell_ids cell"
    and run: "if_liveness (\<lambda>l. retain_cell_identities l cell) lv = Inr lv'"
  shows "counts_track lv U lv' (U(op \<mapsto> r)) {}"
proof (cases lv)
  case (Some l)
  then obtain l' where l': "lv' = Some l'" "retain_all l (cell_ids cell) = Inr l'"
    using run by (auto simp: if_liveness_def retain_cell_identities_def res_simps)
  have run': "run_liveness l (map Retain (cell_ids r)) = Inr l'" using l'(2) by (simp add: retain_all_run same)
  have "liveness_ok l' \<and> refs_ok l' (U(op \<mapsto> r))" if ok: "liveness_ok l" "refs_ok l U"
  proof -
    note R = run_liveness_ok [OF ok(1) run', unfolded ops_counts]
    have "live_refs l' ! i = ledger_sum (\<lambda>r. count_list (cell_ids r) i) (U(op \<mapsto> r))" if "i < length (live_refs l')" for i
      using R that ok(2) ledger_sum_insert [OF fin none, of "\<lambda>r. count_list (cell_ids r) i" r]
      by (simp add: refs_ok_def)
    then show ?thesis using R ok(2) retain_all_bound [OF l'(2)] by (auto simp: refs_ok_def same split: if_splits)
  qed
  then show ?thesis using l'(1) run' by (auto simp: counts_track_def Some intro!: exI [of _ "map Retain (cell_ids r)"])
qed (use run in \<open>auto simp: counts_track_def if_liveness_def\<close>)

section \<open>One transaction\<close>

lemma owner_ok_finite: "owner_ok heap w \<Longrightarrow> finite (dom (ledger_of w))"
  by (simp add: owner_ok_def dom_ledger_of)

lemma ledger_ids_upd:
  "ledger_ids (U(op := None)) \<subseteq> ledger_ids U"
  "ledger_ids (U(op \<mapsto> r)) \<subseteq> ledger_ids U \<union> set (cell_ids r)"
  "U op = Some r \<Longrightarrow> set (cell_ids r) \<subseteq> ledger_ids U"
  by (auto simp: ledger_ids_def split: if_splits)

lemma resolve_inputs_ok:
  assumes "owner_ok heap w" "resolve_inputs heap n ops w lv = Inr (w', lv', rs)"
  shows "owner_ok heap w' \<and> spend_all (ledger_of w) ops = Some (ledger_of w', rs) \<and>
    counts_track lv (ledger_of w) lv' (ledger_of w') (ledger_ids (ledger_of w)) \<and>
    ledger_ids (ledger_of w') \<subseteq> ledger_ids (ledger_of w)"
  using assms
proof (induction ops arbitrary: n w lv rs)
  case Nil
  then show ?case using counts_track_mono [OF counts_track_refl] by auto
next
  case (Cons op ops)
  obtain w1 r lv1 rs' where step: "consume heap w op = Inr (w1, r)"
      "if_liveness (\<lambda>l. release_input_identities l r) lv = Inr lv1"
      "resolve_inputs heap (n + 1) ops w1 lv1 = Inr (w', lv', rs')" "rs = r # rs'"
    using Cons.prems(2) by (auto simp: res_simps)
  have r: "ledger_of w op = Some r" and w1: "owner_ok heap w1" "ledger_of w1 = (ledger_of w)(op := None)"
    using consume_ok [OF Cons.prems(1)] consume_missing step(1) by (cases "ledger_of w op"; fastforce)+
  have 1: "counts_track lv (ledger_of w) lv1 (ledger_of w1) (ledger_ids (ledger_of w))"
    using release_tracks [OF owner_ok_finite [OF Cons.prems(1)] r step(2)] ledger_ids_upd(3) [of "ledger_of w" op r] r
    by (auto simp: w1(2) intro: counts_track_mono)
  note IH = Cons.IH [OF w1(1) step(3), unfolded w1(2)]
  have "counts_track lv (ledger_of w) lv' (ledger_of w') (ledger_ids (ledger_of w))"
    using counts_track_trans [OF 1 [unfolded w1(2)]] IH ledger_ids_upd(1) [of "ledger_of w" op]
    by (metis Un_absorb2)
  moreover have "ledger_ids (ledger_of w') \<subseteq> ledger_ids (ledger_of w)"
    using IH ledger_ids_upd(1) [of "ledger_of w" op] by (meson subset_trans)
  ultimately show ?case using IH r step(4) by (simp del: fun_upd_apply)
qed

lemma input_of_cell_ids: "cell_ids (input_of_cell cell h ars) = cell_ids cell"
  by (simp add: cell_ids_def input_of_cell_def)

lemma create_outputs_ok:
  assumes "owner_ok heap w" "create_outputs heap ars n outs w lv = Inr (w', lv')"
  shows "owner_ok heap w' \<and> create_all (ledger_of w) (zip outs (drop n ars)) = Some (ledger_of w') \<and>
    counts_track lv (ledger_of w) lv' (ledger_of w') {} \<and>
    ledger_ids (ledger_of w') \<subseteq> ledger_ids (ledger_of w) \<union> cells_ids outs"
  using assms
proof (induction outs arbitrary: n w lv)
  case Nil
  then show ?case by (simp add: counts_track_refl)
next
  case (Cons cell outs)
  obtain lv1 slot w1 where step: "if_liveness (\<lambda>l. retain_cell_identities l cell) lv = Inr lv1"
      "slot_from_cell_facts cell = Inr slot" "n < length ars"
      "insert_created heap w (outpoint cell) slot (extras_from_cell_facts cell (ars ! n)) (kept_while_live (protocol_facts cell)) = Inr w1"
      "create_outputs heap ars (n + 1) outs w1 lv1 = Inr (w', lv')"
    using Cons.prems(2) by (auto simp: res_simps)
  obtain h where h: "data_hash cell = Some h" "into_resolved_input_facts slot (outpoint cell)
      (case extras_from_cell_facts cell (ars ! n) of None \<Rightarrow> no_extras | Some x \<Rightarrow> x)
      (kept_while_live (protocol_facts cell)) = input_of_cell cell h (ars ! n)"
    using slot_from_cell_Inr [OF step(2)] by blast
  let ?r = "input_of_cell cell h (ars ! n)"
  have w1: "ledger_of w (outpoint cell) = None" "owner_ok heap w1" "ledger_of w1 = (ledger_of w)(outpoint cell \<mapsto> ?r)"
    using insert_created_ok [OF Cons.prems(1) step(4)] h(2) by auto
  have 1: "counts_track lv (ledger_of w) lv1 (ledger_of w1) {}"
    unfolding w1(3) by (rule retain_tracks [OF owner_ok_finite [OF Cons.prems(1)] w1(1) input_of_cell_ids step(1)])
  note IH = Cons.IH [OF w1(2) step(5), unfolded w1(3)]
  have "counts_track lv (ledger_of w) lv' (ledger_of w') {}"
    using counts_track_trans [OF 1 [unfolded w1(3)]] IH by (metis sup_bot.right_neutral)
  moreover have "drop n ars = ars ! n # drop (n + 1) ars" using step(3) by (simp add: Cons_nth_drop_Suc)
  moreover have "ledger_ids (ledger_of w') \<subseteq> ledger_ids (ledger_of w) \<union> cells_ids (cell # outs)"
    using IH ledger_ids_upd(2) [of "ledger_of w" "outpoint cell" ?r] unfolding cells_ids_def input_of_cell_ids
    by (auto simp del: fun_upd_apply)
  ultimately show ?case using IH w1 h(1) by (simp del: fun_upd_apply)
qed

lemma match_requests_ok:
  assumes "match_requests outs ar n ins m = Inr m'" "length m = length outs"
  shows "length m' = length outs \<and> (\<forall>i < length outs. m' ! i =
      (if n \<le> i \<and> i < n + length ins \<and> ri_dao_state (ins ! (i - n)) = Some Deposit
       then Some \<lparr>deposit_ar = created_by_block_dao_ar (ins ! (i - n)), withdraw_request_ar = ar\<rparr> else m ! i))"
  using assms
proof (induction outs ar n ins m rule: match_requests.induct)
  case (2 outs ar n input ins m)
  show ?case
  proof (cases "ri_dao_state input = Some Deposit")
    case False
    then have "match_requests outs ar (n + 1) ins m = Inr m'" using 2(3) by simp
    note IH = 2(1) [OF False this 2(4)]
    show ?thesis using IH False by (auto simp: nth_Cons' Suc_le_eq)
  next
    case True
    then obtain k where k: "n < length outs" "dao_state (outs ! n) = Some (WithdrawRequest k)" "k = created_at_block input"
        "match_requests outs ar (n + 1) ins
           (m[n := Some \<lparr>deposit_ar = created_by_block_dao_ar input, withdraw_request_ar = ar\<rparr>]) = Inr m'"
      using 2(3) by (auto split: if_splits option.splits DaoCellState.splits)
    note IH = 2(2) [of "WithdrawRequest k" k]
    show ?thesis using IH True k 2(4) by (auto simp: nth_Cons' Suc_le_eq not_less)
  qed
qed auto

lemma request_output_ars_ok:
  assumes "resolve_request_output_ars outs ins ar = Inr m"
  shows "m = request_ars outs ins ar"
proof (cases "list_ex is_request outs")
  case True
  then have "match_requests outs ar 0 ins (replicate (length outs) None) = Inr m"
    using assms by (simp add: resolve_request_output_ars_def)
  from match_requests_ok [OF this] show ?thesis
    by (intro nth_equalityI) (auto simp: request_ars_def True)
next
  case False
  then show ?thesis using assms
    by (intro nth_equalityI) (auto simp: resolve_request_output_ars_def request_ars_def)
qed

lemma resolve_tx_ok:
  assumes ok: "owner_ok heap w" and run: "resolve_tx heap cells tx w lv = Inr (w', lv', rt)"
  shows "owner_ok heap w' \<and> ledger_tx cells (ledger_of w) tx = Some (ledger_of w', rt_resolved_inputs rt) \<and>
    counts_track lv (ledger_of w) lv' (ledger_of w') (ledger_ids (ledger_of w)) \<and>
    ledger_ids (ledger_of w') \<subseteq> ledger_ids (ledger_of w) \<union> cells_ids cells"
proof -
  obtain w1 lv1 ins outs m where step:
      "(if tx_is_cellbase tx then Inr (w, lv, []) else resolve_inputs heap 0 (tx_input_outpoints tx) w lv) = Inr (w1, lv1, ins)"
      "get_range (tx_output_range tx) cells = Some outs" "resolve_request_output_ars outs ins (tx_block_dao_ar tx) = Inr m"
      "create_outputs heap m 0 outs w1 lv1 = Inr (w', lv')" "rt_resolved_inputs rt = ins"
    using run by (auto simp: resolve_tx_def res_simps)
  have 1: "owner_ok heap w1 \<and> (if tx_is_cellbase tx then Some (ledger_of w, []) else spend_all (ledger_of w) (tx_input_outpoints tx)) = Some (ledger_of w1, ins) \<and>
    counts_track lv (ledger_of w) lv1 (ledger_of w1) (ledger_ids (ledger_of w)) \<and> ledger_ids (ledger_of w1) \<subseteq> ledger_ids (ledger_of w)"
    using step(1) ok resolve_inputs_ok [OF ok] counts_track_mono [OF counts_track_refl, of "ledger_ids (ledger_of w)"]
    by (cases "tx_is_cellbase tx") auto
  note 2 = create_outputs_ok [OF conjunct1 [OF 1] step(4)]
  have "cells_ids outs \<subseteq> cells_ids cells"
    using step(2) by (auto simp: get_range_def cells_ids_def split: prod.splits if_splits dest!: in_set_takeD in_set_dropD)
  moreover have "counts_track lv (ledger_of w) lv' (ledger_of w') (ledger_ids (ledger_of w))"
    using counts_track_trans 1 2 by (metis sup_bot.right_neutral)
  moreover have "ledger_tx cells (ledger_of w) tx = Some (ledger_of w', ins)"
    using 1 2 step(2) request_output_ars_ok [OF step(3)] by (auto simp: ledger_tx_def)
  ultimately show ?thesis using 1 2 step(5) by blast
qed

section \<open>A batch\<close>

abbreviation tx_end :: "BlockFacts \<Rightarrow> nat" where
  "tx_end b \<equiv> snd (block_tx_range b)"

definition final_ledger :: "ledger \<Rightarrow> (ledger \<times> ResolvedInputFacts list) list \<Rightarrow> ledger" where
  "final_ledger U run = (if run = [] then U else fst (last run))"

lemma recent_append: "recent (recent xs @ ys) = recent (xs @ ys)"
proof (cases "length xs \<le> LIVE_CELL_SUMMARY_HISTORY_BLOCKS")
  case False
  then obtain k where "length xs = LIVE_CELL_SUMMARY_HISTORY_BLOCKS + k" by (metis le_Suc_ex nat_le_linear)
  then show ?thesis by (simp add: recent_def add.commute)
qed (simp add: recent_def)

lemma recent_short: "length xs \<le> LIVE_CELL_SUMMARY_HISTORY_BLOCKS \<Longrightarrow> recent xs = xs"
  by (simp add: recent_def)

lemma length_recent: "length (recent xs) \<le> LIVE_CELL_SUMMARY_HISTORY_BLOCKS"
  by (simp add: recent_def)

lemma push_summary_ok:
  assumes "owner_ok heap w" "push_summary w b ss = Inr ss'"
  shows "ss' = recent (ss @ [ledger_summary b (ledger_of w)])"
proof -
  obtain s where s: "snapshot_counter (summary w) (block_number b) (block_hash b) = Inr s"
      "length ss \<le> LIVE_CELL_SUMMARY_HISTORY_BLOCKS"
      "ss' = (if length ss = LIVE_CELL_SUMMARY_HISTORY_BLOCKS then tl ss else ss) @ [s]"
    using assms(2) by (auto simp: push_summary_def owner_summary_def res_simps)
  have "s = ledger_summary b (ledger_of w)"
    using snapshot_counter_Inr [OF s(1)] assms(1) by (simp add: ledger_summary_def owner_ok_def ledger_counter_def)
  moreover have "0 < LIVE_CELL_SUMMARY_HISTORY_BLOCKS" by (simp add: LIVE_CELL_SUMMARY_HISTORY_BLOCKS_def)
  ultimately show ?thesis
    using s(2,3) by (cases ss) (auto simp: recent_def le_Suc_eq Suc_diff_le not_less_eq_eq)
qed

lemma nth_shift: "pos + 1 < e \<Longrightarrow> (x # run) ! (e - 1 - pos) = run ! (e - 1 - (pos + 1))"
  by (simp add: nth_Cons')

definition block_summaries ::
    "nat \<Rightarrow> (ledger \<times> ResolvedInputFacts list) list \<Rightarrow> BlockFacts list \<Rightarrow> LiveCellSummary list" where
  "block_summaries pos run bs = map (\<lambda>b. ledger_summary b (fst (run ! (tx_end b - 1 - pos)))) bs"

lemma block_summaries_shift:
  "\<forall>b\<in>set bs. pos + 1 < tx_end b \<Longrightarrow> block_summaries pos (x # run) bs = block_summaries (pos + 1) run bs"
  unfolding block_summaries_def by (rule map_cong) (simp_all only: nth_shift)

text \<open>Processing one transaction inside a valid partition: it ends its block or leaves it open.\<close>

lemma block_step:
  assumes k: "k < length bs" and srt: "sorted_wrt (<) (pos # map tx_end (drop k bs))"
  defines "k' \<equiv> if pos + 1 = tx_end (bs ! k) then k + 1 else k"
  shows "sorted_wrt (<) ((pos + 1) # map tx_end (drop k' bs))"
    and "k' \<le> n \<Longrightarrow> block_summaries pos ((U, ins) # run) (take (n - k) (drop k bs)) =
      (if pos + 1 = tx_end (bs ! k) then [ledger_summary (bs ! k) U] else []) @
      block_summaries (pos + 1) run (take (n - k') (drop k' bs))"
proof -
  have drop: "drop k bs = bs ! k # drop (k + 1) bs" using k by (simp add: Cons_nth_drop_Suc)
  have later: "\<forall>b\<in>set (drop k' bs). pos + 1 < tx_end b"
    using srt unfolding drop by (auto simp: drop k'_def)
  show "sorted_wrt (<) ((pos + 1) # map tx_end (drop k' bs))"
    using srt later unfolding drop by (auto simp: drop k'_def)
  assume n: "k' \<le> n"
  have sh: "block_summaries pos ((U, ins) # run) (take m (drop k' bs)) = block_summaries (pos + 1) run (take m (drop k' bs))" for m
    by (rule block_summaries_shift) (use later in \<open>auto dest: in_set_takeD\<close>)
  show "block_summaries pos ((U, ins) # run) (take (n - k) (drop k bs)) =
      (if pos + 1 = tx_end (bs ! k) then [ledger_summary (bs ! k) U] else []) @
      block_summaries (pos + 1) run (take (n - k') (drop k' bs))"
  proof (cases "pos + 1 = tx_end (bs ! k)")
    case True
    then obtain m where "n = k + 1 + m" using n by (auto simp: k'_def le_iff_add)
    then have "take (n - k) (drop k bs) = bs ! k # take (n - k') (drop k' bs)" using drop True by (simp add: k'_def)
    then show ?thesis using True sh by (simp add: block_summaries_def)
  next
    case False
    then show ?thesis using sh by (simp add: k'_def)
  qed
qed

lemma resolve_txs_ok:
  assumes "owner_ok heap (live_cells q)" "length (live_cell_summaries q) \<le> LIVE_CELL_SUMMARY_HISTORY_BLOCKS"
    "resolve_txs heap arena pos txs k q lv = Inr (q', lv', rts, n)"
    "sorted_wrt (<) (pos # map tx_end (drop k (arena_blocks arena)))"
  shows "\<exists>run. ledger_run (arena_cells arena) (ledger_of (live_cells q)) txs = Some run \<and>
    map rt_resolved_inputs rts = map snd run \<and> owner_ok heap (live_cells q') \<and>
    ledger_of (live_cells q') = final_ledger (ledger_of (live_cells q)) run \<and> k \<le> n \<and>
    live_cell_summaries q' = recent (live_cell_summaries q @ block_summaries pos run (take (n - k) (drop k (arena_blocks arena)))) \<and>
    counts_track lv (ledger_of (live_cells q)) lv' (ledger_of (live_cells q'))
      (ledger_ids (ledger_of (live_cells q)) \<union> cells_ids (arena_cells arena)) \<and>
    ledger_ids (ledger_of (live_cells q')) \<subseteq> ledger_ids (ledger_of (live_cells q)) \<union> cells_ids (arena_cells arena)"
  using assms
proof (induction txs arbitrary: pos k q lv rts)
  case Nil
  then show ?case
    using counts_track_mono [OF counts_track_refl, of "ledger_ids (ledger_of (live_cells q)) \<union> cells_ids (arena_cells arena)" lv "ledger_of (live_cells q)"]
    by (auto simp: final_ledger_def block_summaries_def recent_short)
next
  case (Cons tx txs)
  let ?bs = "arena_blocks arena" and ?cells = "arena_cells arena" and ?U = "ledger_of (live_cells q)"
  let ?b = "?bs ! k"
  obtain w1 lv1 rt ss k' rts' where step: "k < length ?bs" "resolve_tx heap ?cells tx (live_cells q) lv = Inr (w1, lv1, rt)"
      "(if pos + 1 = tx_end ?b then rbind (push_summary w1 ?b (live_cell_summaries q)) (\<lambda>ss. Inr (ss, k + 1))
        else Inr (live_cell_summaries q, k)) = Inr (ss, k')"
      "resolve_txs heap arena (pos + 1) txs k' \<lparr>live_cells = w1, live_cell_summaries = ss\<rparr> lv1 = Inr (q', lv', rts', n)"
      "rts = rt # rts'"
    using Cons.prems(3) by (auto simp: Let_def res_simps)
  note tx = resolve_tx_ok [OF Cons.prems(1) step(2)]
  let ?U1 = "ledger_of w1"
  have ss: "ss = recent (live_cell_summaries q @ (if pos + 1 = tx_end ?b then [ledger_summary ?b ?U1] else []))"
    and k': "k' = (if pos + 1 = tx_end ?b then k + 1 else k)"
    using step(3) push_summary_ok tx Cons.prems(2) by (auto simp: recent_short res_simps split: if_splits)
  note bstep = block_step [OF step(1) Cons.prems(4), folded k']
  obtain run where run: "ledger_run ?cells ?U1 txs = Some run" "map rt_resolved_inputs rts' = map snd run"
      "owner_ok heap (live_cells q')" "ledger_of (live_cells q') = final_ledger ?U1 run" "k' \<le> n"
      "live_cell_summaries q' = recent (ss @ block_summaries (pos + 1) run (take (n - k') (drop k' ?bs)))"
      "counts_track lv1 ?U1 lv' (ledger_of (live_cells q')) (ledger_ids ?U1 \<union> cells_ids ?cells)"
      "ledger_ids (ledger_of (live_cells q')) \<subseteq> ledger_ids ?U1 \<union> cells_ids ?cells"
    using Cons.IH [of "\<lparr>live_cells = w1, live_cell_summaries = ss\<rparr>" "pos + 1" k' lv1 rts'] tx step(4) bstep(1) ss length_recent
    by auto
  let ?run = "(?U1, rt_resolved_inputs rt) # run"
  have "live_cell_summaries q' = recent (live_cell_summaries q @ block_summaries pos ?run (take (n - k) (drop k ?bs)))"
    using run(6) ss bstep(2) [OF run(5)] recent_append by (metis append.assoc)
  moreover have "counts_track lv ?U lv' (ledger_of (live_cells q')) (ledger_ids ?U \<union> cells_ids ?cells)"
    by (rule counts_track_mono [OF counts_track_trans [OF _ run(7)]]) (use tx in auto)
  moreover have "ledger_ids (ledger_of (live_cells q')) \<subseteq> ledger_ids ?U \<union> cells_ids ?cells" using run(8) tx by blast
  moreover have "ledger_of (live_cells q') = final_ledger ?U ?run" using run(4) by (simp add: final_ledger_def)
  moreover have "k \<le> n" using run(5) k' by (simp split: if_splits)
  ultimately show ?case using run tx step(5) by (intro exI [of _ ?run]) simp
qed

text \<open>The validated ranges tile the transactions and the block numbers are consecutive.\<close>

lemma validate_blocks_ok:
  "validate_blocks n st prev bs = Inr c \<Longrightarrow> sorted_wrt (<) (st # map tx_end bs) \<and>
    (\<forall>b\<in>set bs. fst (block_tx_range b) < tx_end b \<and> tx_end b \<le> n) \<and>
    (\<forall>i. Suc i < length bs \<longrightarrow> sint (block_number (bs ! Suc i)) = sint (block_number (bs ! i)) + 1)"
proof (induction n st prev bs rule: validate_blocks.induct)
  case (2 n st prev b bs)
  obtain start stop where r: "block_tx_range b = (start, stop)" by fastforce
  have b: "start = st" "start < stop" "stop \<le> n" and rest: "validate_blocks n stop (Some (block_number b)) bs = Inr c"
    using 2(2) by (auto simp: r res_simps)
  have IH: "sorted_wrt (<) (stop # map tx_end bs) \<and>
    (\<forall>b\<in>set bs. fst (block_tx_range b) < tx_end b \<and> tx_end b \<le> n) \<and>
    (\<forall>i. Suc i < length bs \<longrightarrow> sint (block_number (bs ! Suc i)) = sint (block_number (bs ! i)) + 1)"
    using 2(1) [OF r [symmetric]] rest 2(2) by (auto simp: r res_simps)
  have "sint (block_number (hd bs)) = sint (block_number b) + 1" if "bs \<noteq> []"
    using rest that by (cases bs) (auto simp: res_simps split: prod.splits)
  then have "\<forall>i. Suc i < length (b # bs) \<longrightarrow> sint (block_number ((b # bs) ! Suc i)) = sint (block_number ((b # bs) ! i)) + 1"
    using IH by (auto simp: nth_Cons hd_conv_nth split: nat.splits)
  then show ?case using IH b r by (auto intro: less_trans)
qed simp

lemma resolve_inner_ok:
  assumes "owner_ok heap (live_cells q)" "length (live_cell_summaries q) \<le> LIVE_CELL_SUMMARY_HISTORY_BLOCKS"
    "resolve_inner heap q arena lv = Inr (q', lv', rts)"
  shows "\<exists>run. ledger_run (arena_cells arena) (ledger_of (live_cells q)) (arena_txs arena) = Some run \<and>
    map rt_resolved_inputs rts = map snd run \<and> owner_ok heap (live_cells q') \<and>
    ledger_of (live_cells q') = final_ledger (ledger_of (live_cells q)) run \<and>
    live_cell_summaries q' = recent (live_cell_summaries q @ block_summaries 0 run (arena_blocks arena)) \<and>
    counts_track lv (ledger_of (live_cells q)) lv' (ledger_of (live_cells q'))
      (ledger_ids (ledger_of (live_cells q)) \<union> cells_ids (arena_cells arena)) \<and>
    ledger_ids (ledger_of (live_cells q')) \<subseteq> ledger_ids (ledger_of (live_cells q)) \<union> cells_ids (arena_cells arena)"
proof -
  have v: "\<exists>prev. validate_block_partition arena prev = Inr ()"
    and r: "resolve_txs heap arena 0 (arena_txs arena) 0 q lv = Inr (q', lv', rts, length (arena_blocks arena))"
    using assms(3) by (auto simp: resolve_inner_def res_simps)
  have "sorted_wrt (<) (0 # map tx_end (drop 0 (arena_blocks arena)))"
    using v validate_blocks_ok by (fastforce simp: validate_block_partition_def res_simps split: if_splits)
  from resolve_txs_ok [OF assms(1,2) r this] show ?thesis by simp
qed

section \<open>A batch of the bulk build\<close>

text \<open>
  The identity life cycle of \<open>apply_blocks\<close>, after the facts of the batch are interned: the
  counts get a slot per id, the batch is resolved and, when the reducers are done and the
  frozen view is dropped, the ids nothing refers to are reclaimed. The reducers in between
  read the interner only through the view, and mark lock scripts as written.
\<close>

definition resolve_batch ::
    "(CellProtocolFacts \<Rightarrow> nat) \<Rightarrow> BulkSequencer \<Rightarrow> interner \<Rightarrow> IdentityLiveness \<Rightarrow> FactsArena \<Rightarrow>
     (BulkSequencer \<times> IdentityLiveness option \<times> ResolvedTxFacts list) res" where
  "resolve_batch heap q it l arena = resolve_with_liveness heap q arena (ensure_slots l (length (slot_values it)))"

definition reclaim_batch :: "interner \<Rightarrow> IdentityLiveness \<Rightarrow> (interner \<times> IdentityLiveness \<times> ReclaimStats) res" where
  "reclaim_batch it l =
     rbind (drain_zero_candidates l) (\<lambda>(l', reclaim_candidates).
     case reclaim_zero_ref_identities it reclaim_candidates of
       (it', Inl e) \<Rightarrow> Inl e
     | (it', Inr reclaim_stats) \<Rightarrow> Inr (it', l', reclaim_stats))"

definition bulk_ok :: "(CellProtocolFacts \<Rightarrow> nat) \<Rightarrow> BulkSequencer \<Rightarrow> interner \<Rightarrow> IdentityLiveness \<Rightarrow> bool" where
  "bulk_ok heap q it l \<longleftrightarrow> owner_ok heap (live_cells q) \<and>
     length (live_cell_summaries q) \<le> LIVE_CELL_SUMMARY_HISTORY_BLOCKS \<and>
     interner_ok it \<and> liveness_ok l \<and> zero_candidates l = [] \<and> refs_ok l (ledger_of (live_cells q)) \<and>
     (\<forall>i\<in>ledger_ids (ledger_of (live_cells q)). slot_at it i \<noteq> None)"

lemma ledger_sum_pos:
  assumes "finite (dom U)" "i \<in> ledger_ids U"
  shows "0 < ledger_sum (\<lambda>r. count_list (cell_ids r) i) U"
proof -
  obtain op r where r: "U op = Some r" "i \<in> set (cell_ids r)" using assms(2) by (auto simp: ledger_ids_def)
  then have "count_list (cell_ids r) i \<noteq> 0" by (simp add: count_list_0_iff)
  then show ?thesis using ledger_sum_remove [OF assms(1) r(1), of "\<lambda>r. count_list (cell_ids r) i"] by simp
qed

lemma ledger_sum_zero: "i \<notin> ledger_ids U \<Longrightarrow> ledger_sum (\<lambda>r. count_list (cell_ids r) i) U = 0"
  unfolding ledger_sum_def by (rule sum.neutral) (auto simp: ledger_ids_def count_list_0_iff)

lemma refs_ok_ensure_slots:
  assumes "refs_ok l U"
  shows "refs_ok (ensure_slots l n) U"
proof -
  have "live_refs (ensure_slots l n) ! i = ledger_sum (\<lambda>r. count_list (cell_ids r) i) U"
    if i: "i < length (live_refs (ensure_slots l n))" for i
  proof (cases "i < length (live_refs l)")
    case True
    then show ?thesis using assms by (simp add: refs_ok_def ensure_slots_def nth_append)
  next
    case False
    then have "i \<notin> ledger_ids U" using assms by (force simp: refs_ok_def ledger_ids_def)
    then show ?thesis using i False by (simp add: ledger_sum_zero ensure_slots_def nth_append split: if_splits)
  qed
  moreover have "length (live_refs l) \<le> length (live_refs (ensure_slots l n))" by (simp add: ensure_slots_def)
  ultimately show ?thesis using assms by (force simp: refs_ok_def)
qed

lemma ensure_slots_candidates: "zero_candidates (ensure_slots l n) = zero_candidates l"
  by (simp add: ensure_slots_def)

section \<open>Properties\<close>

text \<open>
  C8. The sequencer implements the ledger. When a batch is accepted, the abstract ledger
  run over its transactions is defined: every input was unspent when it was spent and every
  output new when it was created. The resolved inputs are exactly the ones the ledger
  returns, with the data, sparse extras and protocol facts stored at creation and the DAO
  rates taken from the deposit at the same position. The live cells afterwards are the final
  ledger, and the kept summaries are the last 37 block-end counts of the ledger. So a batch
  with a double spend, an unknown input or a repeated outpoint is refused.
\<close>

theorem sequencer_implements_ledger:
  assumes "owner_ok heap (live_cells q)" "length (live_cell_summaries q) \<le> LIVE_CELL_SUMMARY_HISTORY_BLOCKS"
    "resolve_arena heap q arena = Inr (q', resolved)"
  shows "\<exists>run. ledger_run (arena_cells arena) (ledger_of (live_cells q)) (arena_txs arena) = Some run \<and>
    map rt_resolved_inputs resolved = map snd run \<and>
    ledger_of (live_cells q') = final_ledger (ledger_of (live_cells q)) run \<and>
    live_cell_summaries q' = recent (live_cell_summaries q @ map (\<lambda>b. ledger_summary b (fst (run ! (tx_end b - 1)))) (arena_blocks arena)) \<and>
    owner_ok heap (live_cells q') \<and> length (live_cell_summaries q') \<le> LIVE_CELL_SUMMARY_HISTORY_BLOCKS"
proof -
  obtain lv' where "resolve_inner heap q arena None = Inr (q', lv', resolved)"
    using assms(3) by (auto simp: resolve_arena_def res_simps)
  from resolve_inner_ok [OF assms(1,2) this] show ?thesis
    by (auto simp: block_summaries_def length_recent)
qed

text \<open>A block whose second transaction spends the cell the cellbase created.\<close>

definition example_cell :: "bytes \<Rightarrow> CellFacts" where
  "example_cell h =
     \<lparr>created_at_block = 0, created_by_block_dao_ar = 7, capacity = 100, occupied_capacity = 61, data_size = 0,
      lock_script_hash_id = 1, lock_code_hash_id = 1, lock_hash_type = 1, lock_args_id = 1,
      type_script_hash_id = None, type_code_hash_id = None, type_hash_type = None, type_args_id = None,
      semantic_tag = PlainTag, outpoint = \<lparr>op_tx_hash = h, op_index = 0\<rparr>, cell_data = [], data_hash = Some [9],
      udt_amount = None, dao_state = None, protocol_facts = None\<rparr>"

definition example_tx :: "bytes \<Rightarrow> bool \<Rightarrow> OutPointKey list \<Rightarrow> nat \<times> nat \<Rightarrow> TxFacts" where
  "example_tx h cellbase ins outs =
     \<lparr>tx_hash = h, tx_block_number = 0, tx_block_hash = replicate 32 0, tx_timestamp_ms = 0, tx_chain_time_ms = 0,
      tx_block_dao_ar = 7, tx_index = 0, tx_is_cellbase = cellbase, tx_inputs_count = 1, tx_outputs_count = 1,
      tx_size = 0, tx_cycles = None, tx_dotbit_action = None, tx_input_outpoints = ins, tx_output_range = outs\<rparr>"

definition example_arena :: FactsArena where
  "example_arena =
     \<lparr>arena_blocks =
        [\<lparr>block_number = 0, block_hash = replicate 32 0, block_parent_hash = [], block_timestamp_ms = 0,
          block_chain_time_ms = 0, block_epoch_number = 0, block_epoch_index = 0, block_epoch_length = 1,
          block_dao = [], block_compact_target = 0, block_uncles_count = 0, block_proposals_count = 0,
          block_miner_lock_hash = None, block_transactions_count = 2, block_tx_range = (0, 2)\<rparr>],
      arena_txs = [example_tx [1] True [] (0, 1), example_tx [2] False [\<lparr>op_tx_hash = [1], op_index = 0\<rparr>] (1, 2)],
      arena_cells = [example_cell [1], example_cell [2]]\<rparr>"

lemmas example_run = resolve_inner_def validate_block_partition_def resolve_tx_def get_range_def
  resolve_request_output_ars_def is_request_def if_liveness_def retain_cell_identities_def release_input_identities_def
  cell_ids_def opt_list_def insert_created_def consume_def slot_from_cell_facts_def extras_from_cell_facts_def
  live_cell_summary_projection_def from_parts_def after_birth_def after_spend_def after_transition_def update_counter_def
  push_summary_def owner_summary_def snapshot_counter_def validate_summary_def live_cells_total_def
  into_resolved_input_facts_def retain_id_def release_id_def fits_i64_def Let_def

lemmas example_state = example_arena_def example_tx_def example_cell_def new_sequencer_def empty_owner_def zero_counter_def
  LIVE_CELL_SUMMARY_HISTORY_BLOCKS_def MAX_SHALLOW_REORG_DEPTH_def

theorem sequencer_implements_ledger_witness:
  "\<exists>q' resolved run. resolve_arena (\<lambda>_. 0) new_sequencer example_arena = Inr (q', resolved) \<and>
    ledger_run (arena_cells example_arena) (ledger_of (live_cells new_sequencer)) (arena_txs example_arena) = Some run \<and>
    map rt_resolved_inputs resolved = map snd run"
proof -
  have "is_ok (resolve_arena (\<lambda>_. 0) new_sequencer example_arena)"
    by (simp add: resolve_arena_def example_run example_state)
  then obtain q' resolved where run: "resolve_arena (\<lambda>_. 0) new_sequencer example_arena = Inr (q', resolved)"
    by (auto simp: is_ok_iff)
  have "owner_ok (\<lambda>_. 0) (live_cells new_sequencer)" "length (live_cell_summaries new_sequencer) \<le> LIVE_CELL_SUMMARY_HISTORY_BLOCKS"
    using owner_ok_empty by (simp_all add: new_sequencer_def)
  from sequencer_implements_ledger [OF this run] show ?thesis using run by blast
qed

text \<open>
  C9. Reference counting is exact across a batch, and reclamation is safe. If the bulk
  state is consistent (every count is the number of times live cells name the id, every id
  a live cell names is interned, nothing is queued) and the ids of the batch's cells are
  interned, then a batch whose resolution succeeds also passes draining and reclamation, the
  state is consistent again, and every id that a live cell names keeps the bytes it had: no
  identity is reclaimed while a live cell needs it.
\<close>

theorem batch_identities_safe:
  assumes ok: "bulk_ok heap q it l" and cells: "\<forall>i\<in>cells_ids (arena_cells arena). slot_at it i \<noteq> None"
    and views: "frozen_views it = 0" and run: "resolve_batch heap q it l arena = Inr (q', lv, resolved)"
  shows "\<exists>l1 it' l' stats. lv = Some l1 \<and> reclaim_batch it l1 = Inr (it', l', stats) \<and> bulk_ok heap q' it' l' \<and>
    (\<forall>i\<in>ledger_ids (ledger_of (live_cells q')). slot_at it' i = slot_at it i \<and> slot_at it' i \<noteq> None)"
proof -
  let ?U = "ledger_of (live_cells q)" and ?U' = "ledger_of (live_cells q')"
  let ?l = "ensure_slots l (length (slot_values it))"
  have l: "liveness_ok ?l" "refs_ok ?l ?U" "zero_candidates ?l = []"
    using ok by (simp_all add: bulk_ok_def liveness_ok_ensure_slots refs_ok_ensure_slots ensure_slots_candidates)
  have R: "owner_ok heap (live_cells q')" "length (live_cell_summaries q') \<le> LIVE_CELL_SUMMARY_HISTORY_BLOCKS"
      "counts_track (Some ?l) ?U lv ?U' (ledger_ids ?U \<union> cells_ids (arena_cells arena))"
      "ledger_ids ?U' \<subseteq> ledger_ids ?U \<union> cells_ids (arena_cells arena)"
    using resolve_inner_ok [of heap q arena "Some ?l" q' lv resolved] ok run length_recent
    by (auto simp: bulk_ok_def resolve_batch_def resolve_with_liveness_def)
  obtain ops l1 where l1: "lv = Some l1" "run_liveness ?l ops = Inr l1"
      "{i. Release i \<in> set ops} \<subseteq> ledger_ids ?U \<union> cells_ids (arena_cells arena)" "liveness_ok l1" "refs_ok l1 ?U'"
    using R(3) l by (auto simp: counts_track_def)
  obtain l2 where l2: "drain_zero_candidates l1 = Inr (l2, filter (\<lambda>i. live_refs l1 ! i = 0) (zero_candidates l1))"
      "liveness_ok l2" "zero_candidates l2 = []" "live_refs l2 = live_refs l1"
    using drain_ok [OF l1(4)] by blast
  define out where "out = filter (\<lambda>i. live_refs l1 ! i = 0) (zero_candidates l1)"
  have "set out \<subseteq> {i. Release i \<in> set ops}" and dist: "distinct out"
    using run_liveness_ok [OF l(1) l1(2)] l(3) l1(4) by (auto simp: out_def liveness_ok_def)
  then have act: "\<forall>i\<in>set out. slot_at it i \<noteq> None" using l1(3) ok cells unfolding bulk_ok_def by blast
  have live: "i \<notin> set out" if i: "i \<in> ledger_ids ?U'" for i
  proof -
    have "i < length (live_refs l1)" using l1(5) i by (force simp: refs_ok_def ledger_ids_def)
    then show ?thesis using ledger_sum_pos [OF owner_ok_finite [OF R(1)] i] l1(5) by (simp add: out_def refs_ok_def)
  qed
  obtain it' st where it': "reclaim_zero_ref_identities it out = (it', Inr st)" "interner_ok it'" "slot_at it' = slot_at it |` (- set out)"
    using reclaim_distinct [OF _ dist act views] ok by (auto simp: bulk_ok_def)
  have keep: "slot_at it' i = slot_at it i \<and> slot_at it' i \<noteq> None" if i: "i \<in> ledger_ids ?U'" for i
  proof -
    have "slot_at it i \<noteq> None" using R(4) i ok cells unfolding bulk_ok_def by blast
    then show ?thesis using live [OF i] by (simp add: it'(3))
  qed
  have "reclaim_batch it l1 = Inr (it', l2, st)"
    using l2(1) it'(1) by (simp add: reclaim_batch_def out_def)
  moreover have "refs_ok l2 ?U'" using l1(5) l2(4) by (simp add: refs_ok_def)
  then have "bulk_ok heap q' it' l2"
    using R(1,2) it'(2) l2(2,3) keep unfolding bulk_ok_def by blast
  ultimately show ?thesis using keep l1(1) by blast
qed

lemma ledger_new_sequencer: "ledger_of (live_cells new_sequencer) = Map.empty"
  by (simp add: new_sequencer_def empty_owner_def ledger_of_def fun_eq_iff)

lemma example_bulk_ok: "bulk_ok heap new_sequencer interner_example no_liveness"
proof -
  have "interner_ok interner_example" by (rule interner_reach_ok [OF interner_example_reachable interner_ok_empty])
  moreover have "owner_ok heap (live_cells new_sequencer)" by (simp add: new_sequencer_def owner_ok_empty)
  ultimately show ?thesis
    by (simp add: bulk_ok_def ledger_new_sequencer refs_ok_def ledger_ids_def) (simp add: new_sequencer_def no_liveness_def liveness_ok_def)
qed

theorem batch_identities_safe_witness:
  "\<exists>q' l1 resolved it' l' stats.
    resolve_batch (\<lambda>_. 0) new_sequencer interner_example no_liveness example_arena = Inr (q', Some l1, resolved) \<and>
    reclaim_batch interner_example l1 = Inr (it', l', stats) \<and> bulk_ok (\<lambda>_. 0) q' it' l'"
proof -
  have slots: "ensure_slots no_liveness (length (slot_values interner_example)) =
      \<lparr>live_refs = [0, 0], queued_for_reclaim = [False, False], zero_candidates = []\<rparr>"
    by (simp add: ensure_slots_def no_liveness_def interner_example_def)
  have "is_ok (resolve_batch (\<lambda>_. 0) new_sequencer interner_example no_liveness example_arena)"
    by (simp add: resolve_batch_def resolve_with_liveness_def slots example_run example_state)
  then obtain q' lv resolved where
    run: "resolve_batch (\<lambda>_. 0) new_sequencer interner_example no_liveness example_arena = Inr (q', lv, resolved)"
    by (auto simp: is_ok_iff)
  have ids: "\<forall>i\<in>cells_ids (arena_cells example_arena). slot_at interner_example i \<noteq> None" "frozen_views interner_example = 0"
    by (simp_all add: cells_ids_def cell_ids_def opt_list_def example_arena_def example_cell_def slot_at_def interner_example_def)
  from batch_identities_safe [OF example_bulk_ok ids run] run show ?thesis by blast
qed

end
