(* ===== verification/Day_Clock.thy ===== *)
theory Day_Clock
  imports Ordered_Map
begin

text \<open>
  What the two daily trackers of the indexer share (\<^verbatim>\<open>hodl_wave.rs\<close> and
  \<^verbatim>\<open>cell_distribution.rs\<close> under \<^verbatim>\<open>crates/indexer/src/db/writer/\<close>): the list of blocks at
  which the date changes, the search in it, the day of the last snapshot, and the blocks that
  drive them. The locale states what a tracker owes: it opens a block on its clock first, and
  each event changes its amounts by the inverse of what a rollback will be given. From that
  the amounts after a run of blocks follow once for both. A \<open>NaiveDate\<close> is its day number;
  chrono's \<^verbatim>\<open>%Y%m%d\<close> formatting and parsing are the parameters \<open>fmt\<close> and \<open>parse\<close>.
\<close>

section \<open>Blocks and their dates\<close>

type_synonym date = int

text \<open>\<open>partition_point\<close> on a slice whose matching elements come first.\<close>

definition partition_point :: "('a \<Rightarrow> bool) \<Rightarrow> 'a list \<Rightarrow> nat" where
  "partition_point P xs = length (takeWhile P xs)"

definition block_number_to_date :: "(int \<times> 'd) list \<Rightarrow> int \<Rightarrow> 'd option" where
  "block_number_to_date transitions block_number =
     (if transitions = [] then None
      else let idx = partition_point (\<lambda>(b, _). b \<le> block_number) transitions
           in if idx = 0 then Some (snd (transitions ! 0)) else Some (snd (transitions ! (idx - 1))))"

fun parse_transitions :: "string \<Rightarrow> (bytes \<Rightarrow> date option) \<Rightarrow> (int \<times> bytes) list \<Rightarrow> (int \<times> date) list res" where
  "parse_transitions err parse [] = Inr []"
| "parse_transitions err parse ((block, date_str) # rest) =
     rbind (ok_or (parse date_str) (Bail err)) (\<lambda>d.
     rbind (parse_transitions err parse rest) (\<lambda>ds. Inr ((block, d) # ds)))"

definition date_of :: "(int \<times> 'd) list \<Rightarrow> int \<Rightarrow> 'd" where
  "date_of tr b = the (block_number_to_date tr b)"

definition ascending :: "('a::linorder \<times> 'b::linorder) list \<Rightarrow> bool" where
  "ascending tr \<longleftrightarrow> sorted_wrt (\<lambda>x y. fst x < fst y \<and> snd x < snd y) tr"

lemma date_of_Some: "tr \<noteq> [] \<Longrightarrow> block_number_to_date tr b = Some (date_of tr b)"
  by (simp add: date_of_def block_number_to_date_def Let_def)

lemma ascending_last: "ascending tr \<Longrightarrow> x \<in> set tr \<Longrightarrow> fst x \<le> fst (last tr) \<and> snd x \<le> snd (last tr)"
  by (induction tr) (auto simp: ascending_def less_imp_le)

lemma ascending_snoc:
  "ascending (tr @ [x]) \<longleftrightarrow> ascending tr \<and> (\<forall>y\<in>set tr. fst y < fst x \<and> snd y < snd x)"
  by (simp add: ascending_def sorted_wrt_append)

lemma takeWhile_append_stop: "\<forall>y\<in>set ys. \<not> P y \<Longrightarrow> takeWhile P (xs @ ys) = takeWhile P xs"
  by (induction xs) (auto simp: takeWhile_eq_Nil_iff)

lemma partition_point_le: "partition_point P xs \<le> length xs"
  by (simp add: partition_point_def length_takeWhile_le)

lemma partition_point_less: "xs \<noteq> [] \<Longrightarrow> partition_point P xs - 1 < length xs"
  using partition_point_le [of P xs] by (cases xs) auto

lemma partition_point_map:
  "partition_point (\<lambda>(b, _). b \<le> n) (map (\<lambda>(b, d). (b, fmt d)) tr) = partition_point (\<lambda>(b, _). b \<le> n) tr"
  by (induction tr) (auto simp: partition_point_def)

lemma date_of_in: "tr \<noteq> [] \<Longrightarrow> date_of tr b \<in> snd ` set tr"
  using partition_point_less [of tr "\<lambda>(x, _). x \<le> b"]
  by (auto simp: date_of_def block_number_to_date_def Let_def intro!: imageI nth_mem)

text \<open>A later transition does not change the date of an earlier block.\<close>

lemma date_of_append:
  assumes xs: "xs \<noteq> []" and ys: "\<forall>y\<in>set ys. b < fst y"
  shows "date_of (xs @ ys) b = date_of xs b"
proof -
  have eq: "partition_point (\<lambda>(x, _). x \<le> b) (xs @ ys) = partition_point (\<lambda>(x, _). x \<le> b) xs"
    unfolding partition_point_def by (rule arg_cong [where f = length], rule takeWhile_append_stop) (use ys in auto)
  show ?thesis using xs partition_point_less [OF xs, of "\<lambda>(x, _). x \<le> b"]
    by (simp add: date_of_def block_number_to_date_def Let_def nth_append eq)
qed

lemma date_of_last:
  assumes ne: "tr \<noteq> []" and le: "\<forall>x\<in>set tr. fst x \<le> n"
  shows "date_of tr n = snd (last tr)"
proof -
  have eq: "takeWhile (\<lambda>(x, _). x \<le> n) tr = tr" using le unfolding takeWhile_eq_all_conv by auto
  show ?thesis
    using ne by (simp add: date_of_def block_number_to_date_def partition_point_def Let_def last_conv_nth eq
        del: takeWhile_eq_all_conv)
qed

section \<open>The clock of a tracker\<close>

record day_clock =
  clk_transitions :: "(int \<times> date) list"
  clk_snapshot :: "date option"
  clk_processed :: "int option"

definition clock_begin :: "day_clock \<Rightarrow> int \<Rightarrow> date \<Rightarrow> day_clock" where
  "clock_begin c n d =
     \<lparr>clk_transitions = (if clk_transitions c \<noteq> [] \<and> snd (last (clk_transitions c)) = d then clk_transitions c
        else clk_transitions c @ [(n, d)]),
      clk_snapshot = (case clk_snapshot c of Some e \<Rightarrow> if e < d then Some d else Some e | None \<Rightarrow> Some d),
      clk_processed = Some n\<rparr>"

definition clock_ok :: "date set \<Rightarrow> day_clock \<Rightarrow> bool" where
  "clock_ok D c \<longleftrightarrow> snd ` set (clk_transitions c) \<subseteq> D \<and> ascending (clk_transitions c) \<and>
     (case clk_processed c of
        None \<Rightarrow> clk_transitions c = [] \<and> clk_snapshot c = None
      | Some n \<Rightarrow> clk_transitions c \<noteq> [] \<and> fst (last (clk_transitions c)) \<le> n \<and>
          clk_snapshot c = Some (snd (last (clk_transitions c))))"

definition new_clock :: day_clock where
  "new_clock = \<lparr>clk_transitions = [], clk_snapshot = None, clk_processed = None\<rparr>"

definition may_follow :: "day_clock \<Rightarrow> int \<Rightarrow> date \<Rightarrow> bool" where
  "may_follow c n d \<longleftrightarrow> (case clk_processed c of None \<Rightarrow> True | Some m \<Rightarrow> m < n) \<and>
     (case clk_snapshot c of None \<Rightarrow> True | Some e \<Rightarrow> e \<le> d)"

lemma clock_ok_new [simp]: "clock_ok D new_clock"
  by (simp add: clock_ok_def new_clock_def ascending_def)

lemma clock_begin_ok:
  assumes ok: "clock_ok D c" and d: "d \<in> D" and f: "may_follow c n d"
  shows "clock_ok D (clock_begin c n d) \<and> clk_snapshot (clock_begin c n d) = Some d \<and>
    (\<exists>ys. clk_transitions (clock_begin c n d) = clk_transitions c @ ys \<and> (\<forall>y\<in>set ys. fst y = n))"
proof (cases "clk_processed c")
  case None
  then show ?thesis using ok d by (auto simp: clock_ok_def clock_begin_def ascending_def)
next
  case (Some m)
  let ?tr = "clk_transitions c"
  have l: "?tr \<noteq> []" "fst (last ?tr) < n" "clk_snapshot c = Some (snd (last ?tr))" "snd (last ?tr) \<le> d" "ascending ?tr"
    "snd ` set ?tr \<subseteq> D"
    using ok f Some by (auto simp: clock_ok_def may_follow_def)
  show ?thesis
  proof (cases "snd (last ?tr) = d")
    case True
    then show ?thesis using l by (auto simp: clock_ok_def clock_begin_def)
  next
    case False
    then have lt: "snd (last ?tr) < d" using l(4) by simp
    then have "ascending (?tr @ [(n, d)])" using ascending_last [OF l(5)] l(2,5) by (force simp: ascending_snoc)
    then show ?thesis using l lt d by (auto simp: clock_ok_def clock_begin_def)
  qed
qed

lemma clock_begin_processed: "clk_processed (clock_begin c n d) = Some n"
  by (simp add: clock_begin_def)

lemma date_of_current:
  "clock_ok D c \<Longrightarrow> clk_processed c = Some n \<Longrightarrow> clk_snapshot c = Some d \<Longrightarrow> date_of (clk_transitions c) n = d"
  using ascending_last [of "clk_transitions c"] date_of_last [of "clk_transitions c" n]
  by (fastforce simp: clock_ok_def)

section \<open>A run of blocks\<close>

text \<open>
  A block as a tracker sees it: its number, its date and the events the sync applies between
  opening it and opening the next one.
\<close>

record 'e day_block =
  db_number :: int
  db_date :: date
  db_events :: "'e list"

fun apply_events :: "(date \<Rightarrow> 'e \<Rightarrow> 't \<Rightarrow> 't res) \<Rightarrow> date \<Rightarrow> 'e list \<Rightarrow> 't \<Rightarrow> 't res" where
  "apply_events step d [] t = Inr t"
| "apply_events step d (e # es) t = rbind (step d e t) (apply_events step d es)"

fun run_days :: "('t \<Rightarrow> int \<Rightarrow> date \<Rightarrow> 't) \<Rightarrow> (date \<Rightarrow> 'e \<Rightarrow> 't \<Rightarrow> 't res) \<Rightarrow> 't \<Rightarrow> 'e day_block list \<Rightarrow> 't res" where
  "run_days open_block step t [] = Inr t"
| "run_days open_block step t (b # bs) =
     rbind (apply_events step (db_date b) (db_events b) (open_block t (db_number b) (db_date b))) (\<lambda>t'.
     run_days open_block step t' bs)"

text \<open>
  Blocks of a chain: ascending numbers, and dates that do not go back, since they come from the
  running maximum of the timestamps.
\<close>

definition day_chain :: "(int \<Rightarrow> 'e \<Rightarrow> bool) \<Rightarrow> 'e day_block list \<Rightarrow> bool" where
  "day_chain ok bs \<longleftrightarrow> sorted_wrt (\<lambda>a b. db_number a < db_number b \<and> db_date a \<le> db_date b) bs \<and>
     (\<forall>b\<in>set bs. 0 \<le> db_number b \<and> list_all (ok (db_number b)) (db_events b))"

definition follows :: "(int \<Rightarrow> 'e \<Rightarrow> bool) \<Rightarrow> date set \<Rightarrow> day_clock \<Rightarrow> 'e day_block list \<Rightarrow> bool" where
  "follows ok D c bs \<longleftrightarrow> day_chain ok bs \<and> (\<forall>b\<in>set bs. db_date b \<in> D \<and> may_follow c (db_number b) (db_date b))"

lemma follows_new: "day_chain ok bs \<Longrightarrow> db_date ` set bs \<subseteq> D \<Longrightarrow> follows ok D new_clock bs"
  by (auto simp: follows_def new_clock_def may_follow_def)

lemma follows_prefix: "follows ok D c (bs @ cs) \<Longrightarrow> follows ok D c bs"
  by (auto simp: follows_def day_chain_def sorted_wrt_append)

text \<open>Signed amounts by key.\<close>

definition net :: "('k \<times> int) list \<Rightarrow> 'k \<Rightarrow> int" where
  "net ds k = (\<Sum>(k', a)\<leftarrow>ds. if k' = k then a else 0)"

lemma net_simps [simp]: "net [] k = 0" "net ((k', a) # ds) k = (if k' = k then a else 0) + net ds k"
  "net (ds @ es) k = net ds k + net es k"
  by (simp_all add: net_def)

lemma net_rekey: "finite B \<Longrightarrow> fst ` set ds \<subseteq> B \<Longrightarrow>
  net (map (\<lambda>(b, a). (f b, a)) ds) x = (\<Sum>b\<in>B. if f b = x then net ds b else 0)"
proof (induction ds)
  case Nil
  then show ?case by (simp cong: if_cong)
next
  case (Cons p ds)
  obtain b a where p: "p = (b, a)" by (cases p)
  have "(\<Sum>c\<in>B. if f c = x then net (p # ds) c else 0) =
      (\<Sum>c\<in>B. (if c = b then (if f b = x then a else 0) else 0) + (if f c = x then net ds c else 0))"
    by (intro sum.cong) (auto simp: p)
  also have "\<dots> = (if f b = x then a else 0) + net (map (\<lambda>(b, a). (f b, a)) ds) x"
    using Cons.IH Cons.prems unfolding sum.distrib by (simp add: p)
  finally show ?case by (simp add: p)
qed

text \<open>Only the net amount per key matters when keys are merged.\<close>

lemma net_rekey_cong:
  assumes "\<And>b. net ds b = net es b"
  shows "net (map (\<lambda>(b, a). (f b, a)) ds) x = net (map (\<lambda>(b, a). (f b, a)) es) x"
  using net_rekey [of "fst ` set ds \<union> fst ` set es" ds f x] net_rekey [of "fst ` set ds \<union> fst ` set es" es f x] assms
  by (simp cong: if_cong)

lemma net_sum:
  assumes "finite D" "fst ` set ds \<subseteq> D"
  shows "(\<Sum>k\<in>D. if Q k then net ds k else 0) = (\<Sum>(k, a)\<leftarrow>ds. if Q k then a else 0)"
  using assms(2)
proof (induction ds)
  case Nil
  then show ?case by (simp cong: if_cong)
next
  case (Cons p ds)
  obtain b a where p: "p = (b, a)" by (cases p)
  have "(\<Sum>d\<in>D. if Q d then net (p # ds) d else 0) =
      (\<Sum>d\<in>D. (if d = b then (if Q b then a else 0) else 0) + (if Q d then net ds d else 0))"
    by (intro sum.cong) (auto simp: p)
  also have "\<dots> = (if Q b then a else 0) + (\<Sum>d\<in>D. if Q d then net ds d else 0)"
    using assms(1) Cons.prems unfolding sum.distrib by (simp add: p)
  finally show ?case using Cons by (simp add: p)
qed

text \<open>
  The inverse of the events of some blocks, given the date of each block: what a rollback of
  these blocks adds to each amount.
\<close>

definition undos :: "((int \<Rightarrow> date) \<Rightarrow> int \<Rightarrow> 'e \<Rightarrow> ('k \<times> int) list) \<Rightarrow> (int \<Rightarrow> date) \<Rightarrow> 'e day_block list \<Rightarrow> ('k \<times> int) list" where
  "undos undo f bs = concat (map (\<lambda>b. concat (map (undo f (db_number b)) (db_events b))) bs)"

lemma undos_simps [simp]: "undos undo f [] = []"
  "undos undo f (b # bs) = concat (map (undo f (db_number b)) (db_events b)) @ undos undo f bs"
  by (simp_all add: undos_def)

locale day_tracker =
  fixes clock :: "'t \<Rightarrow> day_clock"
    and open_block :: "'t \<Rightarrow> int \<Rightarrow> date \<Rightarrow> 't"
    and step :: "date \<Rightarrow> 'e \<Rightarrow> 't \<Rightarrow> 't res"
    and ok :: "int \<Rightarrow> 'e \<Rightarrow> bool"
    and inv :: "date set \<Rightarrow> 't \<Rightarrow> bool"
    and amount :: "'t \<Rightarrow> 'k \<Rightarrow> int"
    and undo :: "(int \<Rightarrow> date) \<Rightarrow> int \<Rightarrow> 'e \<Rightarrow> ('k \<times> int) list"
  assumes open_clock: "clock (open_block t n d) = clock_begin (clock t) n d"
    and open_inv: "inv D t \<Longrightarrow> clock_ok D (clock t) \<Longrightarrow> d \<in> D \<Longrightarrow> may_follow (clock t) n d \<Longrightarrow> inv D (open_block t n d)"
    and open_amount: "amount (open_block t n d) k = amount t k"
    and step_law: "step d e t = Inr t' \<Longrightarrow> ok n e \<Longrightarrow> inv D t \<Longrightarrow> clock_ok D (clock t) \<Longrightarrow>
      clk_processed (clock t) = Some n \<Longrightarrow> clk_snapshot (clock t) = Some d \<Longrightarrow>
      clock t' = clock t \<and> inv D t' \<and> (\<forall>k. amount t' k = amount t k - net (undo (date_of (clk_transitions (clock t))) n e) k)"
    and undo_cong: "ok n e \<Longrightarrow> (\<And>b. b \<le> n \<Longrightarrow> f b = g b) \<Longrightarrow> undo f n e = undo g n e"
begin

lemma events_law:
  "apply_events step d es t = Inr t' \<Longrightarrow> list_all (ok n) es \<Longrightarrow> inv D t \<Longrightarrow> clock_ok D (clock t) \<Longrightarrow>
   clk_processed (clock t) = Some n \<Longrightarrow> clk_snapshot (clock t) = Some d \<Longrightarrow>
   clock t' = clock t \<and> inv D t' \<and>
   (\<forall>k. amount t' k = amount t k - net (concat (map (undo (date_of (clk_transitions (clock t))) n) es)) k)"
proof (induction es arbitrary: t)
  case Nil
  then show ?case by simp
next
  case (Cons e es)
  from Cons.prems(1) obtain u where u: "step d e t = Inr u" "apply_events step d es u = Inr t'"
    by (auto simp: res_simps)
  have st: "clock u = clock t" "inv D u"
    "\<And>k. amount u k = amount t k - net (undo (date_of (clk_transitions (clock t))) n e) k"
    using step_law [OF u(1) _ Cons.prems(3-6)] Cons.prems(2) by auto
  show ?case using Cons.IH [OF u(2)] Cons.prems st by simp
qed

lemma block_law:
  assumes i: "inv D t" and c: "clock_ok D (clock t)" and f: "follows ok D (clock t) (b # bs)"
    and r: "apply_events step (db_date b) (db_events b) (open_block t (db_number b) (db_date b)) = Inr t'"
  shows "inv D t' \<and> clock t' = clock_begin (clock t) (db_number b) (db_date b) \<and> clock_ok D (clock t') \<and>
    follows ok D (clock t') bs \<and> clk_processed (clock t') = Some (db_number b) \<and> clk_snapshot (clock t') = Some (db_date b) \<and>
    (\<forall>k. amount t' k = amount t k -
       net (concat (map (undo (date_of (clk_transitions (clock t'))) (db_number b)) (db_events b))) k)"
proof -
  let ?u = "open_block t (db_number b) (db_date b)"
  have fb: "db_date b \<in> D" "may_follow (clock t) (db_number b) (db_date b)" "list_all (ok (db_number b)) (db_events b)"
    using f by (auto simp: follows_def day_chain_def)
  have u: "clock_ok D (clock ?u)" "inv D ?u" "clk_processed (clock ?u) = Some (db_number b)" "clk_snapshot (clock ?u) = Some (db_date b)"
    using clock_begin_ok [OF c fb(1,2)] open_inv [OF i c fb(1,2)] by (simp_all add: open_clock clock_begin_processed)
  note ev = events_law [OF r fb(3) u(2,1,3,4)]
  have "follows ok D (clock t') bs"
    using f ev u(3,4) by (auto simp: follows_def day_chain_def may_follow_def)
  then show ?thesis using ev u by (simp add: open_clock open_amount)
qed

lemma undos_block_cong:
  assumes "list_all (ok n) es" "\<And>b. b \<le> n \<Longrightarrow> f b = g b"
  shows "concat (map (undo f n) es) = concat (map (undo g n) es)"
proof -
  have "map (undo f n) es = map (undo g n) es"
    using assms by (intro map_cong refl undo_cong) (auto simp: list_all_iff)
  then show ?thesis by (rule arg_cong)
qed

text \<open>
  The amounts after a run are those before it minus the inverses of its events, where a block
  named by an event has the date the final clock gives it.
\<close>

lemma run_law:
  "run_days open_block step t bs = Inr t' \<Longrightarrow> inv D t \<Longrightarrow> clock_ok D (clock t) \<Longrightarrow> follows ok D (clock t) bs \<Longrightarrow>
   inv D t' \<and> clock_ok D (clock t') \<and>
   (bs \<noteq> [] \<longrightarrow> clk_processed (clock t') = Some (db_number (last bs)) \<and> clk_snapshot (clock t') = Some (db_date (last bs))) \<and>
   (\<exists>ys. clk_transitions (clock t') = clk_transitions (clock t) @ ys \<and> (\<forall>y\<in>set ys. \<exists>b\<in>set bs. fst y = db_number b)) \<and>
   (\<forall>b\<in>set bs. date_of (clk_transitions (clock t')) (db_number b) = db_date b) \<and>
   (\<forall>k. amount t' k = amount t k - net (undos undo (date_of (clk_transitions (clock t'))) bs) k)"
proof (induction bs arbitrary: t)
  case Nil
  then show ?case by simp
next
  case (Cons b bs)
  from Cons.prems(1) obtain u where
    u: "apply_events step (db_date b) (db_events b) (open_block t (db_number b) (db_date b)) = Inr u"
    and rest: "run_days open_block step u bs = Inr t'"
    by (auto simp: res_simps)
  let ?tr = "clk_transitions (clock t)" let ?tru = "clk_transitions (clock u)" let ?tr' = "clk_transitions (clock t')"
  note blk = block_law [OF Cons.prems(2-4) u]
  then have c: "inv D u" "clock_ok D (clock u)" "follows ok D (clock u) bs"
    "clk_processed (clock u) = Some (db_number b)" "clk_snapshot (clock u) = Some (db_date b)" by blast+
  note ih = Cons.IH [OF rest c(1-3)]
  have fb: "db_date b \<in> D" "may_follow (clock t) (db_number b) (db_date b)" "list_all (ok (db_number b)) (db_events b)"
    "\<forall>c\<in>set bs. db_number b < db_number c"
    using Cons.prems(4) by (auto simp: follows_def day_chain_def)
  obtain zs where zs: "?tru = ?tr @ zs" "\<forall>y\<in>set zs. fst y = db_number b"
    using clock_begin_ok [OF Cons.prems(3) fb(1,2)] blk by auto
  obtain ys where ys: "?tr' = ?tru @ ys" "\<forall>y\<in>set ys. \<exists>b\<in>set bs. fst y = db_number b"
    using ih by blast
  have "?tru \<noteq> []" using blk by (auto simp: clock_ok_def)
  then have old: "date_of ?tr' m = date_of ?tru m" if "m \<le> db_number b" for m
    unfolding ys(1) using date_of_append [of ?tru ys m] ys(2) fb(4) that by force
  have am: "amount t' k = amount t k - net (undos undo (date_of ?tr') (b # bs)) k" for k
    using ih blk undos_block_cong [OF fb(3), of "date_of ?tr'" "date_of ?tru"] old by simp
  have "?tr' = ?tr @ (zs @ ys) \<and> (\<forall>y\<in>set (zs @ ys). \<exists>c\<in>set (b # bs). fst y = db_number c)"
    using ys zs by auto
  moreover have "date_of ?tr' (db_number b) = db_date b"
    using old [of "db_number b"] date_of_current [OF c(2,4,5)] by simp
  then have "\<forall>c\<in>set (b # bs). date_of ?tr' (db_number c) = db_date c" using ih by simp
  moreover have "clk_processed (clock t') = Some (db_number (last (b # bs))) \<and> clk_snapshot (clock t') = Some (db_date (last (b # bs)))"
  proof (cases "bs = []")
    case True
    then show ?thesis using rest c(4,5) by simp
  next
    case False
    then show ?thesis using ih by simp
  qed
  ultimately show ?case using conjunct1 [OF ih] conjunct1 [OF conjunct2 [OF ih]] am by blast
qed

lemma follows_split:
  "follows ok D (clock t) (bs @ cs) \<Longrightarrow> inv D t \<Longrightarrow> clock_ok D (clock t) \<Longrightarrow>
   run_days open_block step t bs = Inr u \<Longrightarrow> follows ok D (clock u) cs"
proof (induction bs arbitrary: t)
  case Nil
  then show ?case by simp
next
  case (Cons b bs)
  from Cons.prems(4) obtain v where
    v: "apply_events step (db_date b) (db_events b) (open_block t (db_number b) (db_date b)) = Inr v"
    and rest: "run_days open_block step v bs = Inr u"
    by (auto simp: res_simps)
  have "inv D v \<and> clock_ok D (clock v) \<and> follows ok D (clock v) (bs @ cs)"
    using block_law [OF Cons.prems(2,3) Cons.prems(1) [unfolded append_Cons] v] by blast
  then show ?case using Cons.IH rest by blast
qed

end

section \<open>The stored form\<close>

text \<open>
  What is used of chrono's \<^verbatim>\<open>%Y%m%d\<close>: a supported day reads back, and the text of an earlier
  day is smaller.
\<close>

definition day_format :: "(date \<Rightarrow> bytes) \<Rightarrow> (bytes \<Rightarrow> date option) \<Rightarrow> date set \<Rightarrow> bool" where
  "day_format fmt parse D \<longleftrightarrow> (\<forall>d\<in>D. parse (fmt d) = Some d \<and> (\<forall>e\<in>D. d < e \<longrightarrow> fmt d < fmt e))"

lemma day_less: "day_format fmt parse D \<Longrightarrow> d \<in> D \<Longrightarrow> e \<in> D \<Longrightarrow> fmt d < fmt e \<longleftrightarrow> d < e"
  unfolding day_format_def by (metis less_asym neqE order_less_irrefl)

lemma day_le: "day_format fmt parse D \<Longrightarrow> d \<in> D \<Longrightarrow> e \<in> D \<Longrightarrow> fmt d \<le> fmt e \<longleftrightarrow> d \<le> e"
  using day_less [of fmt parse D e d] by (simp add: linorder_not_less [symmetric])

lemma day_eq: "day_format fmt parse D \<Longrightarrow> d \<in> D \<Longrightarrow> e \<in> D \<Longrightarrow> fmt d = fmt e \<longleftrightarrow> d = e"
  unfolding day_format_def by (metis option.inject)

lemma parse_transitions_fmt:
  "day_format fmt parse D \<Longrightarrow> snd ` set xs \<subseteq> D \<Longrightarrow> parse_transitions err parse (map (\<lambda>(b, d). (b, fmt d)) xs) = Inr xs"
  by (induction xs) (auto simp: day_format_def res_simps)

lemma last_fmt: "tr \<noteq> [] \<Longrightarrow> snd (last (map (\<lambda>(b, d). (b, fmt d)) tr)) = fmt (snd (last tr))"
  by (simp add: last_map case_prod_beta)

text \<open>The clock part of both repairs: the transitions up to the fork, the two cursors clamped.\<close>

definition clamp_date :: "bytes option \<Rightarrow> bytes \<Rightarrow> bytes option" where
  "clamp_date snap hi = (case snap of None \<Rightarrow> None | Some s \<Rightarrow> if hi < s then Some hi else Some s)"

definition clamp_block :: "int option \<Rightarrow> int \<Rightarrow> int option" where
  "clamp_block blk n = (case blk of None \<Rightarrow> None | Some b \<Rightarrow> if n < b then Some n else Some b)"

lemma clock_truncated:
  assumes day: "day_format fmt parse D" and c1: "clock_ok D c1" and c2: "clock_ok D c2"
    and n: "clk_processed c1 = Some n"
    and tr: "clk_transitions c2 = clk_transitions c1 @ ys" "\<forall>y\<in>set ys. n < fst y"
    and p: "clk_processed c2 = Some m" "n \<le> m"
  shows "filter (\<lambda>(b, _). b \<le> n) (map (\<lambda>(b, d). (b, fmt d)) (clk_transitions c2)) = map (\<lambda>(b, d). (b, fmt d)) (clk_transitions c1) \<and>
    clk_transitions c1 \<noteq> [] \<and>
    clamp_date (map_option fmt (clk_snapshot c2)) (fmt (snd (last (clk_transitions c1)))) = map_option fmt (clk_snapshot c1) \<and>
    clamp_block (clk_processed c2) n = clk_processed c1"
proof -
  let ?tr1 = "clk_transitions c1" let ?tr2 = "clk_transitions c2"
  have l1: "?tr1 \<noteq> []" "fst (last ?tr1) \<le> n" "clk_snapshot c1 = Some (snd (last ?tr1))" "ascending ?tr1" "snd ` set ?tr1 \<subseteq> D"
    using c1 n by (auto simp: clock_ok_def)
  have l2: "?tr2 \<noteq> []" "clk_snapshot c2 = Some (snd (last ?tr2))" "ascending ?tr2" "snd ` set ?tr2 \<subseteq> D"
    using c2 p by (auto simp: clock_ok_def)
  have "filter (\<lambda>x. fst x \<le> n) ?tr1 = ?tr1" "filter (\<lambda>x. fst x \<le> n) ys = []"
    using ascending_last [OF l1(4)] l1(2) tr(2) by (fastforce simp: filter_id_conv filter_empty_conv)+
  then have f: "filter (\<lambda>(b, _). b \<le> n) (map (\<lambda>(b, d). (b, fmt d)) ?tr2) = map (\<lambda>(b, d). (b, fmt d)) ?tr1"
    using tr(1) by (simp add: filter_map o_def case_prod_beta)
  have le: "snd (last ?tr1) \<le> snd (last ?tr2)" using ascending_last [OF l2(3), of "last ?tr1"] tr(1) l1(1) by simp
  have "snd (last ?tr1) \<in> D" "snd (last ?tr2) \<in> D"
    using last_in_set [OF l1(1)] last_in_set [OF l2(1)] l1(5) l2(4) by blast+
  then have "clamp_date (Some (fmt (snd (last ?tr2)))) (fmt (snd (last ?tr1))) = Some (fmt (snd (last ?tr1)))"
    using le day_less [OF day] by (cases "snd (last ?tr1) = snd (last ?tr2)") (auto simp: clamp_date_def)
  then show ?thesis using f l1 l2 n p by (simp add: clamp_block_def)
qed

context day_tracker
begin

text \<open>Truncating the stored clock after more blocks gives the stored clock before them.\<close>

lemma run_truncated:
  assumes day: "day_format fmt parse D" and r: "run_days open_block step t1 cs = Inr t2"
    and i: "inv D t1" and c: "clock_ok D (clock t1)" and f: "follows ok D (clock t1) cs" and n: "clk_processed (clock t1) = Some n"
  shows "filter (\<lambda>(b, _). b \<le> n) (map (\<lambda>(b, d). (b, fmt d)) (clk_transitions (clock t2))) =
      map (\<lambda>(b, d). (b, fmt d)) (clk_transitions (clock t1)) \<and> clk_transitions (clock t1) \<noteq> [] \<and>
    clamp_date (map_option fmt (clk_snapshot (clock t2))) (fmt (snd (last (clk_transitions (clock t1))))) =
      map_option fmt (clk_snapshot (clock t1)) \<and>
    clamp_block (clk_processed (clock t2)) n = clk_processed (clock t1)"
proof -
  note run = run_law [OF r i c f]
  then have c2: "clock_ok D (clock t2)" by blast
  obtain ys where ys: "clk_transitions (clock t2) = clk_transitions (clock t1) @ ys" "\<forall>y\<in>set ys. \<exists>b\<in>set cs. fst y = db_number b"
    using run by blast
  have later: "\<forall>b\<in>set cs. n < db_number b" using f n by (auto simp: follows_def may_follow_def)
  have "\<exists>m\<ge>n. clk_processed (clock t2) = Some m"
  proof (cases "cs = []")
    case True
    then show ?thesis using r n by simp
  next
    case False
    then show ?thesis using run later last_in_set [OF False] by (auto intro: less_imp_le)
  qed
  then obtain m where m: "clk_processed (clock t2) = Some m" "n \<le> m" by blast
  show ?thesis by (rule clock_truncated [OF day c c2 n ys(1) _ m]) (use ys(2) later in auto)
qed

end

text \<open>A day format for examples: a day written in unary.\<close>

definition unary_day :: "date \<Rightarrow> bytes" where
  "unary_day d = replicate (nat d) 1"

definition parse_unary_day :: "bytes \<Rightarrow> date option" where
  "parse_unary_day s = Some (int (length s))"

lemma replicate_less: "m < n \<Longrightarrow> replicate m x < replicate n (x::'a::linorder)"
proof (induction m arbitrary: n)
  case 0
  then show ?case by (cases n) (auto simp: list_less_def lexord_def)
next
  case (Suc m)
  then show ?case by (cases n) (auto)
qed

lemma unary_day_format: "\<forall>d\<in>D. 0 \<le> d \<Longrightarrow> day_format unary_day parse_unary_day D"
  by (auto simp: day_format_def unary_day_def parse_unary_day_def intro!: replicate_less)

end
