(* ===== verification/Hodl.thy ===== *)
theory Hodl
  imports Day_Clock
begin

text \<open>
  The HODL wave tracker: \<^verbatim>\<open>crates/indexer/src/db/writer/hodl_wave.rs\<close>,
  \<open>begin_hodl_wave_block\<close> of \<^verbatim>\<open>crates/indexer/src/sync/reorg.rs\<close> and the repair of its stored
  state in \<open>truncate_hodl_tracker_state_for_rollback\<close> of
  \<^verbatim>\<open>crates/ckbadger-store/src/reorg_ops.rs\<close>. Stored dates are strings, compared as bytes. A
  hash map is kept in key order; the source writes the entries of \<open>capacity_by_date\<close> in the
  arbitrary order of its hash map, so a stored state here is one representative of those that
  differ only in that order, which no reader depends on. Amounts are
  integers: a sum of 64-bit capacities stays far within 128 bits, and a count of holders
  within 64.
\<close>

section \<open>The tracker\<close>

record HodlWaveTracker =
  capacity_by_creation_date :: "(date, int) omap"
  block_date_transitions :: "(int \<times> date) list"
  holder_count :: int
  last_snapshot_date :: "date option"
  last_processed_block :: "int option"

record HodlTrackerState =
  capacity_by_date :: "(bytes \<times> int) list"
  date_transitions :: "(int \<times> bytes) list"
  state_holder_count :: int
  state_last_snapshot_date :: "bytes option"
  state_last_processed_block :: "int option"

record DailyHodlWave =
  band_24h :: int
  band_1d_1w :: int
  band_1w_1m :: int
  band_1m_3m :: int
  band_3m_6m :: int
  band_6m_1y :: int
  band_1y_3y :: int
  band_gt_3y :: int
  wave_holder_count :: int

definition new_hodl_tracker :: HodlWaveTracker where
  "new_hodl_tracker = \<lparr>capacity_by_creation_date = [], block_date_transitions = [], holder_count = 0,
     last_snapshot_date = None, last_processed_block = None\<rparr>"

fun parse_capacities :: "(bytes \<Rightarrow> date option) \<Rightarrow> (bytes \<times> int) list \<Rightarrow> (date, int) omap \<Rightarrow> (date, int) omap res" where
  "parse_capacities parse [] m = Inr m"
| "parse_capacities parse ((date_str, cap) # rest) m =
     rbind (ok_or (parse date_str) (Bail ''corrupt hodl capacity_by_date entry'')) (\<lambda>d.
     parse_capacities parse rest (om_put d cap m))"

definition hodl_from_state :: "(bytes \<Rightarrow> date option) \<Rightarrow> HodlTrackerState \<Rightarrow> HodlWaveTracker res" where
  "hodl_from_state parse state =
     rbind (ensure (\<not> state_holder_count state < 0) (Bail ''invalid hodl tracker state: negative holder_count'')) (\<lambda>_.
     rbind (parse_capacities parse (capacity_by_date state) []) (\<lambda>caps.
     rbind (parse_transitions ''corrupt hodl date_transitions entry'' parse (date_transitions state)) (\<lambda>transitions.
     rbind (case state_last_snapshot_date state of
              None \<Rightarrow> Inr None
            | Some s \<Rightarrow> rbind (ok_or (parse s) (Bail ''corrupt hodl last_snapshot_date'')) (\<lambda>d. Inr (Some d))) (\<lambda>last_date.
     Inr \<lparr>capacity_by_creation_date = caps, block_date_transitions = transitions,
          holder_count = state_holder_count state, last_snapshot_date = last_date,
          last_processed_block = state_last_processed_block state\<rparr>))))"

definition hodl_to_state :: "(date \<Rightarrow> bytes) \<Rightarrow> HodlWaveTracker \<Rightarrow> HodlTrackerState" where
  "hodl_to_state fmt t =
     \<lparr>capacity_by_date = map (\<lambda>(d, c). (fmt d, c)) (capacity_by_creation_date t),
      date_transitions = map (\<lambda>(b, d). (b, fmt d)) (block_date_transitions t),
      state_holder_count = holder_count t,
      state_last_snapshot_date = map_option fmt (last_snapshot_date t),
      state_last_processed_block = last_processed_block t\<rparr>"

definition record_block_date :: "HodlWaveTracker \<Rightarrow> int \<Rightarrow> date \<Rightarrow> HodlWaveTracker" where
  "record_block_date t block_number d =
     (let t1 = t\<lparr>last_processed_block := Some block_number\<rparr>
      in if block_date_transitions t1 \<noteq> [] \<and> snd (last (block_date_transitions t1)) = d then t1
         else t1\<lparr>block_date_transitions := block_date_transitions t1 @ [(block_number, d)]\<rparr>)"

definition hodl_cell_created :: "HodlWaveTracker \<Rightarrow> date \<Rightarrow> int \<Rightarrow> HodlWaveTracker" where
  "hodl_cell_created t block_date cap =
     t\<lparr>capacity_by_creation_date :=
         om_put block_date ((case om_get (capacity_by_creation_date t) block_date of None \<Rightarrow> 0 | Some c \<Rightarrow> c) + cap)
           (capacity_by_creation_date t)\<rparr>"

definition hodl_cell_consumed :: "HodlWaveTracker \<Rightarrow> int \<Rightarrow> int \<Rightarrow> HodlWaveTracker res" where
  "hodl_cell_consumed t created_at cap =
     rbind (ensure (\<not> cap \<le> 0) (Bail ''invalid consumed cell capacity'')) (\<lambda>_.
     rbind (ok_or (block_number_to_date (block_date_transitions t) created_at)
              (Bail ''missing block-date transition for consumed cell'')) (\<lambda>creation_date.
     rbind (ok_or (om_get (capacity_by_creation_date t) creation_date)
              (Bail ''missing live capacity bucket for consumed cell'')) (\<lambda>current.
     rbind (ok_or (checked fits_i128 (current - cap)) (Bail ''capacity subtraction overflow'')) (\<lambda>remaining.
     rbind (ensure (\<not> remaining < 0) (Bail ''live capacity underflow on consume'')) (\<lambda>_.
     Inr (t\<lparr>capacity_by_creation_date :=
              (if remaining = 0 then om_del creation_date (capacity_by_creation_date t)
               else om_put creation_date remaining (capacity_by_creation_date t))\<rparr>))))))"

definition update_holder_count :: "HodlWaveTracker \<Rightarrow> int \<Rightarrow> int \<Rightarrow> HodlWaveTracker res" where
  "update_holder_count t old_live_cells new_live_cells =
     (if old_live_cells = 0 \<and> 0 < new_live_cells then
        rbind (ok_or (checked fits_i64 (holder_count t + 1)) (Bail ''holder_count overflow'')) (\<lambda>n.
        Inr (t\<lparr>holder_count := n\<rparr>))
      else if 0 < old_live_cells \<and> new_live_cells = 0 then
        rbind (ensure (\<not> holder_count t \<le> 0) (Bail ''holder_count underflow'')) (\<lambda>_.
        Inr (t\<lparr>holder_count := holder_count t - 1\<rparr>))
      else Inr t)"

definition add_band :: "date \<Rightarrow> date \<times> int \<Rightarrow> DailyHodlWave \<Rightarrow> DailyHodlWave" where
  "add_band snapshot_date dc wave =
     (case dc of (creation_date, cap) \<Rightarrow>
        if cap \<le> 0 then wave
        else let age_days = snapshot_date - creation_date
          in if age_days = 0 then wave\<lparr>band_24h := band_24h wave + cap\<rparr>
             else if 1 \<le> age_days \<and> age_days \<le> 6 then wave\<lparr>band_1d_1w := band_1d_1w wave + cap\<rparr>
             else if 7 \<le> age_days \<and> age_days \<le> 29 then wave\<lparr>band_1w_1m := band_1w_1m wave + cap\<rparr>
             else if 30 \<le> age_days \<and> age_days \<le> 89 then wave\<lparr>band_1m_3m := band_1m_3m wave + cap\<rparr>
             else if 90 \<le> age_days \<and> age_days \<le> 179 then wave\<lparr>band_3m_6m := band_3m_6m wave + cap\<rparr>
             else if 180 \<le> age_days \<and> age_days \<le> 364 then wave\<lparr>band_6m_1y := band_6m_1y wave + cap\<rparr>
             else if 365 \<le> age_days \<and> age_days \<le> 1094 then wave\<lparr>band_1y_3y := band_1y_3y wave + cap\<rparr>
             else wave\<lparr>band_gt_3y := band_gt_3y wave + cap\<rparr>)"

definition compute_hodl_snapshot :: "HodlWaveTracker \<Rightarrow> date \<Rightarrow> DailyHodlWave" where
  "compute_hodl_snapshot t snapshot_date =
     fold (add_band snapshot_date) (capacity_by_creation_date t)
       \<lparr>band_24h = 0, band_1d_1w = 0, band_1w_1m = 0, band_1m_3m = 0, band_3m_6m = 0, band_6m_1y = 0,
        band_1y_3y = 0, band_gt_3y = 0, wave_holder_count = holder_count t\<rparr>"

definition maybe_hodl_snapshot :: "HodlWaveTracker \<Rightarrow> date \<Rightarrow> HodlWaveTracker \<times> (date \<times> DailyHodlWave) option" where
  "maybe_hodl_snapshot t current_date =
     (case last_snapshot_date t of
        Some last_date \<Rightarrow>
          if last_date < current_date
          then (t\<lparr>last_snapshot_date := Some current_date\<rparr>, Some (last_date, compute_hodl_snapshot t last_date))
          else (t, None)
      | None \<Rightarrow> (t\<lparr>last_snapshot_date := Some current_date\<rparr>, None))"

definition begin_hodl_wave_block ::
    "HodlWaveTracker \<Rightarrow> int \<Rightarrow> date \<Rightarrow> HodlWaveTracker \<times> (date \<times> DailyHodlWave) option" where
  "begin_hodl_wave_block t block_number block_date =
     (case maybe_hodl_snapshot t block_date of
        (t1, sealed) \<Rightarrow> (record_block_date t1 block_number block_date, sealed))"

section \<open>Repair of the stored state on rollback\<close>

definition reverse_capacity_delta ::
    "(int \<times> bytes) list \<Rightarrow> int \<times> int \<Rightarrow> (bytes, int) omap \<Rightarrow> (bytes, int) omap" where
  "reverse_capacity_delta transitions bd m =
     (case bd of (created_block, delta) \<Rightarrow>
        if delta = 0 then m
        else let idx = partition_point (\<lambda>(b, _). b \<le> created_block) transitions;
                 d = (if idx = 0 then snd (transitions ! 0) else snd (transitions ! (idx - 1)))
             in om_put d ((case om_get m d of None \<Rightarrow> 0 | Some c \<Rightarrow> c) + delta) m)"

definition truncate_hodl_tracker_state_for_rollback ::
    "HodlTrackerState \<Rightarrow> int \<Rightarrow> int \<Rightarrow> (int \<times> int) list \<Rightarrow> (HodlTrackerState \<times> bool) res" where
  "truncate_hodl_tracker_state_for_rollback state rollback_to holder_count_delta block_capacity_deltas =
     (if rollback_to < 0 then Inr (state, True)
      else
        rbind (if block_capacity_deltas \<noteq> [] then
                 rbind (ensure (date_transitions state \<noteq> [])
                          (Bail ''cannot reverse HODL capacity deltas during rollback: no date transitions'')) (\<lambda>_.
                 Inr (fold (reverse_capacity_delta (date_transitions state)) block_capacity_deltas
                        (fold (\<lambda>(d, c). om_put d c) (capacity_by_date state) []), True))
               else Inr (capacity_by_date state, False)) (\<lambda>(caps, changed0).
        let transitions = filter (\<lambda>(block_num, _). block_num \<le> rollback_to) (date_transitions state);
            changed1 = (changed0 \<or> length transitions \<noteq> length (date_transitions state))
        in rbind (ensure (transitions \<noteq> []) (Bail ''invalid HODL tracker state after rollback truncate'')) (\<lambda>_.
           let max_date = snd (last transitions);
               caps1 = filter (\<lambda>(d, _). d \<le> max_date) caps;
               changed2 = (changed1 \<or> length caps1 \<noteq> length caps)
           in rbind (ensure (\<not> list_ex (\<lambda>(_, c). c < 0) caps1)
                       (Bail ''HODL capacity_by_date underflow after rollback repair'')) (\<lambda>_.
              let caps2 = filter (\<lambda>(_, c). c \<noteq> 0) caps1;
                  clamp = (case state_last_snapshot_date state of None \<Rightarrow> False | Some s \<Rightarrow> max_date < s);
                  lower = (case state_last_processed_block state of None \<Rightarrow> False | Some b \<Rightarrow> rollback_to < b)
              in rbind (ensure (holder_count_delta = 0 \<or> \<not> state_holder_count state + holder_count_delta < 0)
                          (Bail ''holder_count underflow during rollback repair'')) (\<lambda>_.
                 Inr (\<lparr>capacity_by_date = caps2, date_transitions = transitions,
                       state_holder_count = state_holder_count state + holder_count_delta,
                       state_last_snapshot_date = (if clamp then Some max_date else state_last_snapshot_date state),
                       state_last_processed_block = (if lower then Some rollback_to else state_last_processed_block state)\<rparr>,
                      changed2 \<or> length caps2 \<noteq> length caps1 \<or> clamp \<or> holder_count_delta \<noteq> 0 \<or> lower))))))"

section \<open>The events of a block\<close>

text \<open>
  What the sync applies to the tracker between two \<open>begin_hodl_wave_block\<close>s: cells created in
  the block, cells consumed with the block that created them, and changes of an address's
  number of live cells. Capacities are positive and inputs are created no later than the block.
\<close>

datatype hodl_event = Created int | Consumed int int | Holder int int

fun hodl_step :: "date \<Rightarrow> hodl_event \<Rightarrow> HodlWaveTracker \<Rightarrow> HodlWaveTracker res" where
  "hodl_step d (Created c) t = Inr (hodl_cell_created t d c)"
| "hodl_step d (Consumed b c) t = hodl_cell_consumed t b c"
| "hodl_step d (Holder old_live new_live) t = update_holder_count t old_live new_live"

definition open_hodl_block :: "HodlWaveTracker \<Rightarrow> int \<Rightarrow> date \<Rightarrow> HodlWaveTracker" where
  "open_hodl_block t n d = fst (begin_hodl_wave_block t n d)"

definition run_hodl :: "HodlWaveTracker \<Rightarrow> hodl_event day_block list \<Rightarrow> HodlWaveTracker res" where
  "run_hodl = run_days open_hodl_block hodl_step"

fun event_ok :: "int \<Rightarrow> hodl_event \<Rightarrow> bool" where
  "event_ok n (Created c) \<longleftrightarrow> 0 < c"
| "event_ok n (Consumed b c) \<longleftrightarrow> b \<le> n"
| "event_ok n (Holder old_live new_live) \<longleftrightarrow> True"

text \<open>The inverse of an event, keyed by the block that created the cell, and by its date.\<close>

fun event_inverse :: "int \<Rightarrow> hodl_event \<Rightarrow> (int \<times> int) list" where
  "event_inverse n (Created c) = [(n, - c)]"
| "event_inverse n (Consumed b c) = [(b, c)]"
| "event_inverse n (Holder old_live new_live) = []"

definition hodl_undo :: "(int \<Rightarrow> date) \<Rightarrow> int \<Rightarrow> hodl_event \<Rightarrow> (date \<times> int) list" where
  "hodl_undo f n e = map (\<lambda>(b, a). (f b, a)) (event_inverse n e)"

definition inverses :: "hodl_event day_block list \<Rightarrow> (int \<times> int) list" where
  "inverses bs = concat (map (\<lambda>b. concat (map (event_inverse (db_number b)) (db_events b))) bs)"

lemma undos_hodl: "undos hodl_undo f bs = map (\<lambda>(b, a). (f b, a)) (inverses bs)"
  by (simp add: undos_def inverses_def hodl_undo_def [abs_def] map_concat o_def)

section \<open>The invariant\<close>

definition bucket :: "('k \<times> int) list \<Rightarrow> 'k \<Rightarrow> int" where
  "bucket m k = (case om_get m k of None \<Rightarrow> 0 | Some c \<Rightarrow> c)"

definition hodl_clock :: "HodlWaveTracker \<Rightarrow> day_clock" where
  "hodl_clock t = \<lparr>clk_transitions = block_date_transitions t, clk_snapshot = last_snapshot_date t,
     clk_processed = last_processed_block t\<rparr>"

definition hodl_inv :: "date set \<Rightarrow> HodlWaveTracker \<Rightarrow> bool" where
  "hodl_inv D t \<longleftrightarrow> om_sorted (capacity_by_creation_date t) \<and> 0 \<le> holder_count t \<and>
     (\<forall>(d, c)\<in>set (capacity_by_creation_date t). 0 < c \<and> d \<in> D \<and> (\<exists>s. last_snapshot_date t = Some s \<and> d \<le> s))"

lemma hodl_clock_simps [simp]:
  "clk_transitions (hodl_clock t) = block_date_transitions t" "clk_snapshot (hodl_clock t) = last_snapshot_date t"
  "clk_processed (hodl_clock t) = last_processed_block t"
  by (simp_all add: hodl_clock_def)

lemma bucket_put [simp]: "bucket (om_put k v m) k' = (if k' = k then v else bucket m k')"
  by (simp add: bucket_def)

lemma bucket_del [simp]: "bucket (om_del k m) k' = (if k' = k then 0 else bucket m k')"
  by (simp add: bucket_def)

lemma hodl_inv_caps:
  assumes inv: "hodl_inv D t" and s: "om_sorted caps"
    and c: "\<And>d c. om_get caps d = Some c \<Longrightarrow>
      0 < c \<and> ((\<exists>c'. (d, c') \<in> set (capacity_by_creation_date t)) \<or> last_snapshot_date t = Some d \<and> d \<in> D)"
  shows "hodl_inv D (t\<lparr>capacity_by_creation_date := caps\<rparr>)"
proof -
  have k: "d \<in> D \<and> (\<exists>s. last_snapshot_date t = Some s \<and> d \<le> s)" if "(d, c) \<in> set (capacity_by_creation_date t)" for d c
    using inv that by (auto simp: hodl_inv_def)
  have "0 < c \<and> d \<in> D \<and> (\<exists>s. last_snapshot_date t = Some s \<and> d \<le> s)" if "(d, c) \<in> set caps" for d c
    using c [of d c] om_get_iff [OF s, of d c] that k by auto
  then show ?thesis using inv s by (auto simp: hodl_inv_def)
qed

lemma hodl_inv_pos: "hodl_inv D t \<Longrightarrow> om_get (capacity_by_creation_date t) d = Some c \<Longrightarrow> 0 < c"
  by (auto simp: hodl_inv_def dest!: map_of_SomeD)

lemma hodl_open_inv:
  "hodl_inv D t \<Longrightarrow> may_follow (hodl_clock t) n d \<Longrightarrow> hodl_inv D (open_hodl_block t n d)"
  by (fastforce simp: hodl_inv_def open_hodl_block_def begin_hodl_wave_block_def maybe_hodl_snapshot_def record_block_date_def
      Let_def may_follow_def split: option.splits)

lemma created_law:
  assumes inv: "hodl_inv D t" and d: "last_snapshot_date t = Some d" "d \<in> D" and c: "0 < c"
  shows "hodl_inv D (hodl_cell_created t d c)"
proof -
  let ?m = "capacity_by_creation_date t"
  have s: "om_sorted ?m" using inv by (simp add: hodl_inv_def)
  have v: "0 < bucket ?m d + c" using c hodl_inv_pos [OF inv, of d] by (auto simp: bucket_def intro: add_pos_pos split: option.splits)
  have eq: "hodl_cell_created t d c = t\<lparr>capacity_by_creation_date := om_put d (bucket ?m d + c) ?m\<rparr>"
    by (simp add: hodl_cell_created_def bucket_def)
  show ?thesis unfolding eq
    by (rule hodl_inv_caps [OF inv om_sorted_put [OF s]])
      (use v d hodl_inv_pos [OF inv] in \<open>auto split: if_splits dest: map_of_SomeD\<close>)
qed

lemma consumed_law:
  assumes inv: "hodl_inv D t" and ne: "block_date_transitions t \<noteq> []" and r: "hodl_cell_consumed t b c = Inr t'"
  shows "hodl_clock t' = hodl_clock t \<and> hodl_inv D t' \<and>
    (\<forall>x. bucket (capacity_by_creation_date t') x =
       bucket (capacity_by_creation_date t) x - (if date_of (block_date_transitions t) b = x then c else 0))"
proof -
  let ?m = "capacity_by_creation_date t" let ?d = "date_of (block_date_transitions t) b"
  have s: "om_sorted ?m" using inv by (simp add: hodl_inv_def)
  obtain cur where cur: "om_get ?m ?d = Some cur" "c \<le> cur"
    and t': "t' = t\<lparr>capacity_by_creation_date := (if cur = c then om_del ?d ?m else om_put ?d (cur - c) ?m)\<rparr>"
    using r by (auto simp: hodl_cell_consumed_def date_of_Some [OF ne] res_simps split: if_splits option.splits)
  have "hodl_inv D t'" unfolding t'
    by (rule hodl_inv_caps [OF inv])
      (use s cur hodl_inv_pos [OF inv] in \<open>auto split: if_splits dest: map_of_SomeD\<close>)
  moreover have "bucket ?m ?d = cur" using cur by (simp add: bucket_def)
  ultimately show ?thesis by (auto simp: t' hodl_clock_def)
qed

lemma hodl_step_law:
  assumes r: "hodl_step d e t = Inr t'" and e: "event_ok n e" and inv: "hodl_inv D t" and ok: "clock_ok D (hodl_clock t)"
    and n: "clk_processed (hodl_clock t) = Some n" and d: "clk_snapshot (hodl_clock t) = Some d"
  shows "hodl_clock t' = hodl_clock t \<and> hodl_inv D t' \<and>
    (\<forall>x. bucket (capacity_by_creation_date t') x =
       bucket (capacity_by_creation_date t) x - net (hodl_undo (date_of (clk_transitions (hodl_clock t))) n e) x)"
proof (cases e)
  case (Created c)
  have "d \<in> D" using ok n d by (auto simp: clock_ok_def)
  then have "hodl_inv D (hodl_cell_created t d c)" using created_law [OF inv] d e Created by simp
  then show ?thesis
    using r Created date_of_current [OF ok n d]
    by (auto simp: hodl_undo_def) (auto simp: hodl_cell_created_def bucket_def hodl_clock_def)
next
  case (Consumed b c)
  have "block_date_transitions t \<noteq> []" using ok n by (simp add: clock_ok_def)
  then show ?thesis using consumed_law [OF inv _ r [unfolded Consumed hodl_step.simps]] by (simp add: Consumed hodl_undo_def)
next
  case (Holder old_live new_live)
  moreover have "0 \<le> holder_count t" using inv by (simp add: hodl_inv_def)
  ultimately have "t' = t\<lparr>holder_count := holder_count t'\<rparr> \<and> 0 \<le> holder_count t'" using r
    by (auto simp: update_holder_count_def res_simps split: if_splits)
  then obtain h where h: "0 \<le> h" "t' = t\<lparr>holder_count := h\<rparr>" by blast
  then have "hodl_inv D t'" using inv by (simp add: hodl_inv_def)
  then show ?thesis using h(2) Holder by (simp add: hodl_clock_def hodl_undo_def)
qed

interpretation hodl: day_tracker hodl_clock open_hodl_block hodl_step event_ok hodl_inv
  "\<lambda>t. bucket (capacity_by_creation_date t)" hodl_undo
proof
  fix t n d
  show "hodl_clock (open_hodl_block t n d) = clock_begin (hodl_clock t) n d"
    by (auto simp: hodl_clock_def open_hodl_block_def begin_hodl_wave_block_def maybe_hodl_snapshot_def record_block_date_def
        clock_begin_def Let_def split: option.splits)
next
  fix t n d k
  show "bucket (capacity_by_creation_date (open_hodl_block t n d)) k = bucket (capacity_by_creation_date t) k"
    by (simp add: open_hodl_block_def begin_hodl_wave_block_def maybe_hodl_snapshot_def record_block_date_def Let_def split: option.split)
next
  fix n e and f g :: "int \<Rightarrow> date"
  assume "event_ok n e" "\<And>b. b \<le> n \<Longrightarrow> f b = g b"
  then show "hodl_undo f n e = hodl_undo g n e" by (cases e) (simp_all add: hodl_undo_def)
qed (rule hodl_open_inv hodl_step_law; assumption)+

lemma hodl_inv_new: "hodl_inv D new_hodl_tracker" "hodl_clock new_hodl_tracker = new_clock"
  by (simp_all add: hodl_inv_def new_hodl_tracker_def hodl_clock_def new_clock_def)

text \<open>The tracker after a run of blocks from the empty one.\<close>

lemma run_hodl_new:
  assumes "run_hodl new_hodl_tracker bs = Inr t" and "day_chain event_ok bs" and "db_date ` set bs \<subseteq> D" and "bs \<noteq> []"
  shows "hodl_inv D t \<and> clock_ok D (hodl_clock t) \<and> last_processed_block t = Some (db_number (last bs)) \<and>
    last_snapshot_date t = Some (db_date (last bs)) \<and> block_date_transitions t \<noteq> [] \<and>
    (\<forall>b\<in>set bs. date_of (block_date_transitions t) (db_number b) = db_date b) \<and>
    (\<forall>x. bucket (capacity_by_creation_date t) x =
      - net (map (\<lambda>(b, a). (date_of (block_date_transitions t) b, a)) (inverses bs)) x)"
proof -
  have c: "clock_ok D (hodl_clock new_hodl_tracker)" "follows event_ok D (hodl_clock new_hodl_tracker) bs"
    using follows_new [OF assms(2,3)] by (simp_all add: hodl_inv_new)
  have z: "bucket (capacity_by_creation_date new_hodl_tracker) x = 0" for x
    by (simp add: bucket_def new_hodl_tracker_def)
  note run = hodl.run_law [OF assms(1) [unfolded run_hodl_def] hodl_inv_new(1) c, unfolded undos_hodl z]
  then have "block_date_transitions t \<noteq> []" using assms(4) by (auto simp: clock_ok_def)
  then show ?thesis using run assms(4) by simp
qed

section \<open>The stored state\<close>

definition fmt_keys :: "('a \<Rightarrow> 'b) \<Rightarrow> ('a \<times> 'c) list \<Rightarrow> ('b \<times> 'c) list" where
  "fmt_keys fmt = map (\<lambda>(d, c). (fmt d, c))"

lemma om_sorted_fmt_keys:
  "day_format fmt parse D \<Longrightarrow> fst ` set m \<subseteq> D \<Longrightarrow> om_sorted m \<Longrightarrow> om_sorted (fmt_keys fmt m)"
proof (induction m)
  case Nil
  then show ?case by (simp add: fmt_keys_def)
next
  case (Cons p m)
  obtain d c where p: "p = (d, c)" by (cases p)
  have "fmt d < fmt e" if "(e, v) \<in> set m" for e v
    using Cons.prems that by (force simp: p om_sorted_Cons day_format_def)
  then show ?case using Cons by (auto simp: p om_sorted_Cons fmt_keys_def)
qed

lemma om_get_fmt_keys:
  "day_format fmt parse D \<Longrightarrow> fst ` set m \<subseteq> D \<Longrightarrow> d \<in> D \<Longrightarrow> om_get (fmt_keys fmt m) (fmt d) = om_get m d"
  by (induction m) (auto simp: fmt_keys_def day_eq split: prod.splits)

lemma om_get_fmt_keys_None: "fst ` set m \<subseteq> D \<Longrightarrow> s \<notin> fmt ` D \<Longrightarrow> om_get (fmt_keys fmt m) s = None"
  by (induction m) (auto simp: fmt_keys_def split: prod.splits)

lemma parse_capacities_fmt:
  "day_format fmt parse D \<Longrightarrow> fst ` set xs \<subseteq> D \<Longrightarrow>
   parse_capacities parse (fmt_keys fmt xs) m = Inr (fold (\<lambda>(k, v). om_put k v) xs m)"
  by (induction xs arbitrary: m) (auto simp: fmt_keys_def day_format_def res_simps)

lemma hodl_inv_keys:
  assumes "hodl_inv D t"
  shows "om_sorted (capacity_by_creation_date t)" "fst ` set (capacity_by_creation_date t) \<subseteq> D" "0 \<le> holder_count t"
  using assms by (auto simp: hodl_inv_def)

text \<open>The stored state reads back as the tracker.\<close>

lemma hodl_state_roundtrip:
  assumes day: "day_format fmt parse D" and inv: "hodl_inv D t" and ok: "clock_ok D (hodl_clock t)"
  shows "hodl_from_state parse (hodl_to_state fmt t) = Inr t"
proof -
  note k = hodl_inv_keys [OF inv]
  have caps: "parse_capacities parse (map (\<lambda>(d, c). (fmt d, c)) (capacity_by_creation_date t)) [] = Inr (capacity_by_creation_date t)"
    using parse_capacities_fmt [OF day k(2), of "[]"] fold_put_sorted [OF k(1)] by (simp add: fmt_keys_def)
  have D: "snd ` set (block_date_transitions t) \<subseteq> D" using ok by (simp add: clock_ok_def)
  have tr: "parse_transitions err parse (map (\<lambda>(b, d). (b, fmt d)) (block_date_transitions t)) = Inr (block_date_transitions t)" for err
    using parse_transitions_fmt [OF day D] .
  have "e \<in> D" if "last_snapshot_date t = Some e" for e
    using ok that D by (auto simp: clock_ok_def split: option.splits)
  then have "parse (fmt e) = Some e" if "last_snapshot_date t = Some e" for e
    using day that by (simp add: day_format_def)
  then show ?thesis using caps tr k(3)
    by (cases "last_snapshot_date t") (simp_all add: hodl_from_state_def hodl_to_state_def res_simps)
qed

lemma reverse_capacity_delta_eq:
  assumes "tr \<noteq> []"
  shows "reverse_capacity_delta (map (\<lambda>(b, d). (b, fmt d)) tr) (b, a) m =
    (if a = 0 then m else om_put (fmt (date_of tr b)) (bucket m (fmt (date_of tr b)) + a) m)"
  using assms partition_point_less [OF assms, of "\<lambda>(x, _). x \<le> b"]
  by (simp add: reverse_capacity_delta_def date_of_def block_number_to_date_def partition_point_map bucket_def Let_def
      case_prod_beta nth_map del: One_nat_def)

lemma reverse_fold:
  assumes day: "day_format fmt parse D" and tr: "tr \<noteq> []" "snd ` set tr \<subseteq> D" and x: "x \<in> D"
  shows "bucket (fold (reverse_capacity_delta (map (\<lambda>(b, d). (b, fmt d)) tr)) ds m) (fmt x) =
    bucket m (fmt x) + net (map (\<lambda>(b, a). (date_of tr b, a)) ds) x"
proof (induction ds arbitrary: m)
  case Nil
  then show ?case by simp
next
  case (Cons p ds)
  have "date_of tr b \<in> D" for b using date_of_in [OF tr(1)] tr(2) by blast
  then have "fmt x = fmt (date_of tr b) \<longleftrightarrow> date_of tr b = x" for b
    using day_eq [OF day x] by blast
  then show ?case
    by (cases p) (simp add: reverse_capacity_delta_eq [OF tr(1)] Cons)
qed

lemma reverse_fold_sorted:
  "tr \<noteq> [] \<Longrightarrow> om_sorted m \<Longrightarrow> om_sorted (fold (reverse_capacity_delta (map (\<lambda>(b, d). (b, fmt d)) tr)) ds m)"
  by (induction ds arbitrary: m) (auto simp: reverse_capacity_delta_eq)

lemma reverse_fold_keys:
  assumes "tr \<noteq> []" "snd ` set tr \<subseteq> D"
  shows "fst ` set m \<subseteq> fmt ` D \<Longrightarrow>
    fst ` set (fold (reverse_capacity_delta (map (\<lambda>(b, d). (b, fmt d)) tr)) ds m) \<subseteq> fmt ` D"
proof (induction ds arbitrary: m)
  case Nil
  then show ?case by simp
next
  case (Cons p ds)
  have "date_of tr b \<in> D" for b using date_of_in [OF assms(1)] assms(2) by blast
  then have "fst ` set (reverse_capacity_delta (map (\<lambda>(b, d). (b, fmt d)) tr) p m) \<subseteq> fmt ` D"
    using Cons.prems by (cases p) (simp add: reverse_capacity_delta_eq [OF assms(1)] fst_om_put)
  then show ?case using Cons.IH by simp
qed

section \<open>Rollback restores the tracker\<close>

definition repaired_caps :: "HodlTrackerState \<Rightarrow> (int \<times> int) list \<Rightarrow> (bytes, int) omap" where
  "repaired_caps state ds =
     (if ds \<noteq> [] then fold (reverse_capacity_delta (date_transitions state)) ds
        (fold (\<lambda>(d, c). om_put d c) (capacity_by_date state) [])
      else capacity_by_date state)"

lemma bucket_in: "om_sorted m \<Longrightarrow> (k, c) \<in> set m \<Longrightarrow> bucket m k = c"
  using om_get_iff [of m k c] by (simp add: bucket_def)

lemma repaired_caps_ok:
  assumes day: "day_format fmt parse D" and inv: "hodl_inv D t2"
    and tr: "block_date_transitions t2 \<noteq> []" "snd ` set (block_date_transitions t2) \<subseteq> D"
    and ds: "\<And>b. net ds b = net es b"
  defines "C \<equiv> repaired_caps (hodl_to_state fmt t2) ds"
  shows "om_sorted C \<and> fst ` set C \<subseteq> fmt ` D \<and>
    (\<forall>x\<in>D. bucket C (fmt x) = bucket (capacity_by_creation_date t2) x +
      net (map (\<lambda>(b, a). (date_of (block_date_transitions t2) b, a)) es) x)"
proof -
  note k = hodl_inv_keys [OF inv]
  let ?m = "fmt_keys fmt (capacity_by_creation_date t2)"
  have m: "om_sorted ?m" by (rule om_sorted_fmt_keys [OF day k(2,1)])
  have "fst ` set ?m = fmt ` (fst ` set (capacity_by_creation_date t2))" by (force simp: fmt_keys_def)
  then have mk: "fst ` set ?m \<subseteq> fmt ` D" using k(2) by blast
  have mb: "\<forall>x\<in>D. bucket ?m (fmt x) = bucket (capacity_by_creation_date t2) x"
    using om_get_fmt_keys [OF day k(2)] by (simp add: bucket_def)
  have C: "C = fold (reverse_capacity_delta (map (\<lambda>(b, d). (b, fmt d)) (block_date_transitions t2))) ds ?m"
    using fold_put_sorted [OF m] by (simp add: C_def repaired_caps_def hodl_to_state_def fmt_keys_def)
  have sh: "net (map (\<lambda>(b, a). (date_of (block_date_transitions t2) b, a)) ds) x =
      net (map (\<lambda>(b, a). (date_of (block_date_transitions t2) b, a)) es) x" for x
    by (rule net_rekey_cong [OF ds])
  show ?thesis
    unfolding C
    by (intro conjI ballI reverse_fold_sorted [OF tr(1) m] reverse_fold_keys [OF tr mk])
      (simp add: reverse_fold [OF day tr] mb sh)
qed

text \<open>Dropping the dates past the fork and the empty buckets leaves the tracker's own buckets.\<close>

lemma trimmed_caps:
  assumes day: "day_format fmt parse D" and inv: "hodl_inv D t" and snap: "last_snapshot_date t = Some h" "h \<in> D"
    and C: "om_sorted C" "fst ` set C \<subseteq> fmt ` D" "\<forall>x\<in>D. bucket C (fmt x) = bucket (capacity_by_creation_date t) x"
  defines "hi \<equiv> fmt h"
  shows "(\<forall>(s, c)\<in>set C. 0 \<le> c) \<and>
    filter (\<lambda>(_, c). c \<noteq> 0) (filter (\<lambda>(d, _). d \<le> hi) C) = fmt_keys fmt (capacity_by_creation_date t)"
proof
  let ?m = "capacity_by_creation_date t"
  note k = hodl_inv_keys [OF inv]
  have pos: "0 < c \<and> d \<le> h" if "(d, c) \<in> set ?m" for d c
    using inv snap that by (auto simp: hodl_inv_def)
  have b: "bucket ?m x = 0 \<and> om_get ?m x = None \<or> 0 < bucket ?m x \<and> om_get ?m x = Some (bucket ?m x) \<and> x \<le> h" for x
    using pos by (auto simp: bucket_def split: option.splits dest: map_of_SomeD)
  show "\<forall>(s, c)\<in>set C. 0 \<le> c"
  proof safe
    fix s c assume sc: "(s, c) \<in> set C"
    then obtain x where "x \<in> D" "s = fmt x" using C(2) by force
    then show "0 \<le> c" using bucket_in [OF C(1) sc] C(3) b [of x] by auto
  qed
  let ?F = "filter (\<lambda>(_, c). c \<noteq> 0) (filter (\<lambda>(d, _). d \<le> hi) C)"
  have get: "om_get ?F s = om_get (fmt_keys fmt ?m) s" for s
  proof (cases "s \<in> fmt ` D")
    case True
    then obtain x where x: "x \<in> D" "s = fmt x" by blast
    have "om_get ?F s = (if bucket C s \<noteq> 0 \<and> s \<le> hi then Some (bucket C s) else None)"
      using C(1) by (auto simp: om_get_filter bucket_def split: option.splits)
    also have "\<dots> = om_get ?m x"
      using b [of x] C(3) x day_le [OF day x(1) snap(2)] by (auto simp: hi_def)
    finally show ?thesis using om_get_fmt_keys [OF day k(2) x(1)] x(2) by simp
  next
    case False
    then have "om_get C s = None" using C(2) by (auto simp: map_of_eq_None_iff)
    then show ?thesis using om_get_fmt_keys_None [OF k(2) False] C(1) by (simp add: om_get_filter)
  qed
  show "?F = fmt_keys fmt ?m"
    by (rule om_ext) (use C(1) om_sorted_fmt_keys [OF day k(2,1)] get in auto)
qed

lemma truncate_eq:
  assumes n: "0 \<le> n" and T: "filter (\<lambda>(b, _). b \<le> n) (date_transitions st) = T" "T \<noteq> []"
    and h: "0 \<le> state_holder_count st + hcd"
    and c: "\<not> list_ex (\<lambda>(_, c). c < 0) (filter (\<lambda>(d, _). d \<le> snd (last T)) (repaired_caps st ds))"
  shows "\<exists>changed. truncate_hodl_tracker_state_for_rollback st n hcd ds =
    Inr (\<lparr>capacity_by_date = filter (\<lambda>(_, c). c \<noteq> 0) (filter (\<lambda>(d, _). d \<le> snd (last T)) (repaired_caps st ds)),
          date_transitions = T, state_holder_count = state_holder_count st + hcd,
          state_last_snapshot_date = clamp_date (state_last_snapshot_date st) (snd (last T)),
          state_last_processed_block = clamp_block (state_last_processed_block st) n\<rparr>, changed)"
proof -
  have ne: "date_transitions st \<noteq> []" using T by auto
  have "(if ds \<noteq> [] then
           rbind (ensure (date_transitions st \<noteq> [])
                    (Bail ''cannot reverse HODL capacity deltas during rollback: no date transitions'')) (\<lambda>_.
           Inr (fold (reverse_capacity_delta (date_transitions st)) ds
                  (fold (\<lambda>(d, c). om_put d c) (capacity_by_date st) []), True))
         else Inr (capacity_by_date st, False)) = Inr (repaired_caps st ds, ds \<noteq> [])"
    using ne by (simp add: repaired_caps_def res_simps)
  then show ?thesis using n h T(2) c
    by (simp add: truncate_hodl_tracker_state_for_rollback_def T(1) Let_def ensure_def clamp_date_def clamp_block_def
        split: option.splits)
qed

lemma truncate_restores:
  assumes day: "day_format fmt parse D" and inv: "hodl_inv D t1" and ok: "clock_ok D (hodl_clock t1)"
    and n: "last_processed_block t1 = Some N" "0 \<le> N"
    and f: "follows event_ok D (hodl_clock t1) cs" and r: "run_hodl t1 cs = Inr t2" and ds: "\<And>b. net ds b = net (inverses cs) b"
  shows "\<exists>changed. truncate_hodl_tracker_state_for_rollback (hodl_to_state fmt t2) N (holder_count t1 - holder_count t2) ds =
    Inr (hodl_to_state fmt t1, changed)"
proof -
  let ?tr1 = "block_date_transitions t1" let ?tr2 = "block_date_transitions t2" let ?st = "hodl_to_state fmt t2"
  let ?C = "repaired_caps ?st ds"
  note run = hodl.run_law [OF r [unfolded run_hodl_def] inv ok f, unfolded undos_hodl]
  then have i2: "hodl_inv D t2" and ok2: "clock_ok D (hodl_clock t2)" by blast+
  have clk: "filter (\<lambda>(b, _). b \<le> N) (date_transitions ?st) = map (\<lambda>(b, d). (b, fmt d)) ?tr1" "?tr1 \<noteq> []"
    "clamp_date (state_last_snapshot_date ?st) (fmt (snd (last ?tr1))) = map_option fmt (last_snapshot_date t1)"
    "clamp_block (state_last_processed_block ?st) N = last_processed_block t1"
    using hodl.run_truncated [OF day r [unfolded run_hodl_def] inv ok f] n(1) by (simp_all add: hodl_to_state_def)
  have "last_snapshot_date t1 = Some (snd (last ?tr1))" "snd ` set ?tr1 \<subseteq> D"
    using ok n(1) by (auto simp: clock_ok_def)
  then have snap: "last_snapshot_date t1 = Some (snd (last ?tr1))" "snd (last ?tr1) \<in> D"
    using last_in_set [OF clk(2)] by blast+
  have D2: "?tr2 \<noteq> []" "snd ` set ?tr2 \<subseteq> D" using ok2 run clk(2) by (auto simp: clock_ok_def)
  have C: "om_sorted ?C" "fst ` set ?C \<subseteq> fmt ` D" "\<forall>x\<in>D. bucket ?C (fmt x) = bucket (capacity_by_creation_date t1) x"
    using repaired_caps_ok [OF day i2 D2 ds] run by simp_all
  note trim = trimmed_caps [OF day inv snap C]
  have "\<not> list_ex (\<lambda>(_, c). c < 0) (filter (\<lambda>(d, _). d \<le> fmt (snd (last ?tr1))) ?C)"
    using trim by (fastforce simp: list_ex_iff)
  moreover have "map (\<lambda>(b, d). (b, fmt d)) ?tr1 \<noteq> []" "0 \<le> state_holder_count ?st + (holder_count t1 - holder_count t2)"
    using clk(2) inv by (simp_all add: hodl_to_state_def hodl_inv_def)
  ultimately show ?thesis
    using truncate_eq [OF n(2) clk(1), of "holder_count t1 - holder_count t2" ds] conjunct2 [OF trim] clk
    by (simp only: last_fmt [OF clk(2)]) (simp add: hodl_to_state_def fmt_keys_def)
qed

lemma hodl_truncate_run:
  assumes "day_format fmt parse (db_date ` set (bs @ cs))" and "day_chain event_ok (bs @ cs)" and "bs \<noteq> []"
    and "run_hodl new_hodl_tracker bs = Inr t1" and "run_hodl t1 cs = Inr t2"
    and "\<forall>b. net deltas b = net (inverses cs) b"
  shows "\<exists>changed. truncate_hodl_tracker_state_for_rollback (hodl_to_state fmt t2) (db_number (last bs))
      (holder_count t1 - holder_count t2) deltas = Inr (hodl_to_state fmt t1, changed) \<and>
    hodl_from_state parse (hodl_to_state fmt t1) = Inr t1"
proof -
  let ?D = "db_date ` set (bs @ cs)"
  have f: "follows event_ok ?D (hodl_clock new_hodl_tracker) (bs @ cs)"
    using follows_new [OF assms(2) order_refl] by (simp add: hodl_inv_new)
  have "day_chain event_ok bs" using follows_prefix [OF f] by (simp add: follows_def)
  then have t1: "hodl_inv ?D t1" "clock_ok ?D (hodl_clock t1)" "last_processed_block t1 = Some (db_number (last bs))"
    using run_hodl_new [OF assms(4) _ _ assms(3), of ?D] by auto
  have cs: "follows event_ok ?D (hodl_clock t1) cs"
    by (rule hodl.follows_split [OF f hodl_inv_new(1) _ assms(4) [unfolded run_hodl_def]]) (simp add: hodl_inv_new)
  have "0 \<le> db_number (last bs)" using assms(2,3) by (simp add: day_chain_def)
  then show ?thesis
    using truncate_restores [OF assms(1) t1 _ cs assms(5), of deltas] assms(6) hodl_state_roundtrip [OF assms(1) t1(1,2)] by simp
qed

text \<open>
  C20. Undoing a suffix of blocks: the tracker built from the blocks \<open>bs\<close> is stored after the
  blocks \<open>cs\<close> were applied to it as well; the repair of the stored state, given the last block
  of \<open>bs\<close>, the difference of the holder counts and amounts whose net per creating block is the
  inverse of what \<open>cs\<close> did, succeeds and yields the stored form of the tracker as it was after
  \<open>bs\<close>, which loads as that tracker: no capacity bucket, date, holder or cursor of an orphaned
  block survives.
\<close>

theorem hodl_rollback_restores:
  assumes "day_format fmt parse (db_date ` set (bs @ cs))" and "day_chain event_ok (bs @ cs)" and "bs \<noteq> []"
    and "run_hodl new_hodl_tracker bs = Inr t1" and "run_hodl t1 cs = Inr t2"
    and "\<forall>b. net deltas b = net (inverses cs) b"
  shows "\<exists>changed. truncate_hodl_tracker_state_for_rollback (hodl_to_state fmt t2) (db_number (last bs))
      (holder_count t1 - holder_count t2) deltas = Inr (hodl_to_state fmt t1, changed) \<and>
    hodl_from_state parse (hodl_to_state fmt t1) = Inr t1"
  using hodl_truncate_run [OF assms] .

definition hodl_sample :: "hodl_event day_block list" where
  "hodl_sample = [\<lparr>db_number = 0, db_date = 1, db_events = [Created 100, Holder 0 1]\<rparr>,
     \<lparr>db_number = 1, db_date = 1, db_events = [Created 30]\<rparr>]"

definition hodl_orphans :: "hodl_event day_block list" where
  "hodl_orphans = [\<lparr>db_number = 2, db_date = 3, db_events = [Consumed 0 100, Created 60, Holder 0 1]\<rparr>]"

definition hodl_sample_tracker :: HodlWaveTracker where
  "hodl_sample_tracker = \<lparr>capacity_by_creation_date = [(1, 130)], block_date_transitions = [(0, 1)], holder_count = 1,
     last_snapshot_date = Some 1, last_processed_block = Some 1\<rparr>"

definition hodl_orphan_tracker :: HodlWaveTracker where
  "hodl_orphan_tracker = \<lparr>capacity_by_creation_date = [(1, 30), (3, 60)], block_date_transitions = [(0, 1), (2, 3)], holder_count = 2,
     last_snapshot_date = Some 3, last_processed_block = Some 2\<rparr>"

lemma hodl_sample_run: "run_hodl new_hodl_tracker hodl_sample = Inr hodl_sample_tracker"
  by code_simp

lemma hodl_orphan_run: "run_hodl hodl_sample_tracker hodl_orphans = Inr hodl_orphan_tracker"
  by code_simp

lemma hodl_sample_chain: "day_chain event_ok (hodl_sample @ hodl_orphans)"
  by (simp add: day_chain_def hodl_sample_def hodl_orphans_def)

theorem hodl_rollback_restores_witness:
  "\<exists>changed. truncate_hodl_tracker_state_for_rollback (hodl_to_state unary_day hodl_orphan_tracker) 1 (- 1) [(2, - 60), (0, 100)] =
      Inr (hodl_to_state unary_day hodl_sample_tracker, changed)"
proof -
  have "day_format unary_day parse_unary_day (db_date ` set (hodl_sample @ hodl_orphans))"
    by (rule unary_day_format) (simp add: hodl_sample_def hodl_orphans_def)
  moreover have "\<forall>b. net [(2, - 60), (0, 100)] b = net (inverses hodl_orphans) b"
    by (simp add: hodl_orphans_def inverses_def)
  moreover have "hodl_sample \<noteq> []" "db_number (last hodl_sample) = 1" by (simp_all add: hodl_sample_def)
  moreover have "holder_count hodl_sample_tracker - holder_count hodl_orphan_tracker = - 1"
    by (simp add: hodl_sample_tracker_def hodl_orphan_tracker_def)
  ultimately show ?thesis
    using hodl_rollback_restores [OF _ hodl_sample_chain _ hodl_sample_run hodl_orphan_run] by metis
qed

section \<open>The daily snapshot\<close>

lemma fold_adds: "(\<And>x w. p (f x w) = p w + g x) \<Longrightarrow> p (fold f xs w) = p w + (\<Sum>x\<leftarrow>xs. g x)"
  for g :: "'x \<Rightarrow> int"
  by (induction xs arbitrary: w) simp_all

text \<open>The capacity created on the days that satisfy a predicate and not consumed again.\<close>

definition held :: "(int \<times> date) list \<Rightarrow> hodl_event day_block list \<Rightarrow> (date \<Rightarrow> bool) \<Rightarrow> int" where
  "held tr bs Q = (\<Sum>(b, a)\<leftarrow>inverses bs. if Q (date_of tr b) then - a else 0)"

lemma sum_caps:
  assumes "om_sorted m" "finite D" "fst ` set m \<subseteq> D"
  shows "(\<Sum>(d, c)\<leftarrow>m. if Q d then c else 0) = (\<Sum>d\<in>D. if Q d then bucket m d else 0)"
  using assms
proof (induction m)
  case Nil
  then show ?case by (simp add: bucket_def cong: if_cong)
next
  case (Cons p m)
  obtain k v where p: "p = (k, v)" by (cases p)
  have none: "om_get m k = None" using Cons.prems(1) by (force simp: p om_sorted_Cons map_of_eq_None_iff)
  have "(\<Sum>d\<in>D. if Q d then bucket (p # m) d else 0) =
      (\<Sum>d\<in>D. (if d = k then (if Q k then v else 0) else 0) + (if Q d then bucket m d else 0))"
    using none by (intro sum.cong) (auto simp: p bucket_def)
  also have "\<dots> = (if Q k then v else 0) + (\<Sum>d\<in>D. if Q d then bucket m d else 0)"
    using Cons.prems unfolding sum.distrib by (simp add: p)
  finally show ?case using Cons by (simp add: p om_sorted_Cons)
qed

lemma held_eq:
  assumes ch: "day_chain event_ok bs" and ne: "bs \<noteq> []" and r: "run_hodl new_hodl_tracker bs = Inr t"
  shows "(\<Sum>(d, c)\<leftarrow>capacity_by_creation_date t. if Q d then c else 0) = held (block_date_transitions t) bs Q"
proof -
  let ?D = "db_date ` set bs" let ?m = "capacity_by_creation_date t" let ?tr = "block_date_transitions t"
  let ?ds = "map (\<lambda>(b, a). (date_of ?tr b, a)) (inverses bs)"
  note run = run_hodl_new [OF r ch order_refl ne]
  have inv: "hodl_inv ?D t" and tr: "?tr \<noteq> []" "snd ` set ?tr \<subseteq> ?D" and b: "\<And>x. bucket ?m x = - net ?ds x"
    using run by (auto simp: clock_ok_def)
  note k = hodl_inv_keys [OF inv]
  have ds: "fst ` set ?ds \<subseteq> ?D" using date_of_in [OF tr(1)] tr(2) by fastforce
  have "(\<Sum>(d, c)\<leftarrow>?m. if Q d then c else 0) = (\<Sum>d\<in>?D. if Q d then - net ?ds d else 0)"
    using sum_caps [OF k(1) _ k(2), of Q] b by (simp cong: if_cong)
  also have "\<dots> = - (\<Sum>d\<in>?D. if Q d then net ?ds d else 0)"
    by (simp add: sum_negf [symmetric] if_distrib cong: if_cong)
  also have "\<dots> = - (\<Sum>(k, a)\<leftarrow>?ds. if Q k then a else 0)"
    using net_sum [OF _ ds, of Q] by simp
  finally have sum: "(\<Sum>(d, c)\<leftarrow>?m. if Q d then c else 0) = - (\<Sum>(k, a)\<leftarrow>?ds. if Q k then a else 0)" .
  have "(\<Sum>(k, a)\<leftarrow>map (\<lambda>(b, a). (date_of ?tr b, a)) xs. if Q k then a else 0) =
      - (\<Sum>(b, a)\<leftarrow>xs. if Q (date_of ?tr b) then - a else 0)" for xs :: "(int \<times> int) list"
    by (induction xs) auto
  then show ?thesis unfolding sum by (simp add: held_def)
qed

definition wave_exact :: "(int \<times> date) list \<Rightarrow> hodl_event day_block list \<Rightarrow> date \<Rightarrow> DailyHodlWave \<Rightarrow> bool" where
  "wave_exact tr bs s w \<longleftrightarrow>
     band_24h w = held tr bs (\<lambda>d. d = s) \<and>
     band_1d_1w w = held tr bs (\<lambda>d. 1 \<le> s - d \<and> s - d < 7) \<and>
     band_1w_1m w = held tr bs (\<lambda>d. 7 \<le> s - d \<and> s - d < 30) \<and>
     band_1m_3m w = held tr bs (\<lambda>d. 30 \<le> s - d \<and> s - d < 90) \<and>
     band_3m_6m w = held tr bs (\<lambda>d. 90 \<le> s - d \<and> s - d < 180) \<and>
     band_6m_1y w = held tr bs (\<lambda>d. 180 \<le> s - d \<and> s - d < 365) \<and>
     band_1y_3y w = held tr bs (\<lambda>d. 365 \<le> s - d \<and> s - d < 1095) \<and>
     band_gt_3y w = held tr bs (\<lambda>d. 1095 \<le> s - d)"

lemma band_sum:
  assumes p: "\<And>x v. p (add_band s x v) = p v + (case x of (d, c) \<Rightarrow> if 0 < c \<and> Q d then c else 0)"
    and z: "p v0 = 0" and pos: "\<And>d c. (d, c) \<in> set m \<Longrightarrow> 0 < c \<and> (Q d \<longleftrightarrow> R d)"
  shows "p (fold (add_band s) m v0) = (\<Sum>(d, c)\<leftarrow>m. if R d then c else 0)"
proof -
  have "p (fold (add_band s) m v0) = (\<Sum>x\<leftarrow>m. case x of (d, c) \<Rightarrow> if 0 < c \<and> Q d then c else 0)"
    using fold_adds [of p "add_band s" "\<lambda>x. case x of (d, c) \<Rightarrow> if 0 < c \<and> Q d then c else 0" m v0] p z by simp
  also have "\<dots> = (\<Sum>(d, c)\<leftarrow>m. if R d then c else 0)"
    by (rule arg_cong [where f = sum_list], rule map_cong) (use pos in auto)
  finally show ?thesis .
qed

lemma add_band_proj:
  "band_24h (add_band s x v) = band_24h v + (case x of (d, c) \<Rightarrow> if 0 < c \<and> (s - d = 0) then c else 0)"
  "band_1d_1w (add_band s x v) = band_1d_1w v + (case x of (d, c) \<Rightarrow> if 0 < c \<and> (1 \<le> s - d \<and> s - d \<le> 6) then c else 0)"
  "band_1w_1m (add_band s x v) = band_1w_1m v + (case x of (d, c) \<Rightarrow> if 0 < c \<and> (7 \<le> s - d \<and> s - d \<le> 29) then c else 0)"
  "band_1m_3m (add_band s x v) = band_1m_3m v + (case x of (d, c) \<Rightarrow> if 0 < c \<and> (30 \<le> s - d \<and> s - d \<le> 89) then c else 0)"
  "band_3m_6m (add_band s x v) = band_3m_6m v + (case x of (d, c) \<Rightarrow> if 0 < c \<and> (90 \<le> s - d \<and> s - d \<le> 179) then c else 0)"
  "band_6m_1y (add_band s x v) = band_6m_1y v + (case x of (d, c) \<Rightarrow> if 0 < c \<and> (180 \<le> s - d \<and> s - d \<le> 364) then c else 0)"
  "band_1y_3y (add_band s x v) = band_1y_3y v + (case x of (d, c) \<Rightarrow> if 0 < c \<and> (365 \<le> s - d \<and> s - d \<le> 1094) then c else 0)"
  "band_gt_3y (add_band s x v) = band_gt_3y v + (case x of (d, c) \<Rightarrow> if 0 < c \<and> (s - d < 0 \<or> 1095 \<le> s - d) then c else 0)"
  by (cases x; auto simp: add_band_def Let_def)+

lemma snapshot_bands:
  assumes pos: "\<And>d c. (d, c) \<in> set (capacity_by_creation_date t) \<Longrightarrow> 0 < c \<and> d \<le> s"
    and h: "\<And>Q. (\<Sum>(d, c)\<leftarrow>capacity_by_creation_date t. if Q d then c else 0) = held tr bs Q"
  shows "wave_exact tr bs s (compute_hodl_snapshot t s)"
  unfolding wave_exact_def compute_hodl_snapshot_def h [symmetric]
  by (intro conjI; rule band_sum [OF add_band_proj(1)] band_sum [OF add_band_proj(2)] band_sum [OF add_band_proj(3)]
      band_sum [OF add_band_proj(4)] band_sum [OF add_band_proj(5)] band_sum [OF add_band_proj(6)]
      band_sum [OF add_band_proj(7)] band_sum [OF add_band_proj(8)]; use pos in force)

lemma snapshot_holders: "wave_holder_count (compute_hodl_snapshot t s) = holder_count t"
proof -
  have "wave_holder_count (add_band s x v) = wave_holder_count v" for x v
    by (cases x) (simp add: add_band_def Let_def)
  then have "wave_holder_count (fold (add_band s) m v) = wave_holder_count v" for m v
    by (induction m arbitrary: v) simp_all
  then show ?thesis by (simp add: compute_hodl_snapshot_def)
qed

lemma held_total:
  assumes w: "wave_exact tr bs s w" and le: "\<forall>p\<in>set (inverses bs). date_of tr (fst p) \<le> s"
  shows "band_24h w + band_1d_1w w + band_1w_1m w + band_1m_3m w + band_3m_6m w + band_6m_1y w + band_1y_3y w + band_gt_3y w =
    - (\<Sum>(b, a)\<leftarrow>inverses bs. a)"
proof -
  define H :: "(int \<times> int) list \<Rightarrow> (date \<Rightarrow> bool) \<Rightarrow> int"
    where "H ds Q = (\<Sum>(b, a)\<leftarrow>ds. if Q (date_of tr b) then - a else 0)" for ds Q
  have H: "H [] Q = 0" "H ((b, a) # ds) Q = (if Q (date_of tr b) then - a else 0) + H ds Q" for Q b a ds
    by (simp_all add: H_def)
  have "H ds (\<lambda>d. d = s) + H ds (\<lambda>d. 1 \<le> s - d \<and> s - d < 7) + H ds (\<lambda>d. 7 \<le> s - d \<and> s - d < 30) +
      H ds (\<lambda>d. 30 \<le> s - d \<and> s - d < 90) + H ds (\<lambda>d. 90 \<le> s - d \<and> s - d < 180) +
      H ds (\<lambda>d. 180 \<le> s - d \<and> s - d < 365) + H ds (\<lambda>d. 365 \<le> s - d \<and> s - d < 1095) + H ds (\<lambda>d. 1095 \<le> s - d) =
      - (\<Sum>(b, a)\<leftarrow>ds. a)" if "\<forall>p\<in>set ds. date_of tr (fst p) \<le> s" for ds
    using that by (induction ds) (auto simp: H)
  from this [OF le] show ?thesis using w by (simp add: wave_exact_def held_def H_def)
qed

text \<open>
  C21. The daily snapshot: after any run of blocks, the next block seals a wave exactly when its
  date is later than the last one; the wave is labelled with the last block's date, every band
  is the capacity created on the days of that age and not consumed since, where a block's day
  is its own date, and the bands together are all capacity created and not consumed.
\<close>

theorem hodl_snapshot_exact:
  assumes "day_chain event_ok bs" and "bs \<noteq> []" and "run_hodl new_hodl_tracker bs = Inr t"
  shows "\<exists>w. (\<forall>n d. snd (begin_hodl_wave_block t n d) = (if db_date (last bs) < d then Some (db_date (last bs), w) else None)) \<and>
    wave_exact (block_date_transitions t) bs (db_date (last bs)) w \<and> wave_holder_count w = holder_count t \<and>
    (\<forall>b\<in>set bs. date_of (block_date_transitions t) (db_number b) = db_date b) \<and>
    band_24h w + band_1d_1w w + band_1w_1m w + band_1m_3m w + band_3m_6m w + band_6m_1y w + band_1y_3y w + band_gt_3y w =
      - (\<Sum>(b, a)\<leftarrow>inverses bs. a)"
proof -
  let ?D = "db_date ` set bs" let ?tr = "block_date_transitions t" let ?s = "db_date (last bs)"
  note run = run_hodl_new [OF assms(3,1) order_refl assms(2)]
  have inv: "hodl_inv ?D t" and snap: "last_snapshot_date t = Some ?s" and tr: "?tr \<noteq> []" "ascending ?tr"
    and days: "\<forall>b\<in>set bs. date_of ?tr (db_number b) = db_date b"
    using run by (auto simp: clock_ok_def)
  have "clock_ok ?D (hodl_clock t)" "last_processed_block t = Some (db_number (last bs))" using run by blast+
  then have s: "?s = snd (last ?tr)" using snap by (simp add: clock_ok_def)
  have pos: "0 < c \<and> d \<le> ?s" if "(d, c) \<in> set (capacity_by_creation_date t)" for d c
    using inv snap that by (auto simp: hodl_inv_def)
  let ?w = "compute_hodl_snapshot t ?s"
  have w: "wave_exact ?tr bs ?s ?w" by (rule snapshot_bands [OF pos held_eq [OF assms]])
  have le: "\<forall>p\<in>set (inverses bs). date_of ?tr (fst p) \<le> ?s"
    using date_of_in [OF tr(1)] ascending_last [OF tr(2)] unfolding s by fastforce
  have seal: "snd (begin_hodl_wave_block t n d) = (if ?s < d then Some (?s, ?w) else None)" for n d
    using snap by (simp add: begin_hodl_wave_block_def maybe_hodl_snapshot_def)
  show ?thesis
    using seal w held_total [OF w le] days snapshot_holders by blast
qed

theorem hodl_snapshot_exact_witness:
  "\<exists>w. snd (begin_hodl_wave_block hodl_sample_tracker 2 3) = Some (1, w) \<and> band_24h w = 130 \<and> band_gt_3y w = 0"
proof -
  have "day_chain event_ok hodl_sample" "hodl_sample \<noteq> []" "db_date (last hodl_sample) = 1"
    by (simp_all add: day_chain_def hodl_sample_def)
  then obtain w where "snd (begin_hodl_wave_block hodl_sample_tracker 2 3) = Some (1, w)"
    "wave_exact (block_date_transitions hodl_sample_tracker) hodl_sample 1 w"
    using hodl_snapshot_exact [OF _ _ hodl_sample_run] by fastforce
  moreover have "held (block_date_transitions hodl_sample_tracker) hodl_sample (\<lambda>d. d = 1) = 130"
    "held (block_date_transitions hodl_sample_tracker) hodl_sample (\<lambda>d. 1095 \<le> 1 - d) = 0"
    by code_simp+
  ultimately show ?thesis by (auto simp: wave_exact_def)
qed

end
