(* ===== verification/Cell_Distribution.thy ===== *)
theory Cell_Distribution
  imports Day_Clock
begin

text \<open>
  The cell distribution tracker: \<^verbatim>\<open>crates/indexer/src/db/writer/cell_distribution.rs\<close>,
  \<open>begin_cell_distribution_block\<close> of \<^verbatim>\<open>crates/indexer/src/sync/reorg.rs\<close> and the repair of
  its stored state in \<open>truncate_cell_dist_tracker_state_for_rollback\<close> of
  \<^verbatim>\<open>crates/ckbadger-store/src/reorg_ops.rs\<close>. An array of six is a list of length six;
  chrono's \<^verbatim>\<open>%Y-%m\<close> is the parameter \<open>month\<close>. Counts and sums of capacities are integers, as
  for the HODL tracker; the cohort sums keep their 128-bit checks.
\<close>

section \<open>The tracker\<close>

definition NUM_BUCKETS :: nat where
  "NUM_BUCKETS = 6"

definition CKB :: int where
  "CKB = 100000000"

text \<open>Division of signed integers rounds towards zero.\<close>

definition size_bucket :: "int \<Rightarrow> nat" where
  "size_bucket occupied =
     (let ckb = (if occupied < 0 then - (- occupied div CKB) else occupied div CKB)
      in if 0 \<le> ckb \<and> ckb \<le> 99 then 0
         else if 100 \<le> ckb \<and> ckb \<le> 999 then 1
         else if 1000 \<le> ckb \<and> ckb \<le> 9999 then 2
         else if 10000 \<le> ckb \<and> ckb \<le> 99999 then 3
         else if 100000 \<le> ckb \<and> ckb \<le> 999999 then 4
         else 5)"

record CellDistributionTracker =
  count_by_bucket :: "int list"
  total_capacity_by_bucket :: "int list"
  cd_transitions :: "(int \<times> date) list"
  cd_last_snapshot_date :: "date option"
  cohort_accum :: "(bytes, int \<times> int) omap"
  cd_last_processed_block :: "int option"

record CellDistributionTrackerState =
  st_count_by_bucket :: "int list"
  st_total_capacity_by_bucket :: "int list"
  st_date_transitions :: "(int \<times> bytes) list"
  st_last_snapshot_date :: "bytes option"
  st_cohort_accum :: "(bytes \<times> int \<times> int) list"
  st_last_processed_block :: "int option"

record DailyCellDistribution =
  size_bucket_counts :: "int list"
  size_bucket_capacities :: "int list"

definition new_cell_dist :: CellDistributionTracker where
  "new_cell_dist = \<lparr>count_by_bucket = replicate NUM_BUCKETS 0, total_capacity_by_bucket = replicate NUM_BUCKETS 0,
     cd_transitions = [], cd_last_snapshot_date = None, cohort_accum = [], cd_last_processed_block = None\<rparr>"

fun load_cohorts :: "string \<Rightarrow> string \<Rightarrow> (bytes \<times> int \<times> int) list \<Rightarrow> (bytes, int \<times> int) omap \<Rightarrow> (bytes, int \<times> int) omap res" where
  "load_cohorts negative duplicate [] m = Inr m"
| "load_cohorts negative duplicate ((mon, used, bal) # rest) m =
     rbind (ensure (\<not> (used < 0 \<or> bal < 0)) (Bail negative)) (\<lambda>_.
     rbind (ensure (om_get m mon = None) (Bail duplicate)) (\<lambda>_.
     load_cohorts negative duplicate rest (om_put mon (used, bal) m)))"

definition cell_dist_from_state ::
    "(bytes \<Rightarrow> date option) \<Rightarrow> CellDistributionTrackerState \<Rightarrow> CellDistributionTracker res" where
  "cell_dist_from_state parse state =
     rbind (parse_transitions ''corrupt cell_dist date_transitions entry'' parse (st_date_transitions state)) (\<lambda>transitions.
     rbind (case st_last_snapshot_date state of
              None \<Rightarrow> Inr None
            | Some s \<Rightarrow> rbind (ok_or (parse s) (Bail ''corrupt cell_dist last_snapshot_date'')) (\<lambda>d. Inr (Some d))) (\<lambda>last_date.
     rbind (load_cohorts ''negative cohort accumulator in stored cell_dist tracker''
              ''duplicate cohort month in stored cell_dist tracker'' (st_cohort_accum state) []) (\<lambda>cohorts.
     Inr \<lparr>count_by_bucket = st_count_by_bucket state, total_capacity_by_bucket = st_total_capacity_by_bucket state,
          cd_transitions = transitions, cd_last_snapshot_date = last_date, cohort_accum = cohorts,
          cd_last_processed_block = st_last_processed_block state\<rparr>)))"

definition cell_dist_to_state :: "(date \<Rightarrow> bytes) \<Rightarrow> CellDistributionTracker \<Rightarrow> CellDistributionTrackerState" where
  "cell_dist_to_state fmt t =
     \<lparr>st_count_by_bucket = count_by_bucket t, st_total_capacity_by_bucket = total_capacity_by_bucket t,
      st_date_transitions = map (\<lambda>(b, d). (b, fmt d)) (cd_transitions t),
      st_last_snapshot_date = map_option fmt (cd_last_snapshot_date t),
      st_cohort_accum = map (\<lambda>(mon, used, bal). (mon, used, bal)) (cohort_accum t),
      st_last_processed_block = cd_last_processed_block t\<rparr>"

definition cell_dist_record_block_date :: "CellDistributionTracker \<Rightarrow> int \<Rightarrow> date \<Rightarrow> CellDistributionTracker" where
  "cell_dist_record_block_date t block_number d =
     (let t1 = t\<lparr>cd_last_processed_block := Some block_number\<rparr>
      in if cd_transitions t1 \<noteq> [] \<and> snd (last (cd_transitions t1)) = d then t1
         else t1\<lparr>cd_transitions := cd_transitions t1 @ [(block_number, d)]\<rparr>)"

definition cell_dist_created :: "CellDistributionTracker \<Rightarrow> int \<Rightarrow> CellDistributionTracker" where
  "cell_dist_created t occupied =
     (let i = size_bucket occupied
      in t\<lparr>count_by_bucket := (count_by_bucket t)[i := count_by_bucket t ! i + 1],
           total_capacity_by_bucket := (total_capacity_by_bucket t)[i := total_capacity_by_bucket t ! i + occupied]\<rparr>)"

definition cell_dist_consumed :: "CellDistributionTracker \<Rightarrow> int \<Rightarrow> CellDistributionTracker res" where
  "cell_dist_consumed t occupied =
     rbind (ensure (\<not> occupied \<le> 0) (Bail ''invalid consumed cell occupied_capacity'')) (\<lambda>_.
     let i = size_bucket occupied
     in rbind (ensure (\<not> count_by_bucket t ! i \<le> 0) (Bail ''live cell count underflow on consume'')) (\<lambda>_.
        rbind (ok_or (checked fits_i128 (total_capacity_by_bucket t ! i - occupied)) (Bail ''capacity subtraction overflow'')) (\<lambda>remaining.
        rbind (ensure (\<not> remaining < 0) (Bail ''live capacity underflow on consume'')) (\<lambda>_.
        Inr (t\<lparr>count_by_bucket := (count_by_bucket t)[i := count_by_bucket t ! i - 1],
               total_capacity_by_bucket := (total_capacity_by_bucket t)[i := remaining]\<rparr>)))))"

definition cell_dist_snapshot :: "CellDistributionTracker \<Rightarrow> DailyCellDistribution" where
  "cell_dist_snapshot t = \<lparr>size_bucket_counts = count_by_bucket t, size_bucket_capacities = total_capacity_by_bucket t\<rparr>"

definition maybe_cell_dist_snapshot ::
    "CellDistributionTracker \<Rightarrow> date \<Rightarrow> CellDistributionTracker \<times> (date \<times> DailyCellDistribution) option" where
  "maybe_cell_dist_snapshot t current_date =
     (case cd_last_snapshot_date t of
        Some last_date \<Rightarrow>
          if last_date < current_date
          then (t\<lparr>cd_last_snapshot_date := Some current_date\<rparr>, Some (last_date, cell_dist_snapshot t))
          else (t, None)
      | None \<Rightarrow> (t\<lparr>cd_last_snapshot_date := Some current_date\<rparr>, None))"

definition cohort_of :: "(bytes, int \<times> int) omap \<Rightarrow> bytes \<Rightarrow> int \<times> int" where
  "cohort_of m mon = (case om_get m mon of None \<Rightarrow> (0, 0) | Some p \<Rightarrow> p)"

definition apply_cohort_delta ::
    "(date \<Rightarrow> bytes) \<Rightarrow> CellDistributionTracker \<Rightarrow> int \<Rightarrow> int \<Rightarrow> int \<Rightarrow> CellDistributionTracker res" where
  "apply_cohort_delta month t first_seen_block used_delta balance_delta =
     rbind (ok_or (block_number_to_date (cd_transitions t) first_seen_block)
              (Bail ''missing block-date transition for address cohort delta'')) (\<lambda>cohort_date.
     let cohort_month = month cohort_date;
         current = cohort_of (cohort_accum t) cohort_month
     in rbind (ensure (\<not> (fst current < 0 \<or> snd current < 0)) (Bail ''negative cohort accumulator before delta'')) (\<lambda>_.
        rbind (ok_or (checked fits_i128 (fst current + used_delta)) (Bail ''address cohort used_capacity overflow'')) (\<lambda>used.
        rbind (ok_or (checked fits_i128 (snd current + balance_delta)) (Bail ''address cohort balance overflow'')) (\<lambda>balance.
        rbind (ensure (\<not> (used < 0 \<or> balance < 0)) (Bail ''address cohort accumulator underflow'')) (\<lambda>_.
        Inr (t\<lparr>cohort_accum := om_put cohort_month (used, balance) (cohort_accum t)\<rparr>))))))"

definition cohort_snapshot :: "CellDistributionTracker \<Rightarrow> (bytes \<times> int \<times> int) list" where
  "cohort_snapshot t =
     map (\<lambda>(mon, used, bal). (mon, used, bal)) (filter (\<lambda>(_, used, bal). used \<noteq> 0 \<or> bal \<noteq> 0) (cohort_accum t))"

definition begin_cell_distribution_block ::
    "CellDistributionTracker \<Rightarrow> int \<Rightarrow> date \<Rightarrow>
     CellDistributionTracker \<times> (date \<times> DailyCellDistribution \<times> (bytes \<times> int \<times> int) list) option" where
  "begin_cell_distribution_block t block_number block_date =
     (case maybe_cell_dist_snapshot t block_date of
        (t1, sealed) \<Rightarrow> (cell_dist_record_block_date t1 block_number block_date,
           map_option (\<lambda>(d, distribution). (d, distribution, cohort_snapshot t1)) sealed))"

section \<open>Repair of the stored state on rollback\<close>

definition cell_dist_size_bucket :: "int \<Rightarrow> nat" where
  "cell_dist_size_bucket occupied =
     (let ckb = (if occupied < 0 then - (- occupied div 100000000) else occupied div 100000000)
      in if 0 \<le> ckb \<and> ckb \<le> 99 then 0
         else if 100 \<le> ckb \<and> ckb \<le> 999 then 1
         else if 1000 \<le> ckb \<and> ckb \<le> 9999 then 2
         else if 10000 \<le> ckb \<and> ckb \<le> 99999 then 3
         else if 100000 \<le> ckb \<and> ckb \<le> 999999 then 4
         else 5)"

fun repair_cohorts :: "(bytes \<times> int \<times> int) list \<Rightarrow> (bytes, int \<times> int) omap \<Rightarrow> (bytes, int \<times> int) omap res" where
  "repair_cohorts [] m = Inr m"
| "repair_cohorts ((mon, used_delta, balance_delta) # rest) m =
     (let entry = cohort_of m mon
      in rbind (ensure (\<not> (fst entry < 0 \<or> snd entry < 0)) (Bail ''negative cohort accumulator before rollback repair'')) (\<lambda>_.
         rbind (ok_or (checked fits_i128 (fst entry + used_delta)) (Bail ''cohort used-capacity overflow during rollback'')) (\<lambda>used.
         rbind (ok_or (checked fits_i128 (snd entry + balance_delta)) (Bail ''cohort balance overflow during rollback'')) (\<lambda>bal.
         rbind (ensure (\<not> (used < 0 \<or> bal < 0)) (Bail ''cohort accumulator underflow during rollback'')) (\<lambda>_.
         repair_cohorts rest (om_put mon (used, bal) m))))))"

fun repair_buckets :: "(int \<times> int) list \<Rightarrow> (int \<times> int) list \<Rightarrow> ((int \<times> int) list \<times> bool) res" where
  "repair_buckets ((count, cap) # buckets) ((count_delta, cap_delta) # deltas) =
     (if count_delta \<noteq> 0 \<or> cap_delta \<noteq> 0 then
        rbind (ensure (\<not> count + count_delta < 0) (Bail ''cell_dist count_by_bucket underflow during rollback'')) (\<lambda>_.
        rbind (ensure (\<not> cap + cap_delta < 0) (Bail ''cell_dist total_capacity_by_bucket underflow during rollback'')) (\<lambda>_.
        rbind (repair_buckets buckets deltas) (\<lambda>(rest, changed).
        Inr ((count + count_delta, cap + cap_delta) # rest, True))))
      else rbind (repair_buckets buckets deltas) (\<lambda>(rest, changed). Inr ((count, cap) # rest, changed)))"
| "repair_buckets buckets deltas = Inr (buckets, False)"

definition truncate_cell_dist_tracker_state_for_rollback ::
    "CellDistributionTrackerState \<Rightarrow> int \<Rightarrow> int list \<Rightarrow> int list \<Rightarrow> (bytes \<times> int \<times> int) list \<Rightarrow>
     (CellDistributionTrackerState \<times> bool) res" where
  "truncate_cell_dist_tracker_state_for_rollback state rollback_to count_deltas capacity_deltas cohort_deltas =
     (if rollback_to < 0 then Inr (state, True)
      else let transitions = filter (\<lambda>(block_num, _). block_num \<le> rollback_to) (st_date_transitions state);
               changed1 = (length transitions \<noteq> length (st_date_transitions state))
        in rbind (ensure (transitions \<noteq> []) (Bail ''invalid cell_dist tracker state after rollback truncate'')) (\<lambda>_.
           let max_date = snd (last transitions);
               clamp = (case st_last_snapshot_date state of None \<Rightarrow> False | Some s \<Rightarrow> max_date < s)
           in rbind (load_cohorts ''negative cohort accumulator before rollback repair''
                       ''duplicate cohort month before rollback repair'' (st_cohort_accum state) []) (\<lambda>cohorts0.
              rbind (repair_cohorts cohort_deltas cohorts0) (\<lambda>cohorts.
              let changed2 = (changed1 \<or> clamp \<or> cohort_deltas \<noteq> []);
                  accum = (if changed2 then map (\<lambda>(mon, used, bal). (mon, used, bal)) cohorts else st_cohort_accum state)
              in rbind (repair_buckets (zip (st_count_by_bucket state) (st_total_capacity_by_bucket state))
                          (zip count_deltas capacity_deltas)) (\<lambda>(buckets, changed3).
                 let lower = (case st_last_processed_block state of None \<Rightarrow> False | Some b \<Rightarrow> rollback_to < b)
                 in Inr (\<lparr>st_count_by_bucket = map fst buckets, st_total_capacity_by_bucket = map snd buckets,
                          st_date_transitions = transitions,
                          st_last_snapshot_date = (if clamp then Some max_date else st_last_snapshot_date state),
                          st_cohort_accum = accum,
                          st_last_processed_block = (if lower then Some rollback_to else st_last_processed_block state)\<rparr>,
                         changed2 \<or> changed3 \<or> lower))))))"

section \<open>The events of a block\<close>

text \<open>
  Cells created and consumed, with their occupied capacity, and the changes of the cohort of
  the addresses first seen in a block, which is no later than the current one.
\<close>

datatype dist_event = DistCreated int | DistConsumed int | DistCohort int int int

fun dist_step :: "(date \<Rightarrow> bytes) \<Rightarrow> date \<Rightarrow> dist_event \<Rightarrow> CellDistributionTracker \<Rightarrow> CellDistributionTracker res" where
  "dist_step month d (DistCreated occ) t = Inr (cell_dist_created t occ)"
| "dist_step month d (DistConsumed occ) t = cell_dist_consumed t occ"
| "dist_step month d (DistCohort b used bal) t = apply_cohort_delta month t b used bal"

definition open_dist_block :: "CellDistributionTracker \<Rightarrow> int \<Rightarrow> date \<Rightarrow> CellDistributionTracker" where
  "open_dist_block t n d = fst (begin_cell_distribution_block t n d)"

definition run_dist ::
    "(date \<Rightarrow> bytes) \<Rightarrow> CellDistributionTracker \<Rightarrow> dist_event day_block list \<Rightarrow> CellDistributionTracker res" where
  "run_dist month = run_days open_dist_block (dist_step month)"

fun dist_ok :: "int \<Rightarrow> dist_event \<Rightarrow> bool" where
  "dist_ok n (DistCreated occ) \<longleftrightarrow> 0 < occ"
| "dist_ok n (DistConsumed occ) \<longleftrightarrow> True"
| "dist_ok n (DistCohort b used bal) \<longleftrightarrow> b \<le> n"

text \<open>The amounts of the tracker: a number and a sum per size, two sums per month.\<close>

datatype dist_key = Count nat | Total nat | Used bytes | Balance bytes

fun dist_amount :: "CellDistributionTracker \<Rightarrow> dist_key \<Rightarrow> int" where
  "dist_amount t (Count i) = (if i < length (count_by_bucket t) then count_by_bucket t ! i else 0)"
| "dist_amount t (Total i) = (if i < length (total_capacity_by_bucket t) then total_capacity_by_bucket t ! i else 0)"
| "dist_amount t (Used mon) = fst (cohort_of (cohort_accum t) mon)"
| "dist_amount t (Balance mon) = snd (cohort_of (cohort_accum t) mon)"

fun dist_undo :: "(date \<Rightarrow> bytes) \<Rightarrow> (int \<Rightarrow> date) \<Rightarrow> int \<Rightarrow> dist_event \<Rightarrow> (dist_key \<times> int) list" where
  "dist_undo month f n (DistCreated occ) = [(Count (size_bucket occ), - 1), (Total (size_bucket occ), - occ)]"
| "dist_undo month f n (DistConsumed occ) = [(Count (size_bucket occ), 1), (Total (size_bucket occ), occ)]"
| "dist_undo month f n (DistCohort b used bal) = [(Used (month (f b)), - used), (Balance (month (f b)), - bal)]"

definition dist_clock :: "CellDistributionTracker \<Rightarrow> day_clock" where
  "dist_clock t = \<lparr>clk_transitions = cd_transitions t, clk_snapshot = cd_last_snapshot_date t,
     clk_processed = cd_last_processed_block t\<rparr>"

definition cohort_fits :: "int \<times> int \<Rightarrow> bool" where
  "cohort_fits p \<longleftrightarrow> 0 \<le> fst p \<and> fits_i128 (fst p) \<and> 0 \<le> snd p \<and> fits_i128 (snd p)"

definition dist_inv :: "date set \<Rightarrow> CellDistributionTracker \<Rightarrow> bool" where
  "dist_inv D t \<longleftrightarrow> length (count_by_bucket t) = NUM_BUCKETS \<and> length (total_capacity_by_bucket t) = NUM_BUCKETS \<and>
     (\<forall>i<NUM_BUCKETS. 0 \<le> count_by_bucket t ! i \<and> 0 \<le> total_capacity_by_bucket t ! i) \<and>
     om_sorted (cohort_accum t) \<and> (\<forall>mon. cohort_fits (cohort_of (cohort_accum t) mon))"

lemma dist_clock_simps [simp]:
  "clk_transitions (dist_clock t) = cd_transitions t" "clk_snapshot (dist_clock t) = cd_last_snapshot_date t"
  "clk_processed (dist_clock t) = cd_last_processed_block t"
  by (simp_all add: dist_clock_def)

lemma size_bucket_less: "size_bucket occ < NUM_BUCKETS"
  by (simp add: size_bucket_def NUM_BUCKETS_def Let_def)

lemma cohort_of_put [simp]: "cohort_of (om_put mon p m) mon' = (if mon' = mon then p else cohort_of m mon')"
  by (simp add: cohort_of_def)

lemma cohort_of_Nil [simp]: "cohort_of [] mon = (0, 0)"
  by (simp add: cohort_of_def)

lemma dist_cells_law:
  assumes inv: "dist_inv D t" and c: "count_by_bucket t' = (count_by_bucket t)[i := count_by_bucket t ! i - a]"
    and p: "total_capacity_by_bucket t' = (total_capacity_by_bucket t)[i := total_capacity_by_bucket t ! i - v]"
    and rest: "dist_clock t' = dist_clock t" "cohort_accum t' = cohort_accum t"
    and i: "i < NUM_BUCKETS" and nn: "0 \<le> count_by_bucket t ! i - a" "0 \<le> total_capacity_by_bucket t ! i - v"
  shows "dist_clock t' = dist_clock t \<and> dist_inv D t' \<and>
    (\<forall>k. dist_amount t' k = dist_amount t k - net [(Count i, a), (Total i, v)] k)"
proof -
  have "dist_inv D t'" using assms by (auto simp: dist_inv_def nth_list_update)
  moreover have "dist_amount t' k = dist_amount t k - net [(Count i, a), (Total i, v)] k" for k
    using assms by (cases k) (auto simp: dist_inv_def nth_list_update)
  ultimately show ?thesis using rest by simp
qed

lemma dist_step_law:
  assumes r: "dist_step month d e t = Inr t'" and e: "dist_ok n e" and inv: "dist_inv D t" and ok: "clock_ok D (dist_clock t)"
    and n: "clk_processed (dist_clock t) = Some n" and d: "clk_snapshot (dist_clock t) = Some d"
  shows "dist_clock t' = dist_clock t \<and> dist_inv D t' \<and>
    (\<forall>k. dist_amount t' k = dist_amount t k - net (dist_undo month (date_of (clk_transitions (dist_clock t))) n e) k)"
proof (cases e)
  case (DistCreated occ)
  have t': "t' = cell_dist_created t occ" using r DistCreated by simp
  show ?thesis unfolding DistCreated dist_undo.simps
  proof (rule dist_cells_law [OF inv _ _ _ _ size_bucket_less])
    show "0 \<le> count_by_bucket t ! size_bucket occ - - 1" "0 \<le> total_capacity_by_bucket t ! size_bucket occ - - occ"
      using inv e DistCreated size_bucket_less [of occ] by (auto simp: dist_inv_def)
  qed (simp_all add: t' cell_dist_created_def Let_def dist_clock_def)
next
  case (DistConsumed occ)
  let ?i = "size_bucket occ"
  have pre: "0 < count_by_bucket t ! ?i" "0 \<le> total_capacity_by_bucket t ! ?i - occ"
    and t': "t' = t\<lparr>count_by_bucket := (count_by_bucket t)[?i := count_by_bucket t ! ?i - 1],
       total_capacity_by_bucket := (total_capacity_by_bucket t)[?i := total_capacity_by_bucket t ! ?i - occ]\<rparr>"
    using r DistConsumed by (auto simp: cell_dist_consumed_def Let_def res_simps)
  show ?thesis unfolding DistConsumed dist_undo.simps
    by (rule dist_cells_law [OF inv _ _ _ _ size_bucket_less]) (use pre in \<open>simp_all add: t' dist_clock_def\<close>)
next
  case (DistCohort b used bal)
  have ne: "cd_transitions t \<noteq> []" using ok n by (simp add: clock_ok_def)
  let ?m = "month (date_of (cd_transitions t) b)" let ?p = "cohort_of (cohort_accum t) ?m"
  have fit: "cohort_fits (fst ?p + used, snd ?p + bal)"
    and t': "t' = t\<lparr>cohort_accum := om_put ?m (fst ?p + used, snd ?p + bal) (cohort_accum t)\<rparr>"
    using r DistCohort by (auto simp: apply_cohort_delta_def date_of_Some [OF ne] Let_def cohort_fits_def res_simps)
  have "dist_inv D t'" using inv fit by (simp add: t' dist_inv_def)
  moreover have "dist_amount t' k = dist_amount t k - net [(Used ?m, - used), (Balance ?m, - bal)] k" for k
    by (cases k) (auto simp: t')
  ultimately show ?thesis by (simp add: t' dist_clock_def DistCohort)
qed

interpretation dist: day_tracker dist_clock open_dist_block "dist_step month" dist_ok dist_inv dist_amount "dist_undo month"
  for month :: "date \<Rightarrow> bytes"
proof
  fix t n d
  show "dist_clock (open_dist_block t n d) = clock_begin (dist_clock t) n d"
    by (auto simp: dist_clock_def open_dist_block_def begin_cell_distribution_block_def maybe_cell_dist_snapshot_def
        cell_dist_record_block_date_def clock_begin_def Let_def split: option.splits)
next
  fix D t n d
  assume "dist_inv D t"
  then show "dist_inv D (open_dist_block t n d)"
    by (auto simp: dist_inv_def open_dist_block_def begin_cell_distribution_block_def maybe_cell_dist_snapshot_def
        cell_dist_record_block_date_def Let_def split: option.splits)
next
  fix t n d k
  show "dist_amount (open_dist_block t n d) k = dist_amount t k"
    by (cases k) (auto simp: open_dist_block_def begin_cell_distribution_block_def maybe_cell_dist_snapshot_def
        cell_dist_record_block_date_def Let_def split: option.splits)
next
  fix n e and f g :: "int \<Rightarrow> date"
  assume "dist_ok n e" "\<And>b. b \<le> n \<Longrightarrow> f b = g b"
  then show "dist_undo month f n e = dist_undo month g n e" by (cases e) simp_all
qed (rule dist_step_law; assumption)+

lemma dist_inv_new: "dist_inv D new_cell_dist" "dist_clock new_cell_dist = new_clock"
  by (simp_all add: dist_inv_def new_cell_dist_def dist_clock_def new_clock_def cohort_fits_def fits_i128_def)

section \<open>Rollback restores the tracker\<close>

definition same_distribution :: "CellDistributionTracker \<Rightarrow> CellDistributionTracker \<Rightarrow> bool" where
  "same_distribution t t' \<longleftrightarrow> t'\<lparr>cohort_accum := cohort_accum t\<rparr> = t \<and>
     (\<forall>mon. cohort_of (cohort_accum t') mon = cohort_of (cohort_accum t) mon)"

text \<open>What the rollback hands to the repair: the net inverse of the removed events.\<close>

definition dist_deltas :: "(dist_key \<times> int) list \<Rightarrow> int list \<Rightarrow> int list \<Rightarrow> (bytes \<times> int \<times> int) list \<Rightarrow> bool" where
  "dist_deltas us counts totals cohorts \<longleftrightarrow>
     length counts = NUM_BUCKETS \<and> length totals = NUM_BUCKETS \<and>
     (\<forall>i<NUM_BUCKETS. counts ! i = net us (Count i) \<and> totals ! i = net us (Total i)) \<and>
     distinct (map fst cohorts) \<and>
     (\<forall>mon. (case map_of cohorts mon of None \<Rightarrow> (0, 0) | Some p \<Rightarrow> p) = (net us (Used mon), net us (Balance mon)))"

lemma load_cohorts_ok:
  "om_sorted xs \<Longrightarrow> \<forall>(mon, used, bal)\<in>set xs. 0 \<le> used \<and> 0 \<le> bal \<Longrightarrow> \<forall>mon\<in>fst ` set xs. om_get m mon = None \<Longrightarrow>
   load_cohorts neg dup xs m = Inr (fold (\<lambda>(k, v). om_put k v) xs m)"
proof (induction xs arbitrary: m)
  case Nil
  then show ?case by simp
next
  case (Cons x xs)
  obtain mon used bal where x: "x = (mon, used, bal)" by (cases x)
  have "load_cohorts neg dup xs (om_put mon (used, bal) m) = Inr (fold (\<lambda>(k, v). om_put k v) xs (om_put mon (used, bal) m))"
    by (rule Cons.IH) (use Cons.prems in \<open>auto simp: x om_sorted_Cons\<close>)
  then show ?case using Cons.prems by (simp add: x)
qed

lemma load_cohorts_same:
  "om_sorted xs \<Longrightarrow> \<forall>mon. cohort_fits (cohort_of xs mon) \<Longrightarrow> load_cohorts neg dup xs [] = Inr xs"
proof -
  assume s: "om_sorted xs" and f: "\<forall>mon. cohort_fits (cohort_of xs mon)"
  have "0 \<le> used \<and> 0 \<le> bal" if "(mon, used, bal) \<in> set xs" for mon used bal
    using f [rule_format, of mon] om_get_iff [OF s, of mon "(used, bal)"] that by (simp add: cohort_of_def cohort_fits_def)
  then show "load_cohorts neg dup xs [] = Inr xs"
    using load_cohorts_ok [OF s, of "[]" neg dup] fold_put_sorted [OF s] by auto
qed

lemma repair_cohorts_ok:
  "distinct (map fst ds) \<Longrightarrow> om_sorted m \<Longrightarrow> \<forall>mon. cohort_fits (cohort_of m mon) \<Longrightarrow>
   \<forall>(mon, u, b)\<in>set ds. cohort_fits (fst (cohort_of m mon) + u, snd (cohort_of m mon) + b) \<Longrightarrow>
   \<exists>m'. repair_cohorts ds m = Inr m' \<and> om_sorted m' \<and>
     (\<forall>mon. cohort_of m' mon = (case map_of ds mon of None \<Rightarrow> cohort_of m mon
        | Some (u, b) \<Rightarrow> (fst (cohort_of m mon) + u, snd (cohort_of m mon) + b)))"
proof (induction ds arbitrary: m)
  case Nil
  then show ?case by simp
next
  case (Cons x ds)
  obtain mon u b where x: "x = (mon, u, b)" by (cases x)
  let ?p = "cohort_of m mon" let ?m = "om_put mon (fst ?p + u, snd ?p + b) m"
  have fit: "cohort_fits (fst ?p + u, snd ?p + b)" "cohort_fits ?p" using Cons.prems by (auto simp: x)
  have new: "mon \<notin> fst ` set ds" "distinct (map fst ds)" using Cons.prems(1) by (auto simp: x)
  have "\<exists>m'. repair_cohorts ds ?m = Inr m' \<and> om_sorted m' \<and>
     (\<forall>k. cohort_of m' k = (case map_of ds k of None \<Rightarrow> cohort_of ?m k
        | Some (u, b) \<Rightarrow> (fst (cohort_of ?m k) + u, snd (cohort_of ?m k) + b)))"
    by (rule Cons.IH [OF new(2)]) (use Cons.prems fit new(1) in \<open>auto simp: x rev_image_eqI\<close>)
  then obtain m' where m': "repair_cohorts ds ?m = Inr m'" "om_sorted m'"
    "\<And>k. cohort_of m' k = (case map_of ds k of None \<Rightarrow> cohort_of ?m k
        | Some (u, b) \<Rightarrow> (fst (cohort_of ?m k) + u, snd (cohort_of ?m k) + b))" by blast
  have "repair_cohorts (x # ds) m = Inr m'"
    using fit m'(1) by (simp add: x Let_def cohort_fits_def checked_def)
  moreover have "map_of ds mon = None" using new(1) by (simp add: map_of_eq_None_iff)
  ultimately show ?case using m'(2,3) by (auto simp: x split: option.splits)
qed

lemma repair_buckets_ok:
  "length bs = length ds \<Longrightarrow> \<forall>i<length bs. 0 \<le> fst (bs ! i) + fst (ds ! i) \<and> 0 \<le> snd (bs ! i) + snd (ds ! i) \<Longrightarrow>
   \<exists>ch. repair_buckets bs ds = Inr (map2 (\<lambda>b d. (fst b + fst d, snd b + snd d)) bs ds, ch)"
proof (induction bs ds rule: list_induct2)
  case Nil
  then show ?case by auto
next
  case (Cons b bs d ds)
  have "\<exists>ch. repair_buckets bs ds = Inr (map2 (\<lambda>b d. (fst b + fst d, snd b + snd d)) bs ds, ch)"
    by (rule Cons.IH) (use Cons.prems in \<open>auto dest: spec [of _ "Suc _"]\<close>)
  moreover have "0 \<le> fst b + fst d" "0 \<le> snd b + snd d" using Cons.prems [rule_format, of 0] by simp_all
  ultimately show ?case by (cases b; cases d) auto
qed

lemma same_distribution_snapshots:
  assumes "same_distribution t t'" and s: "om_sorted (cohort_accum t)" "om_sorted (cohort_accum t')"
  shows "cell_dist_snapshot t' = cell_dist_snapshot t \<and> cohort_snapshot t' = cohort_snapshot t"
proof
  have rest: "t'\<lparr>cohort_accum := cohort_accum t\<rparr> = t" and c: "\<And>mon. cohort_of (cohort_accum t') mon = cohort_of (cohort_accum t) mon"
    using assms(1) by (simp_all add: same_distribution_def)
  have "cell_dist_snapshot (t'\<lparr>cohort_accum := cohort_accum t\<rparr>) = cell_dist_snapshot t'" by (simp add: cell_dist_snapshot_def)
  then show "cell_dist_snapshot t' = cell_dist_snapshot t" by (simp add: rest)
  have get: "om_get (filter (\<lambda>(_, used, bal). used \<noteq> 0 \<or> bal \<noteq> 0) m) mon =
      (if cohort_of m mon = (0, 0) then None else Some (cohort_of m mon))" if "om_sorted m" for m :: "(bytes, int \<times> int) omap" and mon
    using that by (auto simp: om_get_filter cohort_of_def split: option.splits)
  have "filter (\<lambda>(_, used, bal). used \<noteq> 0 \<or> bal \<noteq> 0) (cohort_accum t') = filter (\<lambda>(_, used, bal). used \<noteq> 0 \<or> bal \<noteq> 0) (cohort_accum t)"
    using get [OF s(1)] get [OF s(2)] c
    by (intro om_ext om_sorted_filter s ext) simp
  then show "cohort_snapshot t' = cohort_snapshot t" by (simp add: cohort_snapshot_def)
qed

lemma repaired_cells:
  assumes i1: "dist_inv D t1" and i2: "dist_inv D t2" and am: "\<And>k. dist_amount t2 k = dist_amount t1 k - net us k"
    and ds: "dist_deltas us counts totals cohorts"
  shows "\<exists>buckets ch. repair_buckets (zip (count_by_bucket t2) (total_capacity_by_bucket t2)) (zip counts totals) = Inr (buckets, ch) \<and>
    map fst buckets = count_by_bucket t1 \<and> map snd buckets = total_capacity_by_bucket t1"
proof -
  let ?bs = "zip (count_by_bucket t2) (total_capacity_by_bucket t2)" let ?ds = "zip counts totals"
  have len: "length (count_by_bucket t1) = 6" "length (total_capacity_by_bucket t1) = 6" "length (count_by_bucket t2) = 6"
    "length (total_capacity_by_bucket t2) = 6" "length counts = 6" "length totals = 6"
    using i1 i2 ds by (simp_all add: dist_inv_def dist_deltas_def NUM_BUCKETS_def)
  have at: "count_by_bucket t2 ! i + counts ! i = count_by_bucket t1 ! i"
    "total_capacity_by_bucket t2 ! i + totals ! i = total_capacity_by_bucket t1 ! i" if "i < 6" for i
    using am [of "Count i"] am [of "Total i"] ds that len by (simp_all add: dist_deltas_def NUM_BUCKETS_def)
  have "\<forall>i<length ?bs. 0 \<le> fst (?bs ! i) + fst (?ds ! i) \<and> 0 \<le> snd (?bs ! i) + snd (?ds ! i)"
    using i1 len by (simp add: at dist_inv_def NUM_BUCKETS_def)
  then obtain ch where "repair_buckets ?bs ?ds = Inr (map2 (\<lambda>b d. (fst b + fst d, snd b + snd d)) ?bs ?ds, ch)"
    using repair_buckets_ok [of ?bs ?ds] len by auto
  moreover have "map fst (map2 (\<lambda>b d. (fst b + fst d, snd b + snd d)) ?bs ?ds) = count_by_bucket t1"
    "map snd (map2 (\<lambda>b d. (fst b + fst d, snd b + snd d)) ?bs ?ds) = total_capacity_by_bucket t1"
    by (rule nth_equalityI; use len at in simp)+
  ultimately show ?thesis by blast
qed

lemma repaired_cohorts:
  assumes i1: "dist_inv D t1" and i2: "dist_inv D t2" and am: "\<And>k. dist_amount t2 k = dist_amount t1 k - net us k"
    and ds: "dist_deltas us counts totals cohorts"
  shows "\<exists>m. repair_cohorts cohorts (cohort_accum t2) = Inr m \<and> om_sorted m \<and> (\<forall>mon. cohort_of m mon = cohort_of (cohort_accum t1) mon)"
proof -
  have d: "distinct (map fst cohorts)"
    and at: "(case map_of cohorts mon of None \<Rightarrow> (0, 0) | Some p \<Rightarrow> p) = (net us (Used mon), net us (Balance mon))" for mon
    using ds by (simp_all add: dist_deltas_def)
  have c: "fst (cohort_of (cohort_accum t2) mon) + net us (Used mon) = fst (cohort_of (cohort_accum t1) mon)"
    "snd (cohort_of (cohort_accum t2) mon) + net us (Balance mon) = snd (cohort_of (cohort_accum t1) mon)" for mon
    using am [of "Used mon"] am [of "Balance mon"] by simp_all
  have fit: "\<And>mon. cohort_fits (cohort_of (cohort_accum t1) mon)" "\<forall>mon. cohort_fits (cohort_of (cohort_accum t2) mon)"
    "om_sorted (cohort_accum t2)"
    using i1 i2 by (simp_all add: dist_inv_def)
  have el: "u = net us (Used mon) \<and> b = net us (Balance mon)" if "map_of cohorts mon = Some (u, b)" for mon u b
    using at [of mon] that by simp
  have "cohort_fits (fst (cohort_of (cohort_accum t2) mon) + u, snd (cohort_of (cohort_accum t2) mon) + b)"
    if "(mon, u, b) \<in> set cohorts" for mon u b
    using el [OF map_of_is_SomeI [OF d that]] c [of mon] fit(1) [of mon] by simp
  then have "\<forall>(mon, u, b)\<in>set cohorts. cohort_fits (fst (cohort_of (cohort_accum t2) mon) + u, snd (cohort_of (cohort_accum t2) mon) + b)"
    by blast
  from repair_cohorts_ok [OF d fit(3,2) this] obtain m where
    m: "repair_cohorts cohorts (cohort_accum t2) = Inr m" "om_sorted m"
      "\<And>mon. cohort_of m mon = (case map_of cohorts mon of None \<Rightarrow> cohort_of (cohort_accum t2) mon
        | Some (u, b) \<Rightarrow> (fst (cohort_of (cohort_accum t2) mon) + u, snd (cohort_of (cohort_accum t2) mon) + b))" by blast
  have "cohort_of m mon = cohort_of (cohort_accum t1) mon" for mon
    using m(3) [of mon] at [of mon] c [of mon] el [of mon]
    by (cases "map_of cohorts mon") (auto simp: prod_eq_iff split: prod.splits)
  then show ?thesis using m by blast
qed

lemma cell_dist_state_roundtrip:
  assumes day: "day_format fmt parse D" and inv: "dist_inv D t" and ok: "clock_ok D (dist_clock t)"
  shows "cell_dist_from_state parse (cell_dist_to_state fmt t) = Inr t"
proof -
  have D: "snd ` set (cd_transitions t) \<subseteq> D" using ok by (simp add: clock_ok_def)
  have "e \<in> D" if "cd_last_snapshot_date t = Some e" for e
    using ok that D by (auto simp: clock_ok_def split: option.splits)
  then have "parse (fmt e) = Some e" if "cd_last_snapshot_date t = Some e" for e
    using day that by (simp add: day_format_def)
  moreover have "load_cohorts neg dup (cohort_accum t) [] = Inr (cohort_accum t)" for neg dup
    using inv by (intro load_cohorts_same) (simp_all add: dist_inv_def)
  ultimately show ?thesis using parse_transitions_fmt [OF day D]
    by (cases "cd_last_snapshot_date t") (simp_all add: cell_dist_from_state_def cell_dist_to_state_def)
qed

lemma truncate_dist:
  assumes day: "day_format fmt parse D" and i1: "dist_inv D t1" and c1: "clock_ok D (dist_clock t1)"
    and n: "cd_last_processed_block t1 = Some N" "0 \<le> N"
    and f: "follows dist_ok D (dist_clock t1) cs" and r: "run_dist month t1 cs = Inr t2"
    and ds: "dist_deltas (undos (dist_undo month) (date_of (cd_transitions t2)) cs) counts totals cohorts"
  shows "\<exists>t' changed. truncate_cell_dist_tracker_state_for_rollback (cell_dist_to_state fmt t2) N counts totals cohorts =
      Inr (cell_dist_to_state fmt t', changed) \<and> same_distribution t1 t' \<and> dist_inv D t' \<and> dist_clock t' = dist_clock t1"
proof -
  let ?st = "cell_dist_to_state fmt t2"
  note run = dist.run_law [OF r [unfolded run_dist_def] i1 c1 f]
  then have i2: "dist_inv D t2"
    and am: "\<And>k. dist_amount t2 k = dist_amount t1 k - net (undos (dist_undo month) (date_of (cd_transitions t2)) cs) k" by auto
  have clk: "filter (\<lambda>(b, _). b \<le> N) (st_date_transitions ?st) = map (\<lambda>(b, d). (b, fmt d)) (cd_transitions t1)" "cd_transitions t1 \<noteq> []"
    "clamp_date (st_last_snapshot_date ?st) (fmt (snd (last (cd_transitions t1)))) = map_option fmt (cd_last_snapshot_date t1)"
    "clamp_block (st_last_processed_block ?st) N = cd_last_processed_block t1"
    using dist.run_truncated [OF day r [unfolded run_dist_def] i1 c1 f] n(1) by (simp_all add: cell_dist_to_state_def)
  obtain buckets ch where b: "repair_buckets (zip (count_by_bucket t2) (total_capacity_by_bucket t2)) (zip counts totals) = Inr (buckets, ch)"
    "map fst buckets = count_by_bucket t1" "map snd buckets = total_capacity_by_bucket t1"
    using repaired_cells [OF i1 i2 am ds] by blast
  obtain m where m: "repair_cohorts cohorts (cohort_accum t2) = Inr m" "om_sorted m" "\<And>mon. cohort_of m mon = cohort_of (cohort_accum t1) mon"
    using repaired_cohorts [OF i1 i2 am ds] by blast
  have load: "load_cohorts neg dup (st_cohort_accum ?st) [] = Inr (cohort_accum t2)" for neg dup
    using i2 by (simp add: cell_dist_to_state_def load_cohorts_same dist_inv_def)
  let ?t = "t1\<lparr>cohort_accum := m\<rparr>"
  have accum: "cohorts = [] \<Longrightarrow> m = cohort_accum t2" using m(1) by simp
  have ne: "map (\<lambda>(b, d). (b, fmt d)) (cd_transitions t1) \<noteq> []" using clk(2) by simp
  have "\<exists>changed. truncate_cell_dist_tracker_state_for_rollback ?st N counts totals cohorts = Inr (cell_dist_to_state fmt ?t, changed)"
    using n(2) clk ne load m(1) b accum
    by (auto simp: truncate_cell_dist_tracker_state_for_rollback_def Let_def clamp_date_def clamp_block_def last_fmt
        cell_dist_to_state_def split: option.splits)
  moreover have "same_distribution t1 ?t" "dist_inv D ?t" "dist_clock ?t = dist_clock t1"
    using i1 m by (simp_all add: same_distribution_def dist_inv_def dist_clock_def)
  ultimately show ?thesis by blast
qed

text \<open>
  C22. Undoing a suffix of blocks on the cell distribution: the repair of the state stored after
  the blocks \<open>cs\<close>, given the net inverse of what \<open>cs\<close> did per size and per cohort month,
  succeeds, and the repaired state loads as the tracker as it was after \<open>bs\<close>, up to cohort
  months that hold zeros: every count, sum, date and cursor is the earlier one, every cohort
  month reads the same, and both daily snapshots are the same.
\<close>

theorem cell_dist_rollback_restores:
  assumes "day_format fmt parse (db_date ` set (bs @ cs))" and "day_chain dist_ok (bs @ cs)" and "bs \<noteq> []"
    and "run_dist month new_cell_dist bs = Inr t1" and "run_dist month t1 cs = Inr t2"
    and "dist_deltas (undos (dist_undo month) (date_of (cd_transitions t2)) cs) counts totals cohorts"
  shows "\<exists>state changed t. truncate_cell_dist_tracker_state_for_rollback (cell_dist_to_state fmt t2) (db_number (last bs))
      counts totals cohorts = Inr (state, changed) \<and>
    cell_dist_from_state parse state = Inr t \<and> same_distribution t1 t \<and>
    cell_dist_snapshot t = cell_dist_snapshot t1 \<and> cohort_snapshot t = cohort_snapshot t1"
proof -
  let ?D = "db_date ` set (bs @ cs)"
  have f: "follows dist_ok ?D (dist_clock new_cell_dist) (bs @ cs)"
    using follows_new [OF assms(2) order_refl] by (simp add: dist_inv_new)
  have c0: "clock_ok ?D (dist_clock new_cell_dist)" by (simp add: dist_inv_new)
  note run = assms(4) [unfolded run_dist_def]
  have t1: "dist_inv ?D t1" "clock_ok ?D (dist_clock t1)" "cd_last_processed_block t1 = Some (db_number (last bs))"
    using dist.run_law [OF run dist_inv_new(1) c0 follows_prefix [OF f]] assms(3) by simp_all
  have cs: "follows dist_ok ?D (dist_clock t1) cs" by (rule dist.follows_split [OF f dist_inv_new(1) c0 run])
  have "0 \<le> db_number (last bs)" using assms(2,3) by (simp add: day_chain_def)
  from truncate_dist [OF assms(1) t1 this cs assms(5,6)] obtain t changed where
    t: "truncate_cell_dist_tracker_state_for_rollback (cell_dist_to_state fmt t2) (db_number (last bs)) counts totals cohorts =
      Inr (cell_dist_to_state fmt t, changed)" "same_distribution t1 t" "dist_inv ?D t" "dist_clock t = dist_clock t1" by blast
  have "cell_dist_from_state parse (cell_dist_to_state fmt t) = Inr t"
    using cell_dist_state_roundtrip [OF assms(1) t(3)] t1(2) t(4) by simp
  moreover have "om_sorted (cohort_accum t1)" "om_sorted (cohort_accum t)" using t1(1) t(3) by (simp_all add: dist_inv_def)
  ultimately show ?thesis using t(1,2) same_distribution_snapshots [OF t(2)] by blast
qed

definition dist_sample :: "dist_event day_block list" where
  "dist_sample = [\<lparr>db_number = 0, db_date = 1, db_events = [DistCreated 6100000000, DistCohort 0 61 100]\<rparr>]"

definition dist_orphans :: "dist_event day_block list" where
  "dist_orphans = [\<lparr>db_number = 1, db_date = 40,
     db_events = [DistConsumed 6100000000, DistCreated 10000000000, DistCohort 0 (- 61) (- 100), DistCohort 1 5 7]\<rparr>]"

definition sample_month :: "date \<Rightarrow> bytes" where
  "sample_month d = (if d < 31 then [1] else [2])"

definition dist_sample_tracker :: CellDistributionTracker where
  "dist_sample_tracker = \<lparr>count_by_bucket = [1, 0, 0, 0, 0, 0], total_capacity_by_bucket = [6100000000, 0, 0, 0, 0, 0],
     cd_transitions = [(0, 1)], cd_last_snapshot_date = Some 1, cohort_accum = [([1], 61, 100)], cd_last_processed_block = Some 0\<rparr>"

definition dist_orphan_tracker :: CellDistributionTracker where
  "dist_orphan_tracker = \<lparr>count_by_bucket = [0, 1, 0, 0, 0, 0], total_capacity_by_bucket = [0, 10000000000, 0, 0, 0, 0],
     cd_transitions = [(0, 1), (1, 40)], cd_last_snapshot_date = Some 40, cohort_accum = [([1], 0, 0), ([2], 5, 7)],
     cd_last_processed_block = Some 1\<rparr>"

lemma dist_sample_run: "run_dist sample_month new_cell_dist dist_sample = Inr dist_sample_tracker"
  by code_simp

lemma dist_orphan_run: "run_dist sample_month dist_sample_tracker dist_orphans = Inr dist_orphan_tracker"
  by code_simp

lemma dist_orphan_undos:
  "undos (dist_undo sample_month) (date_of (cd_transitions dist_orphan_tracker)) dist_orphans =
   [(Count 0, 1), (Total 0, 6100000000), (Count 1, - 1), (Total 1, - 10000000000),
    (Used [1], 61), (Balance [1], 100), (Used [2], - 5), (Balance [2], - 7)]"
  by code_simp

lemma less_six: "(i::nat) < 6 \<longleftrightarrow> i = 0 \<or> i = 1 \<or> i = 2 \<or> i = 3 \<or> i = 4 \<or> i = 5"
  by auto

theorem cell_dist_rollback_restores_witness:
  "\<exists>state changed t. truncate_cell_dist_tracker_state_for_rollback (cell_dist_to_state unary_day dist_orphan_tracker) 0
      [1, - 1, 0, 0, 0, 0] [6100000000, - 10000000000, 0, 0, 0, 0] [([2], - 5, - 7), ([1], 61, 100)] = Inr (state, changed) \<and>
    cell_dist_from_state parse_unary_day state = Inr t \<and> same_distribution dist_sample_tracker t"
proof -
  have "day_format unary_day parse_unary_day (db_date ` set (dist_sample @ dist_orphans))"
    by (rule unary_day_format) (simp add: dist_sample_def dist_orphans_def)
  moreover have "day_chain dist_ok (dist_sample @ dist_orphans)" "dist_sample \<noteq> []" "db_number (last dist_sample) = 0"
    by (simp_all add: day_chain_def dist_sample_def dist_orphans_def)
  moreover have "dist_deltas (undos (dist_undo sample_month) (date_of (cd_transitions dist_orphan_tracker)) dist_orphans)
      [1, - 1, 0, 0, 0, 0] [6100000000, - 10000000000, 0, 0, 0, 0] [([2], - 5, - 7), ([1], 61, 100)]"
    unfolding dist_orphan_undos dist_deltas_def NUM_BUCKETS_def less_six by auto
  ultimately show ?thesis
    using cell_dist_rollback_restores [OF _ _ _ dist_sample_run dist_orphan_run] by metis
qed

end
