(* ===== verification/Cell_Rollback.thy ===== *)
theory Cell_Rollback
  imports Hodl Cell_Distribution
begin

text \<open>
  The cell stage of \<open>rollback_to_block\<close> in \<^verbatim>\<open>crates/ckbadger-store/src/reorg_ops.rs\<close>: the walk
  over the transactions recorded in the undo log, the full scans used when that record is
  incomplete, the index rows and the signed deltas both of them collect for the derived tables
  and the two daily trackers. Rows are decoded: an outpoint stands for its key, a marker for
  its block number, and an index row carries the fields of its key, so rows of a wrong length
  are not represented. The iteration order over a column family is that of the list.

  Sums are integers. The sums the source checks keep their checks and their widths; the ones it
  leaves unchecked (most of the address, script, reference, size and age deltas, and the data sizes per day)
  have no wrap-around here. They add at most one share per cell walked, with capacities below
  \<open>2 ^ 63\<close> into 128 bits and counts and data sizes of the cells of one chain into 32 and 64 bits. An
  output index runs below the stored count of outputs, a 16-bit number, so the conversion of the
  source that could refuse it always succeeds and is left out. The dates and hours of the removed
  blocks, which the caller reads from their headers, are the field \<open>block_date_map\<close>.
\<close>

section \<open>Rows\<close>

type_synonym outpoint = "bytes \<times> int"

record LiveCellInfo =
  capacity :: int
  lock_script_hash :: bytes
  lock_code_hash :: bytes
  lock_hash_type :: int
  lock_args :: bytes
  type_script_hash :: "bytes option"
  type_code_hash :: "bytes option"
  type_hash_type :: "int option"
  type_args :: "bytes option"
  data_size :: int
  occupied_capacity :: int
  udt_amount :: "int option"
  data_hash :: "bytes option"

record ConsumedCellMeta =
  created_at_block :: int
  consumed_at_block :: int
  consumed_by_tx :: "bytes option"

record tx_context =
  ctx_tx_hash :: bytes
  ctx_outputs_count :: int
  ctx_inputs :: "outpoint list"

datatype index_row =
    ByLock bytes int outpoint
  | ByLockCode bytes int int outpoint
  | ByType bytes int outpoint
  | ByTypeCode bytes int int outpoint
  | ByDataHash bytes int outpoint

datatype row_op =
    DeleteLive outpoint
  | PutLive outpoint int
  | DeleteConsumed outpoint
  | DeleteIndex index_row
  | PutIndex index_row

record cell_db =
  live_cells :: "(outpoint \<times> int) list"
  consumed_cells :: "(outpoint \<times> ConsumedCellMeta) list"
  cell_index :: "index_row set"

fun apply_row_op :: "row_op \<Rightarrow> cell_db \<Rightarrow> cell_db" where
  "apply_row_op (DeleteLive k) db = db\<lparr>live_cells := filter (\<lambda>r. fst r \<noteq> k) (live_cells db)\<rparr>"
| "apply_row_op (PutLive k b) db = db\<lparr>live_cells := (k, b) # filter (\<lambda>r. fst r \<noteq> k) (live_cells db)\<rparr>"
| "apply_row_op (DeleteConsumed k) db = db\<lparr>consumed_cells := filter (\<lambda>r. fst r \<noteq> k) (consumed_cells db)\<rparr>"
| "apply_row_op (DeleteIndex r) db = db\<lparr>cell_index := cell_index db - {r}\<rparr>"
| "apply_row_op (PutIndex r) db = db\<lparr>cell_index := insert r (cell_index db)\<rparr>"

definition write_rows :: "row_op list \<Rightarrow> cell_db \<Rightarrow> cell_db" where
  "write_rows ops db = fold apply_row_op ops db"

section \<open>Index rows of a cell\<close>

definition hash_type_byte :: "int \<Rightarrow> string \<Rightarrow> int res" where
  "hash_type_byte hash_type err = (if 0 \<le> hash_type \<and> hash_type \<le> 255 then Inr hash_type else Inl (Bail err))"

definition cell_code_index_keys :: "LiveCellInfo \<Rightarrow> int \<Rightarrow> outpoint \<Rightarrow> (index_row \<times> index_row option) res" where
  "cell_code_index_keys cell created outpoint =
     rbind (hash_type_byte (lock_hash_type cell) ''invalid lock hash_type for cell-by-lock-code index during rollback'') (\<lambda>lock_ht.
     let lock_code_key = ByLockCode (lock_code_hash cell) lock_ht created outpoint
     in rbind (case (type_code_hash cell, type_hash_type cell) of
           (Some code_hash, Some hash_type) \<Rightarrow>
             rbind (hash_type_byte hash_type ''invalid type hash_type for cell-by-type-code index during rollback'') (\<lambda>type_ht.
             Inr (Some (ByTypeCode code_hash type_ht created outpoint)))
         | (None, None) \<Rightarrow> Inr None
         | _ \<Rightarrow> Inl (Bail ''cell type_code_hash/type_hash_type presence mismatch during rollback'')) (\<lambda>type_code_key.
        Inr (lock_code_key, type_code_key)))"

definition option_list :: "'a option \<Rightarrow> 'a list" where
  "option_list x = (case x of None \<Rightarrow> [] | Some a \<Rightarrow> [a])"

definition data_hash_row :: "LiveCellInfo \<Rightarrow> int \<Rightarrow> outpoint \<Rightarrow> index_row list" where
  "data_hash_row cell created outpoint =
     (if \<not> 0 < data_size cell then []
      else map (\<lambda>h. ByDataHash h created outpoint) (option_list (data_hash cell)))"

definition delete_cell_data_hash_entry :: "LiveCellInfo \<Rightarrow> int \<Rightarrow> outpoint \<Rightarrow> row_op list" where
  "delete_cell_data_hash_entry cell created outpoint = map DeleteIndex (data_hash_row cell created outpoint)"

definition delete_cell_index_entries :: "LiveCellInfo \<Rightarrow> int \<Rightarrow> outpoint \<Rightarrow> row_op list res" where
  "delete_cell_index_entries cell created outpoint =
     rbind (cell_code_index_keys cell created outpoint) (\<lambda>(lock_code_key, type_code_key).
     Inr ([DeleteIndex (ByLock (lock_script_hash cell) created outpoint), DeleteIndex lock_code_key] @
          map (\<lambda>h. DeleteIndex (ByType h created outpoint)) (option_list (type_script_hash cell)) @
          map DeleteIndex (option_list type_code_key) @
          delete_cell_data_hash_entry cell created outpoint))"

definition put_cell_index_entries :: "LiveCellInfo \<Rightarrow> int \<Rightarrow> outpoint \<Rightarrow> row_op list res" where
  "put_cell_index_entries cell created outpoint =
     rbind (cell_code_index_keys cell created outpoint) (\<lambda>(lock_code_key, type_code_key).
     Inr ([PutIndex (ByLock (lock_script_hash cell) created outpoint), PutIndex lock_code_key] @
          map (\<lambda>h. PutIndex (ByType h created outpoint)) (option_list (type_script_hash cell)) @
          map PutIndex (option_list type_code_key)))"

section \<open>Deltas\<close>

type_synonym addr_delta = "int \<times> int \<times> int \<times> int"
type_synonym ScriptReferenceDelta = "int \<times> int \<times> int \<times> int \<times> int \<times> int"
type_synonym TokenHolderDelta = "int \<times> int"

record rollback_acc =
  addr_deltas :: "bytes \<rightharpoonup> addr_delta"
  script_deltas :: "bytes \<times> bool \<rightharpoonup> int \<times> int \<times> int"
  token_holder_deltas :: "bytes \<times> bytes \<rightharpoonup> TokenHolderDelta"
  script_reference_deltas :: "bytes \<times> int \<times> bool \<rightharpoonup> ScriptReferenceDelta"
  dist_count_deltas :: "int list"
  dist_capacity_deltas :: "int list"
  hodl_capacity_deltas :: "int \<rightharpoonup> int"
  date_cap_deltas :: "bytes \<rightharpoonup> int \<times> int \<times> int \<times> int \<times> int"
  hour_cap_deltas :: "bytes \<rightharpoonup> int"
  batch_ops :: "row_op list"
  tx_participants :: "(bytes \<times> bytes) set"
  rolled_back_type_hashes :: "bytes set"
  cells_removed :: nat
  cells_restored :: nat

definition empty_acc :: rollback_acc where
  "empty_acc = \<lparr>addr_deltas = Map.empty, script_deltas = Map.empty, token_holder_deltas = Map.empty,
     script_reference_deltas = Map.empty, dist_count_deltas = replicate 6 0, dist_capacity_deltas = replicate 6 0,
     hodl_capacity_deltas = Map.empty, date_cap_deltas = Map.empty, hour_cap_deltas = Map.empty, batch_ops = [],
     tx_participants = {}, rolled_back_type_hashes = {}, cells_removed = 0, cells_restored = 0\<rparr>"

text \<open>\<open>entry(k).or_insert(z)\<close>.\<close>

definition entry :: "('k \<rightharpoonup> 'v) \<Rightarrow> 'v \<Rightarrow> 'k \<Rightarrow> 'v" where
  "entry m z k = (case m k of None \<Rightarrow> z | Some v \<Rightarrow> v)"

definition fits_u256 :: "int \<Rightarrow> bool" where
  "fits_u256 x \<longleftrightarrow> 0 \<le> x \<and> x < 2 ^ 256"

fun add_addr :: "addr_delta \<Rightarrow> addr_delta \<Rightarrow> addr_delta" where
  "add_addr (a, b, c, d) (a', b', c', d') = (a + a', b + b', c + c', d + d')"

fun add_script :: "int \<times> int \<times> int \<Rightarrow> int \<times> int \<times> int \<Rightarrow> int \<times> int \<times> int" where
  "add_script (a, b, c) (a', b', c') = (a + a', b + b', c + c')"

fun add_reference :: "ScriptReferenceDelta \<Rightarrow> ScriptReferenceDelta \<Rightarrow> ScriptReferenceDelta" where
  "add_reference (a, b, c, d, e, f) (a', b', c', d', e', f') = (a + a', b + b', c + c', d + d', e + e', f + f')"

definition add_token :: "LiveCellInfo \<Rightarrow> int \<Rightarrow> (bytes \<times> bytes \<rightharpoonup> TokenHolderDelta) \<Rightarrow> (bytes \<times> bytes \<rightharpoonup> TokenHolderDelta) res" where
  "add_token cell sign m =
     (case (type_script_hash cell, udt_amount cell) of
        (Some type_hash, Some amount) \<Rightarrow>
          if 0 < amount then
            let k = (type_hash, lock_script_hash cell); e = entry m (0, 0) k
            in if 0 < sign
               then rbind (ok_or (checked fits_u256 (fst e + amount)) (Bail ''reorg holder-balance added overflow'')) (\<lambda>x.
                    Inr (m(k \<mapsto> (x, snd e))))
               else rbind (ok_or (checked fits_u256 (snd e + amount)) (Bail ''reorg holder-balance removed overflow'')) (\<lambda>x.
                    Inr (m(k \<mapsto> (fst e, x))))
          else Inr m
      | _ \<Rightarrow> Inr m)"

definition accumulate_cell_deltas :: "LiveCellInfo \<Rightarrow> int \<Rightarrow> int \<Rightarrow> rollback_acc \<Rightarrow> rollback_acc res" where
  "accumulate_cell_deltas cell sign created acc =
     (let cap = capacity cell * sign; occ = occupied_capacity cell * sign;
          i = cell_dist_size_bucket (occupied_capacity cell);
          total_d = (if sign < 0 then - 1 else 0);
          ref = (total_d, sign, if sign < 0 then cap else 0, cap, if sign < 0 then occ else 0, occ);
          lock_script = (lock_code_hash cell, False);
          lock_ref = (lock_code_hash cell, lock_hash_type cell mod 256, False);
          acc1 = acc\<lparr>dist_count_deltas := (dist_count_deltas acc)[i := dist_count_deltas acc ! i + sign],
                     dist_capacity_deltas := (dist_capacity_deltas acc)[i := dist_capacity_deltas acc ! i + occ],
                     hodl_capacity_deltas := (hodl_capacity_deltas acc)(created \<mapsto> entry (hodl_capacity_deltas acc) 0 created + cap),
                     addr_deltas := (addr_deltas acc)(lock_script_hash cell \<mapsto>
                       add_addr (entry (addr_deltas acc) (0, 0, 0, 0) (lock_script_hash cell)) (cap, occ, sign, total_d)),
                     script_deltas := (script_deltas acc)(lock_script \<mapsto>
                       add_script (entry (script_deltas acc) (0, 0, 0) lock_script) (sign, cap, occ)),
                     script_reference_deltas := (script_reference_deltas acc)(lock_ref \<mapsto>
                       add_reference (entry (script_reference_deltas acc) (0, 0, 0, 0, 0, 0) lock_ref) ref)\<rparr>;
          acc2 = (case type_code_hash cell of
                    None \<Rightarrow> acc1
                  | Some code_hash \<Rightarrow>
                      let type_script = (code_hash, True);
                          acc' = acc1\<lparr>script_deltas := (script_deltas acc1)(type_script \<mapsto>
                            add_script (entry (script_deltas acc1) (0, 0, 0) type_script) (sign, cap, occ))\<rparr>
                      in (case type_hash_type cell of
                            None \<Rightarrow> acc'
                          | Some hash_type \<Rightarrow>
                              let type_ref = (code_hash, hash_type mod 256, True)
                              in acc'\<lparr>script_reference_deltas := (script_reference_deltas acc')(type_ref \<mapsto>
                                   add_reference (entry (script_reference_deltas acc') (0, 0, 0, 0, 0, 0) type_ref) ref)\<rparr>))
      in rbind (add_token cell sign (token_holder_deltas acc2)) (\<lambda>m. Inr (acc2\<lparr>token_holder_deltas := m\<rparr>)))"

definition reference_role :: "bytes \<times> int \<times> bool \<Rightarrow> string" where
  "reference_role k = (if snd (snd k) then ''type '' else ''lock '')"

definition reverse_reference ::
    "bytes \<times> int \<times> bool \<Rightarrow> LiveCellInfo \<Rightarrow> (bytes \<times> int \<times> bool \<rightharpoonup> ScriptReferenceDelta) \<Rightarrow>
     (bytes \<times> int \<times> bool \<rightharpoonup> ScriptReferenceDelta) res" where
  "reverse_reference k cell m =
     (case entry m (0, 0, 0, 0, 0, 0) k of (a, b, c, d, e, f) \<Rightarrow>
        rbind (ok_or (checked fits_i64 (a - 1)) (Bail (reference_role k @ ''script created-cell count delta overflow during rollback''))) (\<lambda>a'.
        rbind (ok_or (checked fits_i128 (c - capacity cell)) (Bail (reference_role k @ ''script created capacity delta overflow during rollback''))) (\<lambda>c'.
        rbind (ok_or (checked fits_i128 (e - occupied_capacity cell)) (Bail (reference_role k @ ''script created used delta overflow during rollback''))) (\<lambda>e'.
        Inr (m(k \<mapsto> (a', b, c', d, e', f)))))))"

definition reverse_created_consumed_cell_totals :: "LiveCellInfo \<Rightarrow> rollback_acc \<Rightarrow> rollback_acc res" where
  "reverse_created_consumed_cell_totals cell acc =
     (case entry (addr_deltas acc) (0, 0, 0, 0) (lock_script_hash cell) of (a, b, c, d) \<Rightarrow>
        rbind (ok_or (checked fits_i64 (d - 1)) (Bail ''address created-cell count delta overflow during rollback'')) (\<lambda>d'.
        rbind (reverse_reference (lock_code_hash cell, lock_hash_type cell mod 256, False) cell (script_reference_deltas acc)) (\<lambda>m.
        rbind (case (type_code_hash cell, type_hash_type cell) of
                 (Some code_hash, Some hash_type) \<Rightarrow> reverse_reference (code_hash, hash_type mod 256, True) cell m
               | _ \<Rightarrow> Inr m) (\<lambda>m'.
        Inr (acc\<lparr>addr_deltas := (addr_deltas acc)(lock_script_hash cell \<mapsto> (a, b, c, d')),
                 script_reference_deltas := m'\<rparr>)))))"

text \<open>
  The dates and hours of the removed blocks and the hashes of their cellbase transactions,
  which an earlier stage collects.
\<close>

record rollback_env =
  rollback_to :: int
  cells_store :: "outpoint \<Rightarrow> LiveCellInfo option"
  block_date_map :: "int \<Rightarrow> (bytes \<times> bytes) option"
  cellbase_tx_hashes :: "bytes set"

definition accumulate_stats_capacity_delta ::
    "rollback_env \<Rightarrow> LiveCellInfo \<Rightarrow> bytes \<Rightarrow> int \<Rightarrow> int option \<Rightarrow> rollback_acc \<Rightarrow> rollback_acc" where
  "accumulate_stats_capacity_delta env cell tx_hash created consumed acc =
     (let acc1 = (case block_date_map env created of
            None \<Rightarrow> acc
          | Some (date_str, hour_str) \<Rightarrow>
              (case entry (date_cap_deltas acc) (0, 0, 0, 0, 0) date_str of (a, b, c, d, e) \<Rightarrow>
                 let other = tx_hash \<notin> cellbase_tx_hashes env
                 in acc\<lparr>date_cap_deltas := (date_cap_deltas acc)(date_str \<mapsto>
                          (if other then a + capacity cell else a, b + occupied_capacity cell, c, d + data_size cell, e)),
                        hour_cap_deltas := (if other
                          then (hour_cap_deltas acc)(hour_str \<mapsto> entry (hour_cap_deltas acc) 0 hour_str + capacity cell)
                          else hour_cap_deltas acc)\<rparr>))
      in case consumed of
           None \<Rightarrow> acc1
         | Some consumed_block \<Rightarrow>
             (case block_date_map env consumed_block of
                None \<Rightarrow> acc1
              | Some (date_str, _) \<Rightarrow>
                  (case entry (date_cap_deltas acc1) (0, 0, 0, 0, 0) date_str of (a, b, c, d, e) \<Rightarrow>
                     acc1\<lparr>date_cap_deltas := (date_cap_deltas acc1)(date_str \<mapsto>
                       (a, b, c + occupied_capacity cell, d, e + data_size cell))\<rparr>)))"

section \<open>The two walks\<close>

definition stage :: "row_op list \<Rightarrow> rollback_acc \<Rightarrow> rollback_acc" where
  "stage ops acc = acc\<lparr>batch_ops := batch_ops acc @ ops\<rparr>"

fun fallback_live :: "rollback_env \<Rightarrow> (outpoint \<times> int) list \<Rightarrow> rollback_acc \<Rightarrow> rollback_acc res" where
  "fallback_live env [] acc = Inr acc"
| "fallback_live env ((outpoint, created) # rows) acc =
     rbind (ok_or (cells_store env outpoint) (Bail ''missing canonical cell for live marker'')) (\<lambda>cell.
     if rollback_to env < created then
       rbind (delete_cell_index_entries cell created outpoint) (\<lambda>dels.
       rbind (accumulate_cell_deltas cell (- 1) created
                ((stage (DeleteLive outpoint # dels) acc)\<lparr>cells_removed := cells_removed acc + 1\<rparr>)) (\<lambda>acc'.
       fallback_live env rows (accumulate_stats_capacity_delta env cell (fst outpoint) created None acc')))
     else fallback_live env rows acc)"

definition restore_or_drop :: "rollback_env \<Rightarrow> LiveCellInfo \<Rightarrow> outpoint \<Rightarrow> int \<Rightarrow> rollback_acc \<Rightarrow> rollback_acc res" where
  "restore_or_drop env cell outpoint created acc =
     (if created \<le> rollback_to env then
        rbind (put_cell_index_entries cell created outpoint) (\<lambda>puts.
        accumulate_cell_deltas cell 1 created
          ((stage (PutLive outpoint created # puts) acc)\<lparr>cells_restored := cells_restored acc + 1\<rparr>))
      else reverse_created_consumed_cell_totals cell (stage (delete_cell_data_hash_entry cell created outpoint) acc))"

fun fallback_consumed :: "rollback_env \<Rightarrow> (outpoint \<times> ConsumedCellMeta) list \<Rightarrow> rollback_acc \<Rightarrow> rollback_acc res" where
  "fallback_consumed env [] acc = Inr acc"
| "fallback_consumed env ((outpoint, meta) # rows) acc =
     (if consumed_at_block meta \<le> rollback_to env then fallback_consumed env rows acc
      else rbind (ok_or (cells_store env outpoint) (Bail ''missing canonical cell for consumed outpoint during rollback fallback'')) (\<lambda>cell.
           rbind (restore_or_drop env cell outpoint (created_at_block meta)
                    (accumulate_stats_capacity_delta env cell (fst outpoint) (created_at_block meta) (Some (consumed_at_block meta))
                      (stage [DeleteConsumed outpoint] acc))) (\<lambda>acc'.
           fallback_consumed env rows acc')))"

definition rollback_cells_fallback :: "rollback_env \<Rightarrow> cell_db \<Rightarrow> rollback_acc res" where
  "rollback_cells_fallback env db =
     rbind (fallback_live env (live_cells db) empty_acc) (fallback_consumed env (consumed_cells db))"

fun context_outputs :: "rollback_env \<Rightarrow> cell_db \<Rightarrow> bytes \<Rightarrow> int list \<Rightarrow> rollback_acc \<Rightarrow> rollback_acc res" where
  "context_outputs env db tx_hash [] acc = Inr acc"
| "context_outputs env db tx_hash (i # is) acc =
     (let outpoint = (tx_hash, i)
      in rbind (case map_of (live_cells db) outpoint of
           None \<Rightarrow> Inr acc
         | Some created \<Rightarrow>
             rbind (ok_or (cells_store env outpoint) (Bail ''missing canonical cell for live marker'')) (\<lambda>cell.
             let acc1 = (stage [DeleteLive outpoint] acc)
                   \<lparr>tx_participants := insert (tx_hash, lock_script_hash cell) (tx_participants acc),
                    rolled_back_type_hashes := set (option_list (type_script_hash cell)) \<union> rolled_back_type_hashes acc\<rparr>
             in rbind (delete_cell_index_entries cell created outpoint) (\<lambda>dels.
                rbind (accumulate_cell_deltas cell (- 1) created
                         ((stage dels acc1)\<lparr>cells_removed := cells_removed acc + 1\<rparr>)) (\<lambda>acc2.
                Inr (accumulate_stats_capacity_delta env cell tx_hash created None acc2))))) (\<lambda>acc'.
         context_outputs env db tx_hash is (stage [DeleteConsumed outpoint] acc')))"

fun context_inputs :: "rollback_env \<Rightarrow> cell_db \<Rightarrow> bytes \<Rightarrow> outpoint list \<Rightarrow> rollback_acc \<Rightarrow> rollback_acc res" where
  "context_inputs env db tx_hash [] acc = Inr acc"
| "context_inputs env db tx_hash (input # inputs) acc =
     rbind (ensure (length (fst input) = 32) (Bail ''invalid tx-context input hash length during rollback'')) (\<lambda>_.
     if snd input < 0 then
       (if snd input = - 1 \<and> list_all (\<lambda>b. b = 0) (fst input) then context_inputs env db tx_hash inputs acc
        else Inl (Bail ''invalid negative tx-context input output_index during rollback''))
     else
       rbind (case map_of (consumed_cells db) input of
           Some meta \<Rightarrow>
             rbind (ok_or (cells_store env input) (Bail ''missing canonical cell for consumed outpoint'')) (\<lambda>cell.
             rbind (ensure (\<not> consumed_at_block meta \<le> rollback_to env) (Bail ''invalid tx-context consumed block during rollback'')) (\<lambda>_.
             rbind (ensure (case consumed_by_tx meta of None \<Rightarrow> True | Some t \<Rightarrow> t = tx_hash)
                      (Bail ''tx-context consumed_by_tx mismatch during rollback'')) (\<lambda>_.
             let created = created_at_block meta;
                 parts = insert (tx_hash, lock_script_hash cell) (tx_participants acc);
                 acc1 = (stage [DeleteConsumed input] acc)
                   \<lparr>tx_participants := (if rollback_to env < created then insert (fst input, lock_script_hash cell) parts else parts),
                    rolled_back_type_hashes := set (option_list (type_script_hash cell)) \<union> rolled_back_type_hashes acc\<rparr>
             in restore_or_drop env cell input created
                  (accumulate_stats_capacity_delta env cell (fst input) created (Some (consumed_at_block meta)) acc1))))
         | None \<Rightarrow>
             rbind (ensure (map_of (live_cells db) input \<noteq> None) (Bail ''missing consumed/live input during tx-context rollback'')) (\<lambda>_.
             Inr acc)) (\<lambda>acc'.
       context_inputs env db tx_hash inputs acc'))"

fun rollback_contexts :: "rollback_env \<Rightarrow> cell_db \<Rightarrow> tx_context list \<Rightarrow> rollback_acc \<Rightarrow> rollback_acc res" where
  "rollback_contexts env db [] acc = Inr acc"
| "rollback_contexts env db (ctx # ctxs) acc =
     rbind (ensure (length (ctx_tx_hash ctx) = 32) (Bail ''invalid tx-context hash length during rollback'')) (\<lambda>_.
     rbind (ensure (\<not> ctx_outputs_count ctx < 0) (Bail ''invalid tx-context outputs_count during rollback'')) (\<lambda>_.
     rbind (context_outputs env db (ctx_tx_hash ctx) (map int [0..<nat (ctx_outputs_count ctx)]) acc) (\<lambda>acc1.
     rbind (context_inputs env db (ctx_tx_hash ctx) (ctx_inputs ctx) acc1) (\<lambda>acc2.
     rollback_contexts env db ctxs acc2))))"

definition rollback_cells_from_contexts :: "rollback_env \<Rightarrow> cell_db \<Rightarrow> tx_context list \<Rightarrow> rollback_acc res" where
  "rollback_cells_from_contexts env db ctxs = rollback_contexts env db ctxs empty_acc"

text \<open>The recorded transactions are used when there is one for each transaction removed.\<close>

definition rollback_cells :: "rollback_env \<Rightarrow> cell_db \<Rightarrow> tx_context list \<Rightarrow> nat \<Rightarrow> rollback_acc res" where
  "rollback_cells env db ctxs txs_removed =
     (if 0 < length ctxs \<and> length ctxs = txs_removed then rollback_cells_from_contexts env db ctxs
      else rollback_cells_fallback env db)"

end
