(* ===== verification/Cell_Deltas.thy ===== *)
theory Cell_Deltas
  imports Cell_Rollback
begin

text \<open>
  The amounts behind the deltas of the cell rollback, read uniformly by key, and what one cell
  contributes to each of them: the lemmas here say that \<open>accumulate_cell_deltas\<close>,
  \<open>reverse_created_consumed_cell_totals\<close> and the closure \<open>accumulate_stats_capacity_delta\<close> add
  exactly the share of the cell and leave the rest of the accumulator alone.
\<close>

section \<open>Amounts\<close>

datatype delta_key =
    AddrBalance bytes | AddrUsed bytes | AddrLive bytes | AddrTotal bytes
  | ScriptLive "bytes \<times> bool" | ScriptCapacity "bytes \<times> bool" | ScriptUsed "bytes \<times> bool"
  | RefCells "bytes \<times> int \<times> bool" | RefLive "bytes \<times> int \<times> bool" | RefCapacity "bytes \<times> int \<times> bool"
  | RefOwned "bytes \<times> int \<times> bool" | RefUsed "bytes \<times> int \<times> bool" | RefKnowledge "bytes \<times> int \<times> bool"
  | TokenAdded "bytes \<times> bytes" | TokenRemoved "bytes \<times> bytes"
  | SizeCount nat | SizeCapacity nat | HodlCapacity int
  | DateTransferred bytes | DateCreated bytes | DateConsumed bytes | DateDataCreated bytes | DateDataConsumed bytes
  | HourTransferred bytes

fun acc_amount :: "rollback_acc \<Rightarrow> delta_key \<Rightarrow> int" where
  "acc_amount acc (AddrBalance l) = fst (entry (addr_deltas acc) (0, 0, 0, 0) l)"
| "acc_amount acc (AddrUsed l) = fst (snd (entry (addr_deltas acc) (0, 0, 0, 0) l))"
| "acc_amount acc (AddrLive l) = fst (snd (snd (entry (addr_deltas acc) (0, 0, 0, 0) l)))"
| "acc_amount acc (AddrTotal l) = snd (snd (snd (entry (addr_deltas acc) (0, 0, 0, 0) l)))"
| "acc_amount acc (ScriptLive k) = fst (entry (script_deltas acc) (0, 0, 0) k)"
| "acc_amount acc (ScriptCapacity k) = fst (snd (entry (script_deltas acc) (0, 0, 0) k))"
| "acc_amount acc (ScriptUsed k) = snd (snd (entry (script_deltas acc) (0, 0, 0) k))"
| "acc_amount acc (RefCells k) = fst (entry (script_reference_deltas acc) (0, 0, 0, 0, 0, 0) k)"
| "acc_amount acc (RefLive k) = fst (snd (entry (script_reference_deltas acc) (0, 0, 0, 0, 0, 0) k))"
| "acc_amount acc (RefCapacity k) = fst (snd (snd (entry (script_reference_deltas acc) (0, 0, 0, 0, 0, 0) k)))"
| "acc_amount acc (RefOwned k) = fst (snd (snd (snd (entry (script_reference_deltas acc) (0, 0, 0, 0, 0, 0) k))))"
| "acc_amount acc (RefUsed k) = fst (snd (snd (snd (snd (entry (script_reference_deltas acc) (0, 0, 0, 0, 0, 0) k)))))"
| "acc_amount acc (RefKnowledge k) = snd (snd (snd (snd (snd (entry (script_reference_deltas acc) (0, 0, 0, 0, 0, 0) k)))))"
| "acc_amount acc (TokenAdded k) = fst (entry (token_holder_deltas acc) (0, 0) k)"
| "acc_amount acc (TokenRemoved k) = snd (entry (token_holder_deltas acc) (0, 0) k)"
| "acc_amount acc (SizeCount i) = (if i < length (dist_count_deltas acc) then dist_count_deltas acc ! i else 0)"
| "acc_amount acc (SizeCapacity i) = (if i < length (dist_capacity_deltas acc) then dist_capacity_deltas acc ! i else 0)"
| "acc_amount acc (HodlCapacity b) = entry (hodl_capacity_deltas acc) 0 b"
| "acc_amount acc (DateTransferred d) = fst (entry (date_cap_deltas acc) (0, 0, 0, 0, 0) d)"
| "acc_amount acc (DateCreated d) = fst (snd (entry (date_cap_deltas acc) (0, 0, 0, 0, 0) d))"
| "acc_amount acc (DateConsumed d) = fst (snd (snd (entry (date_cap_deltas acc) (0, 0, 0, 0, 0) d)))"
| "acc_amount acc (DateDataCreated d) = fst (snd (snd (snd (entry (date_cap_deltas acc) (0, 0, 0, 0, 0) d))))"
| "acc_amount acc (DateDataConsumed d) = snd (snd (snd (snd (entry (date_cap_deltas acc) (0, 0, 0, 0, 0) d))))"
| "acc_amount acc (HourTransferred h) = entry (hour_cap_deltas acc) 0 h"

text \<open>The references of a cell: its lock script and, with both its parts, its type script.\<close>

definition cell_refs :: "LiveCellInfo \<Rightarrow> (bytes \<times> int \<times> bool) list" where
  "cell_refs c = (lock_code_hash c, lock_hash_type c mod 256, False) #
     (case (type_code_hash c, type_hash_type c) of (Some h, Some t) \<Rightarrow> [(h, t mod 256, True)] | _ \<Rightarrow> [])"

definition cell_scripts :: "LiveCellInfo \<Rightarrow> (bytes \<times> bool) list" where
  "cell_scripts c = (lock_code_hash c, False) # map (\<lambda>h. (h, True)) (option_list (type_code_hash c))"

definition ref_live :: "LiveCellInfo \<Rightarrow> bytes \<times> int \<times> bool \<Rightarrow> (delta_key \<times> int) list" where
  "ref_live c k = [(RefLive k, 1), (RefOwned k, capacity c), (RefKnowledge k, occupied_capacity c)]"

definition ref_created :: "LiveCellInfo \<Rightarrow> bytes \<times> int \<times> bool \<Rightarrow> (delta_key \<times> int) list" where
  "ref_created c k = [(RefCells k, 1), (RefCapacity k, capacity c), (RefUsed k, occupied_capacity c)]"

definition script_live :: "LiveCellInfo \<Rightarrow> bytes \<times> bool \<Rightarrow> (delta_key \<times> int) list" where
  "script_live c k = [(ScriptLive k, 1), (ScriptCapacity k, capacity c), (ScriptUsed k, occupied_capacity c)]"

text \<open>What a live cell adds to the amounts, and what its creation adds for good.\<close>

definition live_share :: "LiveCellInfo \<Rightarrow> int \<Rightarrow> (delta_key \<times> int) list" where
  "live_share c created =
     [(AddrBalance (lock_script_hash c), capacity c), (AddrUsed (lock_script_hash c), occupied_capacity c),
      (AddrLive (lock_script_hash c), 1), (SizeCount (size_bucket (occupied_capacity c)), 1),
      (SizeCapacity (size_bucket (occupied_capacity c)), occupied_capacity c), (HodlCapacity created, capacity c)] @
     concat (map (script_live c) (cell_scripts c)) @ concat (map (ref_live c) (cell_refs c))"

definition created_share :: "LiveCellInfo \<Rightarrow> (delta_key \<times> int) list" where
  "created_share c = (AddrTotal (lock_script_hash c), 1) # concat (map (ref_created c) (cell_refs c))"

definition token_share :: "(bytes \<times> bytes \<Rightarrow> delta_key) \<Rightarrow> LiveCellInfo \<Rightarrow> (delta_key \<times> int) list" where
  "token_share key c =
     (case (type_script_hash c, udt_amount c) of
        (Some h, Some a) \<Rightarrow> if 0 < a then [(key (h, lock_script_hash c), a)] else []
      | _ \<Rightarrow> [])"

definition negated :: "('k \<times> int) list \<Rightarrow> ('k \<times> int) list" where
  "negated = map (\<lambda>(k, a). (k, - a))"

lemma net_negated [simp]: "net (negated ds) k = - net ds k"
  by (induction ds) (auto simp: negated_def)

lemma entry_upd [simp]: "entry (m(k \<mapsto> v)) z k' = (if k' = k then v else entry m z k')"
  by (simp add: entry_def)

lemma bucket_functions_agree: "cell_dist_size_bucket occ = size_bucket occ"
  by (simp add: cell_dist_size_bucket_def size_bucket_def CKB_def)

lemma add_apply:
  "add_addr p q = (case p of (a, b, c, d) \<Rightarrow> case q of (a', b', c', d') \<Rightarrow> (a + a', b + b', c + c', d + d'))"
  "add_script u v = (case u of (a, b, c) \<Rightarrow> case v of (a', b', c') \<Rightarrow> (a + a', b + b', c + c'))"
  "add_reference x y = (case x of (a, b, c, d, e, f) \<Rightarrow> case y of (a', b', c', d', e', f') \<Rightarrow>
     (a + a', b + b', c + c', d + d', e + e', f + f'))"
  by (auto split: prod.splits)

definition acc_sizes :: "rollback_acc \<Rightarrow> bool" where
  "acc_sizes acc \<longleftrightarrow> length (dist_count_deltas acc) = 6 \<and> length (dist_capacity_deltas acc) = 6"

lemma size_bucket_less6: "size_bucket occ < 6"
  using size_bucket_less [of occ] by (simp add: NUM_BUCKETS_def)

lemma add_token_amount:
  assumes "add_token c s m = Inr m'" and "s = 1 \<or> s = - 1"
  shows "fst (entry m' (0, 0) k) = fst (entry m (0, 0) k) + (if s = 1 then net (token_share TokenAdded c) (TokenAdded k) else 0)"
    "snd (entry m' (0, 0) k) = snd (entry m (0, 0) k) + (if s = 1 then 0 else net (token_share TokenRemoved c) (TokenRemoved k))"
  using assms by (auto simp: add_token_def token_share_def Let_def res_simps split: option.splits if_splits)

lemma token_share_other:
  "(\<And>x. k \<noteq> key x) \<Longrightarrow> net (token_share key c) k = 0"
  by (auto simp: token_share_def split: option.splits)

definition cell_share :: "LiveCellInfo \<Rightarrow> int \<Rightarrow> int \<Rightarrow> (delta_key \<times> int) list" where
  "cell_share c s created =
     (if s = 1 then live_share c created @ token_share TokenAdded c
      else negated (live_share c created) @ negated (created_share c) @ token_share TokenRemoved c)"

definition keeps_rest :: "rollback_acc \<Rightarrow> rollback_acc \<Rightarrow> bool" where
  "keeps_rest acc acc' \<longleftrightarrow> batch_ops acc' = batch_ops acc \<and> tx_participants acc' = tx_participants acc \<and>
     rolled_back_type_hashes acc' = rolled_back_type_hashes acc \<and> cells_removed acc' = cells_removed acc \<and>
     cells_restored acc' = cells_restored acc"

lemmas share_defs = cell_share_def live_share_def created_share_def cell_refs_def cell_scripts_def ref_live_def ref_created_def
  script_live_def option_list_def

lemma accumulate_rest:
  "accumulate_cell_deltas c s created acc = Inr acc' \<Longrightarrow> acc_sizes acc \<Longrightarrow> acc_sizes acc' \<and> keeps_rest acc acc'"
  by (auto simp: accumulate_cell_deltas_def Let_def res_simps keeps_rest_def acc_sizes_def split: option.splits)

definition add_entry :: "('v \<Rightarrow> 'v \<Rightarrow> 'v) \<Rightarrow> 'v \<Rightarrow> 'v \<Rightarrow> 'k \<Rightarrow> ('k \<rightharpoonup> 'v) \<Rightarrow> ('k \<rightharpoonup> 'v)" where
  "add_entry add z v k m = m(k \<mapsto> add (entry m z k) v)"

definition count_key :: "'k list \<Rightarrow> 'k \<Rightarrow> int" where
  "count_key ks k = (\<Sum>k'\<leftarrow>ks. if k' = k then 1 else 0)"

lemma count_key_simps [simp]: "count_key [] k = 0" "count_key (k' # ks) k = (if k' = k then 1 else 0) + count_key ks k"
  by (simp_all add: count_key_def)

lemma fold_add_entry:
  assumes "\<And>x y. p (add x y) = p x + p y"
  shows "p (entry (fold (add_entry add z v) ks m) z k) = p (entry m z k) + count_key ks k * (p v :: int)"
  using assms by (induction ks arbitrary: m) (auto simp: add_entry_def algebra_simps)

lemma accumulate_fields:
  assumes "accumulate_cell_deltas c s created acc = Inr acc'"
  shows "addr_deltas acc' = add_entry add_addr (0, 0, 0, 0)
      (capacity c * s, occupied_capacity c * s, s, if s < 0 then - 1 else 0) (lock_script_hash c) (addr_deltas acc)"
    "script_deltas acc' = fold (add_entry add_script (0, 0, 0) (s, capacity c * s, occupied_capacity c * s)) (cell_scripts c) (script_deltas acc)"
    "script_reference_deltas acc' = fold (add_entry add_reference (0, 0, 0, 0, 0, 0)
       (if s < 0 then - 1 else 0, s, if s < 0 then capacity c * s else 0, capacity c * s,
        if s < 0 then occupied_capacity c * s else 0, occupied_capacity c * s)) (cell_refs c) (script_reference_deltas acc)"
    "dist_count_deltas acc' = (let i = size_bucket (occupied_capacity c) in (dist_count_deltas acc)[i := dist_count_deltas acc ! i + s])"
    "dist_capacity_deltas acc' = (let i = size_bucket (occupied_capacity c)
       in (dist_capacity_deltas acc)[i := dist_capacity_deltas acc ! i + occupied_capacity c * s])"
    "hodl_capacity_deltas acc' = add_entry (+) 0 (capacity c * s) created (hodl_capacity_deltas acc)"
    "date_cap_deltas acc' = date_cap_deltas acc" "hour_cap_deltas acc' = hour_cap_deltas acc"
    "add_token c s (token_holder_deltas acc) = Inr (token_holder_deltas acc')"
  using assms
  by (auto simp: accumulate_cell_deltas_def Let_def res_simps add_entry_def cell_scripts_def cell_refs_def option_list_def
      bucket_functions_agree split: option.splits)

lemma net_concat_script: "net (concat (map (script_live c) ks)) k =
  (case k of ScriptLive x \<Rightarrow> count_key ks x | ScriptCapacity x \<Rightarrow> count_key ks x * capacity c
   | ScriptUsed x \<Rightarrow> count_key ks x * occupied_capacity c | _ \<Rightarrow> 0)"
  by (induction ks; cases k) (simp_all add: script_live_def algebra_simps)

lemma net_concat_ref_live: "net (concat (map (ref_live c) ks)) k =
  (case k of RefLive x \<Rightarrow> count_key ks x | RefOwned x \<Rightarrow> count_key ks x * capacity c
   | RefKnowledge x \<Rightarrow> count_key ks x * occupied_capacity c | _ \<Rightarrow> 0)"
  by (induction ks; cases k) (simp_all add: ref_live_def algebra_simps)

lemma net_concat_ref_created: "net (concat (map (ref_created c) ks)) k =
  (case k of RefCells x \<Rightarrow> count_key ks x | RefCapacity x \<Rightarrow> count_key ks x * capacity c
   | RefUsed x \<Rightarrow> count_key ks x * occupied_capacity c | _ \<Rightarrow> 0)"
  by (induction ks; cases k) (simp_all add: ref_created_def algebra_simps)

lemmas net_shares = net_concat_script net_concat_ref_live net_concat_ref_created

lemma fold_script:
  "fst (entry (fold (add_entry add_script (0, 0, 0) (x0, x1, x2)) ks m) (0, 0, 0) k) =
    (fst (entry m (0, 0, 0) k)) + count_key ks k * x0"
  "fst (snd (entry (fold (add_entry add_script (0, 0, 0) (x0, x1, x2)) ks m) (0, 0, 0) k)) =
    (fst (snd (entry m (0, 0, 0) k))) + count_key ks k * x1"
  "snd (snd (entry (fold (add_entry add_script (0, 0, 0) (x0, x1, x2)) ks m) (0, 0, 0) k)) =
    (snd (snd (entry m (0, 0, 0) k))) + count_key ks k * x2"
  by (induction ks arbitrary: m; auto simp: add_entry_def add_apply algebra_simps case_prod_beta)+

lemma fold_reference:
  "fst (entry (fold (add_entry add_reference (0, 0, 0, 0, 0, 0) (x0, x1, x2, x3, x4, x5)) ks m) (0, 0, 0, 0, 0, 0) k) =
    (fst (entry m (0, 0, 0, 0, 0, 0) k)) + count_key ks k * x0"
  "fst (snd (entry (fold (add_entry add_reference (0, 0, 0, 0, 0, 0) (x0, x1, x2, x3, x4, x5)) ks m) (0, 0, 0, 0, 0, 0) k)) =
    (fst (snd (entry m (0, 0, 0, 0, 0, 0) k))) + count_key ks k * x1"
  "fst (snd (snd (entry (fold (add_entry add_reference (0, 0, 0, 0, 0, 0) (x0, x1, x2, x3, x4, x5)) ks m) (0, 0, 0, 0, 0, 0) k))) =
    (fst (snd (snd (entry m (0, 0, 0, 0, 0, 0) k)))) + count_key ks k * x2"
  "fst (snd (snd (snd (entry (fold (add_entry add_reference (0, 0, 0, 0, 0, 0) (x0, x1, x2, x3, x4, x5)) ks m) (0, 0, 0, 0, 0, 0) k)))) =
    (fst (snd (snd (snd (entry m (0, 0, 0, 0, 0, 0) k))))) + count_key ks k * x3"
  "fst (snd (snd (snd (snd (entry (fold (add_entry add_reference (0, 0, 0, 0, 0, 0) (x0, x1, x2, x3, x4, x5)) ks m) (0, 0, 0, 0, 0, 0) k))))) =
    (fst (snd (snd (snd (snd (entry m (0, 0, 0, 0, 0, 0) k)))))) + count_key ks k * x4"
  "snd (snd (snd (snd (snd (entry (fold (add_entry add_reference (0, 0, 0, 0, 0, 0) (x0, x1, x2, x3, x4, x5)) ks m) (0, 0, 0, 0, 0, 0) k))))) =
    (snd (snd (snd (snd (snd (entry m (0, 0, 0, 0, 0, 0) k)))))) + count_key ks k * x5"
  by (induction ks arbitrary: m; auto simp: add_entry_def add_apply algebra_simps case_prod_beta)+

lemma entry_add_addr:
  "(fst (entry (add_entry add_addr (0, 0, 0, 0) (x0, x1, x2, x3) l m) (0, 0, 0, 0) k)) =
    (fst (entry m (0, 0, 0, 0) k)) + (if k = l then x0 else 0)"
  "(fst (snd (entry (add_entry add_addr (0, 0, 0, 0) (x0, x1, x2, x3) l m) (0, 0, 0, 0) k))) =
    (fst (snd (entry m (0, 0, 0, 0) k))) + (if k = l then x1 else 0)"
  "(fst (snd (snd (entry (add_entry add_addr (0, 0, 0, 0) (x0, x1, x2, x3) l m) (0, 0, 0, 0) k)))) =
    (fst (snd (snd (entry m (0, 0, 0, 0) k)))) + (if k = l then x2 else 0)"
  "(snd (snd (snd (entry (add_entry add_addr (0, 0, 0, 0) (x0, x1, x2, x3) l m) (0, 0, 0, 0) k)))) =
    (snd (snd (snd (entry m (0, 0, 0, 0) k)))) + (if k = l then x3 else 0)"
  by (auto simp: add_entry_def add_apply case_prod_beta)

lemma accumulate_amount:
  assumes r: "accumulate_cell_deltas c s created acc = Inr acc'" and s: "s = 1 \<or> s = - 1" and l: "acc_sizes acc"
  shows "acc_amount acc' k = acc_amount acc k + net (cell_share c s created) k"
proof -
  have i: "size_bucket (occupied_capacity c) < length (dist_count_deltas acc)"
    "size_bucket (occupied_capacity c) < length (dist_capacity_deltas acc)"
    using l size_bucket_less6 by (simp_all add: acc_sizes_def)
  note f = accumulate_fields [OF r] note t = add_token_amount [OF f(9) s]
  note g = cell_share_def live_share_def created_share_def net_shares token_share_other fold_script fold_reference
    entry_add_addr f(1-8) t
  from s show ?thesis
  proof
    assume "s = 1"
    then show ?thesis using i by (cases k) (simp_all add: g add_entry_def [of "(+)"] Let_def nth_list_update)
  next
    assume "s = - 1"
    then show ?thesis using i by (cases k) (simp_all add: g add_entry_def [of "(+)"] Let_def nth_list_update)
  qed
qed

text \<open>Reversing a cell that was created and consumed within the removed blocks.\<close>

lemma reverse_reference_eq:
  "reverse_reference k c m = Inr m' \<Longrightarrow> m' = add_entry add_reference (0, 0, 0, 0, 0, 0) (- 1, 0, - capacity c, 0, - occupied_capacity c, 0) k m"
  by (auto simp: reverse_reference_def add_entry_def add_apply res_simps split: prod.splits)

lemma reverse_fields:
  assumes r: "reverse_created_consumed_cell_totals c acc = Inr acc'"
  shows "addr_deltas acc' = add_entry add_addr (0, 0, 0, 0) (0, 0, 0, - 1) (lock_script_hash c) (addr_deltas acc)"
    "script_reference_deltas acc' = fold (add_entry add_reference (0, 0, 0, 0, 0, 0)
       (- 1, 0, - capacity c, 0, - occupied_capacity c, 0)) (cell_refs c) (script_reference_deltas acc)"
    "acc' = acc\<lparr>addr_deltas := addr_deltas acc', script_reference_deltas := script_reference_deltas acc'\<rparr>"
proof -
  obtain x1 x2 x3 x4 where e: "entry (addr_deltas acc) (0, 0, 0, 0) (lock_script_hash c) = (x1, x2, x3, x4)" by (metis prod_cases4)
  let ?add = "add_entry add_reference (0, 0, 0, 0, 0, 0) (- 1, 0, - capacity c, 0, - occupied_capacity c, 0)"
  let ?k = "(lock_code_hash c, lock_hash_type c mod 256, False)"
  from r obtain m m' where
    m: "reverse_reference ?k c (script_reference_deltas acc) = Inr m"
    and m': "(case (type_code_hash c, type_hash_type c) of (Some h, Some t) \<Rightarrow> reverse_reference (h, t mod 256, True) c m | _ \<Rightarrow> Inr m) = Inr m'"
    and eq: "acc' = acc\<lparr>addr_deltas := (addr_deltas acc)(lock_script_hash c \<mapsto> (x1, x2, x3, x4 - 1)), script_reference_deltas := m'\<rparr>"
    by (simp add: reverse_created_consumed_cell_totals_def e res_simps) blast
  have "m' = fold ?add (cell_refs c) (script_reference_deltas acc)"
    using m' reverse_reference_eq [OF m]
    by (cases "type_code_hash c"; cases "type_hash_type c") (auto simp: cell_refs_def dest: reverse_reference_eq)
  then show "addr_deltas acc' = add_entry add_addr (0, 0, 0, 0) (0, 0, 0, - 1) (lock_script_hash c) (addr_deltas acc)"
    "script_reference_deltas acc' = fold ?add (cell_refs c) (script_reference_deltas acc)"
    "acc' = acc\<lparr>addr_deltas := addr_deltas acc', script_reference_deltas := script_reference_deltas acc'\<rparr>"
    by (simp_all add: eq add_entry_def e)
qed

lemma reverse_rest:
  assumes "reverse_created_consumed_cell_totals c acc = Inr acc'" and "acc_sizes acc"
  shows "acc_sizes acc' \<and> keeps_rest acc acc'"
proof -
  obtain x y where "acc' = acc\<lparr>addr_deltas := x, script_reference_deltas := y\<rparr>" using reverse_fields(3) [OF assms(1)] by blast
  then show ?thesis using assms(2) by (simp add: acc_sizes_def keeps_rest_def)
qed

lemma reverse_amount:
  assumes r: "reverse_created_consumed_cell_totals c acc = Inr acc'"
  shows "acc_amount acc' k = acc_amount acc k + net (negated (created_share c)) k"
proof -
  note f = reverse_fields [OF r]
  obtain x y where eq: "acc' = acc\<lparr>addr_deltas := x, script_reference_deltas := y\<rparr>" using f(3) by blast
  have x: "x = add_entry add_addr (0, 0, 0, 0) (0, 0, 0, - 1) (lock_script_hash c) (addr_deltas acc)"
    and y: "y = fold (add_entry add_reference (0, 0, 0, 0, 0, 0)
       (- 1, 0, - capacity c, 0, - occupied_capacity c, 0)) (cell_refs c) (script_reference_deltas acc)"
    using f(1,2) by (simp_all add: eq)
  show ?thesis
    by (cases k) (simp_all add: eq x y created_share_def net_shares fold_reference entry_add_addr)
qed

text \<open>The flows of a cell on the days and hours of the removed blocks.\<close>

definition flow_share :: "rollback_env \<Rightarrow> LiveCellInfo \<Rightarrow> bytes \<Rightarrow> int \<Rightarrow> int option \<Rightarrow> (delta_key \<times> int) list" where
  "flow_share env c tx_hash created consumed =
     (case block_date_map env created of
        None \<Rightarrow> []
      | Some (d, h) \<Rightarrow>
          (if tx_hash \<in> cellbase_tx_hashes env then [] else [(DateTransferred d, capacity c), (HourTransferred h, capacity c)]) @
          [(DateCreated d, occupied_capacity c), (DateDataCreated d, data_size c)]) @
     (case consumed of
        None \<Rightarrow> []
      | Some b \<Rightarrow> (case block_date_map env b of
          None \<Rightarrow> []
        | Some (d, h) \<Rightarrow> [(DateConsumed d, occupied_capacity c), (DateDataConsumed d, data_size c)]))"

lemma stats_rest:
  "acc_sizes acc \<Longrightarrow> acc_sizes (accumulate_stats_capacity_delta env c tx created consumed acc) \<and>
   keeps_rest acc (accumulate_stats_capacity_delta env c tx created consumed acc)"
  by (simp add: accumulate_stats_capacity_delta_def acc_sizes_def keeps_rest_def Let_def split: option.splits prod.splits)

definition flow_created :: "rollback_env \<Rightarrow> LiveCellInfo \<Rightarrow> bytes \<Rightarrow> int \<Rightarrow> rollback_acc \<Rightarrow> rollback_acc" where
  "flow_created env c tx created acc = accumulate_stats_capacity_delta env c tx created None acc"

lemma flow_created_amount:
  "acc_amount (flow_created env c tx created acc) k = acc_amount acc k + net (flow_share env c tx created None) k"
proof (cases "block_date_map env created")
  case None
  then show ?thesis by (simp add: flow_created_def accumulate_stats_capacity_delta_def flow_share_def)
next
  case (Some dh)
  obtain d h where dh: "dh = (d, h)" by (cases dh)
  obtain x1 x2 x3 x4 x5 where e: "entry (date_cap_deltas acc) (0, 0, 0, 0, 0) d = (x1, x2, x3, x4, x5)"
    by (metis prod_cases5)
  show ?thesis
    by (cases k) (auto simp: flow_created_def accumulate_stats_capacity_delta_def flow_share_def Some dh e)
qed

lemma stats_amount:
  "acc_amount (accumulate_stats_capacity_delta env c tx created consumed acc) k =
   acc_amount acc k + net (flow_share env c tx created consumed) k"
proof (cases "consumed = None \<or> block_date_map env (the consumed) = None")
  case True
  then have "accumulate_stats_capacity_delta env c tx created consumed acc = flow_created env c tx created acc"
    "flow_share env c tx created consumed = flow_share env c tx created None"
    by (auto simp: flow_created_def accumulate_stats_capacity_delta_def flow_share_def Let_def split: option.splits)
  then show ?thesis by (simp add: flow_created_amount)
next
  case False
  then obtain b d h where b: "consumed = Some b" "block_date_map env b = Some (d, h)" by auto
  let ?acc = "flow_created env c tx created acc"
  obtain x1 x2 x3 x4 x5 where e: "entry (date_cap_deltas ?acc) (0, 0, 0, 0, 0) d = (x1, x2, x3, x4, x5)"
    by (metis prod_cases5)
  have eq: "accumulate_stats_capacity_delta env c tx created consumed acc =
      ?acc\<lparr>date_cap_deltas := (date_cap_deltas ?acc)(d \<mapsto> (x1, x2, x3 + occupied_capacity c, x4, x5 + data_size c))\<rparr>"
    using b e by (simp add: accumulate_stats_capacity_delta_def flow_created_def Let_def)
  have "acc_amount (accumulate_stats_capacity_delta env c tx created consumed acc) k =
      acc_amount ?acc k + net [(DateConsumed d, occupied_capacity c), (DateDataConsumed d, data_size c)] k"
    unfolding eq by (cases k) (auto simp: e)
  then show ?thesis by (simp add: flow_created_amount) (simp add: flow_share_def b)
qed

end
