(* ===== verification/Cell_Walk.thy ===== *)
theory Cell_Walk
  imports Cell_Deltas
begin

text \<open>
  The walks of the cell rollback over the cells of a chain. A history says when each cell was
  created and consumed; on such cells every step of the full scans and of the walk over the
  recorded transactions succeeds, adds the share of its cell to the amounts and stages the rows
  that take the cell from the tip to the target block. The checked sums of the source stay within
  the number, the capacity and the token amount of the cells walked so far.
\<close>

section \<open>The history of the cells\<close>

text \<open>
  Every cell of the chain up to its tip: when it was created and, with the spending
  transaction where the row names it, when it was consumed.
\<close>

record hist_cell =
  h_op :: outpoint
  h_cell :: LiveCellInfo
  h_created :: int
  h_consumed :: "(int \<times> bytes option) option"

definition live_at :: "int \<Rightarrow> hist_cell \<Rightarrow> bool" where
  "live_at n h \<longleftrightarrow> h_created h \<le> n \<and> (case h_consumed h of None \<Rightarrow> True | Some (b, _) \<Rightarrow> n < b)"

definition spent_at :: "int \<Rightarrow> hist_cell \<Rightarrow> bool" where
  "spent_at n h \<longleftrightarrow> (case h_consumed h of None \<Rightarrow> False | Some (b, _) \<Rightarrow> b \<le> n)"

definition h_meta :: "hist_cell \<Rightarrow> ConsumedCellMeta" where
  "h_meta h = \<lparr>created_at_block = h_created h, consumed_at_block = fst (the (h_consumed h)),
     consumed_by_tx = snd (the (h_consumed h))\<rparr>"

definition cell_fine :: "LiveCellInfo \<Rightarrow> bool" where
  "cell_fine c \<longleftrightarrow> 0 \<le> capacity c \<and> 0 \<le> occupied_capacity c \<and> 0 \<le> lock_hash_type c \<and> lock_hash_type c \<le> 255 \<and>
     (case (type_code_hash c, type_hash_type c) of (None, None) \<Rightarrow> True | (Some _, Some t) \<Rightarrow> 0 \<le> t \<and> t \<le> 255 | _ \<Rightarrow> False) \<and>
     (case udt_amount c of None \<Rightarrow> True | Some a \<Rightarrow> 0 \<le> a)"

definition live_rows :: "hist_cell \<Rightarrow> index_row list" where
  "live_rows h = (let c = h_cell h; b = h_created h; k = h_op h
     in [ByLock (lock_script_hash c) b k, ByLockCode (lock_code_hash c) (lock_hash_type c) b k] @
        map (\<lambda>t. ByType t b k) (option_list (type_script_hash c)) @
        (case (type_code_hash c, type_hash_type c) of (Some t, Some ht) \<Rightarrow> [ByTypeCode t ht b k] | _ \<Rightarrow> []))"

definition data_rows :: "hist_cell \<Rightarrow> index_row list" where
  "data_rows h = data_hash_row (h_cell h) (h_created h) (h_op h)"

text \<open>The rows of a database that has processed the chain up to a block.\<close>

definition db_at :: "int \<Rightarrow> hist_cell set \<Rightarrow> cell_db \<Rightarrow> bool" where
  "db_at n H db \<longleftrightarrow>
     distinct (map fst (live_cells db)) \<and> set (live_cells db) = (\<lambda>h. (h_op h, h_created h)) ` {h \<in> H. live_at n h} \<and>
     distinct (map fst (consumed_cells db)) \<and> set (consumed_cells db) = (\<lambda>h. (h_op h, h_meta h)) ` {h \<in> H. spent_at n h} \<and>
     cell_index db = (\<Union>h\<in>{h \<in> H. live_at n h}. set (live_rows h)) \<union> (\<Union>h\<in>{h \<in> H. h_created h \<le> n}. set (data_rows h))"

definition udt_of :: "LiveCellInfo \<Rightarrow> int" where
  "udt_of c = (case udt_amount c of None \<Rightarrow> 0 | Some a \<Rightarrow> a)"

definition history :: "int \<Rightarrow> hist_cell set \<Rightarrow> bool" where
  "history tip H \<longleftrightarrow> finite H \<and> inj_on h_op H \<and>
     (\<forall>h\<in>H. h_created h \<le> tip \<and> cell_fine (h_cell h) \<and>
        (case h_consumed h of None \<Rightarrow> True | Some (b, _) \<Rightarrow> h_created h \<le> b \<and> b \<le> tip)) \<and>
     int (card H) < 2 ^ 63 \<and> (\<Sum>h\<in>H. capacity (h_cell h) + occupied_capacity (h_cell h)) < 2 ^ 127 \<and>
     (\<Sum>h\<in>H. udt_of (h_cell h)) < 2 ^ 256"

section \<open>One cell\<close>

lemma index_entries_ok:
  assumes "cell_fine (h_cell h)"
  shows "delete_cell_index_entries (h_cell h) (h_created h) (h_op h) = Inr (map DeleteIndex (live_rows h @ data_rows h))"
    "put_cell_index_entries (h_cell h) (h_created h) (h_op h) = Inr (map PutIndex (live_rows h))"
  using assms
  by (auto simp: cell_fine_def delete_cell_index_entries_def put_cell_index_entries_def cell_code_index_keys_def hash_type_byte_def
      live_rows_def data_rows_def delete_cell_data_hash_entry_def option_list_def Let_def split: option.splits)

lemma count_refs: "count_key (cell_refs c) k = 0 \<or> count_key (cell_refs c) k = 1"
  by (auto simp: cell_refs_def split: option.splits)

text \<open>How far the checked sums may have moved.\<close>

definition within :: "int \<Rightarrow> int \<Rightarrow> int \<Rightarrow> rollback_acc \<Rightarrow> bool" where
  "within n K U acc \<longleftrightarrow> acc_sizes acc \<and>
     (\<forall>l. - n \<le> acc_amount acc (AddrTotal l)) \<and>
     (\<forall>k. - n \<le> acc_amount acc (RefCells k) \<and> - K \<le> acc_amount acc (RefCapacity k) \<and> - K \<le> acc_amount acc (RefUsed k) \<and>
        acc_amount acc (RefCells k) \<le> 0 \<and> acc_amount acc (RefCapacity k) \<le> 0 \<and> acc_amount acc (RefUsed k) \<le> 0) \<and>
     (\<forall>l. acc_amount acc (AddrTotal l) \<le> 0) \<and>
     (\<forall>k. 0 \<le> acc_amount acc (TokenAdded k) \<and> acc_amount acc (TokenAdded k) \<le> U \<and>
        0 \<le> acc_amount acc (TokenRemoved k) \<and> acc_amount acc (TokenRemoved k) \<le> U)"

definition weight :: "LiveCellInfo \<Rightarrow> int" where
  "weight c = capacity c + occupied_capacity c"

lemma token_share_bound:
  "cell_fine c \<Longrightarrow> 0 \<le> net (token_share key c) k \<and> net (token_share key c) k \<le> udt_of c"
  by (auto simp: token_share_def cell_fine_def udt_of_def split: option.splits)

lemma within_share:
  assumes w: "within n K U acc" and c: "cell_fine c"
    and eq: "\<And>k. acc_amount acc' k = acc_amount acc k + net ds k" and sizes: "acc_sizes acc'"
    and ds: "ds \<in> {cell_share c 1 b, cell_share c (- 1) b, negated (created_share c)}"
  shows "within (n + 1) (K + weight c) (U + udt_of c) acc'"
proof -
  have cap: "0 \<le> capacity c" "0 \<le> occupied_capacity c" "0 \<le> udt_of c" using c by (auto simp: cell_fine_def udt_of_def split: option.splits)
  have tot: "net ds (AddrTotal l) = 0 \<or> net ds (AddrTotal l) = - 1" for l
    using ds by (auto simp: cell_share_def live_share_def created_share_def net_shares token_share_other)
  have refs: "(net ds (RefCells k) = 0 \<or> net ds (RefCells k) = - 1) \<and>
      (net ds (RefCapacity k) = 0 \<or> net ds (RefCapacity k) = - capacity c) \<and>
      (net ds (RefUsed k) = 0 \<or> net ds (RefUsed k) = - occupied_capacity c)" for k
    using ds count_refs [of c k] by (auto simp: cell_share_def live_share_def created_share_def net_shares token_share_other)
  have tok: "0 \<le> net ds (TokenAdded k) \<and> net ds (TokenAdded k) \<le> udt_of c \<and> 0 \<le> net ds (TokenRemoved k) \<and> net ds (TokenRemoved k) \<le> udt_of c" for k
    using ds token_share_bound [OF c] cap
    by (auto simp: cell_share_def live_share_def created_share_def net_shares token_share_other)
  have a: "- n \<le> acc_amount acc (AddrTotal l)" "acc_amount acc (AddrTotal l) \<le> 0" for l using w unfolding within_def by blast+
  have r: "- n \<le> acc_amount acc (RefCells k)" "- K \<le> acc_amount acc (RefCapacity k)" "- K \<le> acc_amount acc (RefUsed k)"
    "acc_amount acc (RefCells k) \<le> 0" "acc_amount acc (RefCapacity k) \<le> 0" "acc_amount acc (RefUsed k) \<le> 0" for k
    using w unfolding within_def by blast+
  have t: "0 \<le> acc_amount acc (TokenAdded k)" "acc_amount acc (TokenAdded k) \<le> U" "0 \<le> acc_amount acc (TokenRemoved k)"
    "acc_amount acc (TokenRemoved k) \<le> U" for k
    using w unfolding within_def by blast+
  have "- (n + 1) \<le> acc_amount acc (AddrTotal l) + net ds (AddrTotal l) \<and> acc_amount acc (AddrTotal l) + net ds (AddrTotal l) \<le> 0" for l
    using a [of l] tot [of l] by linarith
  moreover have "- (n + 1) \<le> acc_amount acc (RefCells k) + net ds (RefCells k) \<and> acc_amount acc (RefCells k) + net ds (RefCells k) \<le> 0 \<and>
      - (K + weight c) \<le> acc_amount acc (RefCapacity k) + net ds (RefCapacity k) \<and> acc_amount acc (RefCapacity k) + net ds (RefCapacity k) \<le> 0 \<and>
      - (K + weight c) \<le> acc_amount acc (RefUsed k) + net ds (RefUsed k) \<and> acc_amount acc (RefUsed k) + net ds (RefUsed k) \<le> 0" for k
    using r [of k] refs [of k] cap unfolding weight_def by linarith
  moreover have "0 \<le> acc_amount acc (TokenAdded k) + net ds (TokenAdded k) \<and> acc_amount acc (TokenAdded k) + net ds (TokenAdded k) \<le> U + udt_of c \<and>
      0 \<le> acc_amount acc (TokenRemoved k) + net ds (TokenRemoved k) \<and> acc_amount acc (TokenRemoved k) + net ds (TokenRemoved k) \<le> U + udt_of c" for k
    using t [of k] tok [of k] by linarith
  ultimately show ?thesis unfolding within_def eq using sizes by blast
qed

lemma accumulate_ok:
  assumes w: "within n K U acc" and c: "cell_fine c" and u: "U + udt_of c < 2 ^ 256" and s: "s = 1 \<or> s = - 1"
  shows "\<exists>acc'. accumulate_cell_deltas c s b acc = Inr acc' \<and> keeps_rest acc acc' \<and>
    within (n + 1) (K + weight c) (U + udt_of c) acc' \<and>
    (\<forall>k. acc_amount acc' k = acc_amount acc k + net (cell_share c s b) k)"
proof -
  have t: "0 \<le> acc_amount acc (TokenAdded k)" "acc_amount acc (TokenAdded k) \<le> U" "0 \<le> acc_amount acc (TokenRemoved k)"
    "acc_amount acc (TokenRemoved k) \<le> U" for k
    using w unfolding within_def by blast+
  have "fits_u256 (fst (entry (token_holder_deltas acc) (0, 0) k) + a) \<and> fits_u256 (snd (entry (token_holder_deltas acc) (0, 0) k) + a)"
    if "udt_amount c = Some a" for a k
    using t [of k] u c that by (auto simp: fits_u256_def udt_of_def cell_fine_def)
  then have "\<exists>m. add_token c s (token_holder_deltas acc) = Inr m"
    by (auto simp: add_token_def Let_def checked_def split: option.splits)
  then have "\<exists>acc'. accumulate_cell_deltas c s b acc = Inr acc'"
    by (cases "type_code_hash c"; cases "type_hash_type c") (auto simp: accumulate_cell_deltas_def Let_def)
  then obtain acc' where r: "accumulate_cell_deltas c s b acc = Inr acc'" by blast
  have sz: "acc_sizes acc" using w by (simp add: within_def)
  have am: "acc_amount acc' k = acc_amount acc k + net (cell_share c s b) k" for k
    by (rule accumulate_amount [OF r s sz])
  have "within (n + 1) (K + weight c) (U + udt_of c) acc'"
    by (rule within_share [OF w c am]) (use accumulate_rest [OF r sz] s in auto)
  then show ?thesis using r accumulate_rest [OF r sz] am by blast
qed

definition ref_fits :: "LiveCellInfo \<Rightarrow> ScriptReferenceDelta \<Rightarrow> bool" where
  "ref_fits c e \<longleftrightarrow> fits_i64 (fst e - 1) \<and> fits_i128 (fst (snd (snd e)) - capacity c) \<and>
     fits_i128 (fst (snd (snd (snd (snd e)))) - occupied_capacity c)"

lemma reverse_reference_ok:
  assumes "ref_fits c (entry m (0, 0, 0, 0, 0, 0) k)"
  shows "\<exists>m'. reverse_reference k c m = Inr m' \<and> (\<forall>k'. k' \<noteq> k \<longrightarrow> entry m' (0, 0, 0, 0, 0, 0) k' = entry m (0, 0, 0, 0, 0, 0) k')"
  using assms by (cases "entry m (0, 0, 0, 0, 0, 0) k") (simp add: ref_fits_def reverse_reference_def checked_def)

lemma reverse_ok:
  assumes w: "within n K U acc" and c: "cell_fine c" and n: "n + 1 \<le> 2 ^ 63" and k: "K + weight c \<le> 2 ^ 127"
  shows "\<exists>acc'. reverse_created_consumed_cell_totals c acc = Inr acc' \<and> keeps_rest acc acc' \<and>
    within (n + 1) (K + weight c) (U + udt_of c) acc' \<and>
    (\<forall>k. acc_amount acc' k = acc_amount acc k + net (negated (created_share c)) k)"
proof -
  let ?m = "script_reference_deltas acc"
  have cap: "0 \<le> capacity c" "0 \<le> occupied_capacity c" using c by (auto simp: cell_fine_def)
  have r: "- n \<le> acc_amount acc (RefCells k)" "- K \<le> acc_amount acc (RefCapacity k)" "- K \<le> acc_amount acc (RefUsed k)"
    "acc_amount acc (RefCells k) \<le> 0" "acc_amount acc (RefCapacity k) \<le> 0" "acc_amount acc (RefUsed k) \<le> 0" for k
    using w unfolding within_def by blast+
  have fit: "ref_fits c (entry ?m (0, 0, 0, 0, 0, 0) j)" for j
    using r [of j] cap n k by (simp add: ref_fits_def fits_defs weight_def)
  obtain m1 where m1: "reverse_reference (lock_code_hash c, lock_hash_type c mod 256, False) c ?m = Inr m1"
    "\<forall>k. k \<noteq> (lock_code_hash c, lock_hash_type c mod 256, False) \<longrightarrow> entry m1 (0, 0, 0, 0, 0, 0) k = entry ?m (0, 0, 0, 0, 0, 0) k"
    using reverse_reference_ok [OF fit] by blast
  have "ref_fits c (entry m1 (0, 0, 0, 0, 0, 0) (h, t mod 256, True))" for h t
    using m1(2) fit by simp
  then have "\<exists>m2. reverse_reference (h, t mod 256, True) c m1 = Inr m2" for h t
    using reverse_reference_ok by blast
  then have "\<exists>m2. (case (type_code_hash c, type_hash_type c) of (Some h, Some t) \<Rightarrow> reverse_reference (h, t mod 256, True) c m1 | _ \<Rightarrow> Inr m1) = Inr m2"
    by (auto split: option.splits)
  moreover obtain x1 x2 x3 x4 where e: "entry (addr_deltas acc) (0, 0, 0, 0) (lock_script_hash c) = (x1, x2, x3, x4)" by (metis prod_cases4)
  moreover have "- n \<le> acc_amount acc (AddrTotal (lock_script_hash c))" "acc_amount acc (AddrTotal (lock_script_hash c)) \<le> 0"
    using w unfolding within_def by blast+
  then have "fits_i64 (x4 - 1)" using e n by (simp add: fits_defs)
  ultimately obtain acc' where rev: "reverse_created_consumed_cell_totals c acc = Inr acc'"
    using m1(1) by (auto simp: reverse_created_consumed_cell_totals_def checked_def)
  have sz: "acc_sizes acc" using w by (simp add: within_def)
  have "within (n + 1) (K + weight c) (U + udt_of c) acc'"
    by (rule within_share [OF w c reverse_amount [OF rev]]) (use reverse_rest [OF rev sz] in auto)
  then show ?thesis using rev reverse_rest [OF rev sz] reverse_amount [OF rev] by blast
qed

lemma within_cong:
  assumes "within n K U acc" "acc_sizes acc'"
    "\<And>l. acc_amount acc' (AddrTotal l) = acc_amount acc (AddrTotal l)" "\<And>k. acc_amount acc' (RefCells k) = acc_amount acc (RefCells k)"
    "\<And>k. acc_amount acc' (RefCapacity k) = acc_amount acc (RefCapacity k)" "\<And>k. acc_amount acc' (RefUsed k) = acc_amount acc (RefUsed k)"
    "\<And>k. acc_amount acc' (TokenAdded k) = acc_amount acc (TokenAdded k)" "\<And>k. acc_amount acc' (TokenRemoved k) = acc_amount acc (TokenRemoved k)"
  shows "within n K U acc'"
  using assms(1,2) unfolding within_def assms(3-8) by blast

lemma within_stats:
  assumes "within n K U acc"
  shows "within n K U (accumulate_stats_capacity_delta env c tx b x acc)"
proof (rule within_cong [OF assms])
  show "acc_sizes (accumulate_stats_capacity_delta env c tx b x acc)" using stats_rest assms by (auto simp: within_def)
qed (auto simp: stats_amount flow_share_def split: option.splits simp del: acc_amount.simps)

lemma amount_rest [simp]:
  "acc_amount (stage ops acc) k = acc_amount acc k" "acc_amount (acc\<lparr>cells_removed := x\<rparr>) k = acc_amount acc k"
  "acc_amount (acc\<lparr>cells_restored := x\<rparr>) k = acc_amount acc k" "acc_amount (acc\<lparr>tx_participants := p\<rparr>) k = acc_amount acc k"
  "acc_amount (acc\<lparr>rolled_back_type_hashes := q\<rparr>) k = acc_amount acc k"
  by (cases k; simp add: stage_def)+

lemma within_rest [simp]:
  "within n K U (stage ops acc) = within n K U acc" "within n K U (acc\<lparr>cells_removed := x\<rparr>) = within n K U acc"
  "within n K U (acc\<lparr>cells_restored := x\<rparr>) = within n K U acc" "within n K U (acc\<lparr>tx_participants := p\<rparr>) = within n K U acc"
  "within n K U (acc\<lparr>rolled_back_type_hashes := q\<rparr>) = within n K U acc"
  unfolding within_def by (simp_all only: amount_rest) (simp_all add: acc_sizes_def stage_def)

text \<open>What the rollback of a cell adds to the amounts, and the rows it writes.\<close>

definition touch_share :: "rollback_env \<Rightarrow> hist_cell \<Rightarrow> (delta_key \<times> int) list" where
  "touch_share env h = (let c = h_cell h; created = h_created h in
     case h_consumed h of
       None \<Rightarrow> if rollback_to env < created then cell_share c (- 1) created @ flow_share env c (fst (h_op h)) created None else []
     | Some (b, _) \<Rightarrow>
         if b \<le> rollback_to env then []
         else (if created \<le> rollback_to env then cell_share c 1 created else negated (created_share c)) @
           flow_share env c (fst (h_op h)) created (Some b))"

definition touch_ops :: "rollback_env \<Rightarrow> hist_cell \<Rightarrow> row_op list" where
  "touch_ops env h =
     (case h_consumed h of
        None \<Rightarrow> if rollback_to env < h_created h then DeleteLive (h_op h) # map DeleteIndex (live_rows h @ data_rows h) else []
      | Some (b, _) \<Rightarrow>
          if b \<le> rollback_to env then []
          else DeleteConsumed (h_op h) #
            (if h_created h \<le> rollback_to env then PutLive (h_op h) (h_created h) # map PutIndex (live_rows h)
             else map DeleteIndex (data_rows h)))"

lemma stage_sel [simp]:
  "batch_ops (stage ops acc) = batch_ops acc @ ops" "tx_participants (stage ops acc) = tx_participants acc"
  "rolled_back_type_hashes (stage ops acc) = rolled_back_type_hashes acc" "cells_removed (stage ops acc) = cells_removed acc"
  "cells_restored (stage ops acc) = cells_restored acc"
  by (simp_all add: stage_def)

lemma keeps_rest_trans: "keeps_rest a b \<Longrightarrow> keeps_rest b c \<Longrightarrow> keeps_rest a c"
  by (simp add: keeps_rest_def)

lemma removed_step:
  assumes w: "within n K U acc" and c: "cell_fine (h_cell h)" and u: "U + udt_of (h_cell h) < 2 ^ 256"
    and h: "h_consumed h = None" "rollback_to env < h_created h"
  shows "\<exists>acc1. accumulate_cell_deltas (h_cell h) (- 1) (h_created h) acc = Inr acc1 \<and>
    keeps_rest acc (accumulate_stats_capacity_delta env (h_cell h) (fst (h_op h)) (h_created h) None acc1) \<and>
    within (n + 1) (K + weight (h_cell h)) (U + udt_of (h_cell h))
      (accumulate_stats_capacity_delta env (h_cell h) (fst (h_op h)) (h_created h) None acc1) \<and>
    (\<forall>k. acc_amount (accumulate_stats_capacity_delta env (h_cell h) (fst (h_op h)) (h_created h) None acc1) k =
      acc_amount acc k + net (touch_share env h) k)"
proof -
  obtain acc1 where a: "accumulate_cell_deltas (h_cell h) (- 1) (h_created h) acc = Inr acc1" "keeps_rest acc acc1"
    "within (n + 1) (K + weight (h_cell h)) (U + udt_of (h_cell h)) acc1"
    "\<forall>k. acc_amount acc1 k = acc_amount acc k + net (cell_share (h_cell h) (- 1) (h_created h)) k"
    using accumulate_ok [OF w c u, of "- 1"] by auto
  have "acc_sizes acc1" using a(3) by (simp add: within_def)
  then show ?thesis using a within_stats [OF a(3)] stats_rest keeps_rest_trans [OF a(2)] h
    by (auto simp: stats_amount touch_share_def Let_def)
qed

lemma spent_step:
  assumes w: "within n K U acc" and c: "cell_fine (h_cell h)" and u: "U + udt_of (h_cell h) < 2 ^ 256"
    and n: "n + 1 \<le> 2 ^ 63" and k: "K + weight (h_cell h) \<le> 2 ^ 127"
    and h: "h_consumed h = Some (b, t)" "rollback_to env < b"
  shows "\<exists>acc1. restore_or_drop env (h_cell h) (h_op h) (h_created h)
      (accumulate_stats_capacity_delta env (h_cell h) (fst (h_op h)) (h_created h) (Some b) acc) = Inr acc1 \<and>
    batch_ops acc1 = batch_ops acc @ tl (touch_ops env h) \<and> tx_participants acc1 = tx_participants acc \<and>
    rolled_back_type_hashes acc1 = rolled_back_type_hashes acc \<and>
    within (n + 1) (K + weight (h_cell h)) (U + udt_of (h_cell h)) acc1 \<and>
    (\<forall>k. acc_amount acc1 k = acc_amount acc k + net (touch_share env h) k)"
proof -
  let ?acc = "accumulate_stats_capacity_delta env (h_cell h) (fst (h_op h)) (h_created h) (Some b) acc"
  have w': "within n K U ?acc" by (rule within_stats [OF w])
  have "acc_sizes acc" using w by (simp add: within_def)
  then have rest: "keeps_rest acc ?acc" using stats_rest by blast
  show ?thesis
  proof (cases "h_created h \<le> rollback_to env")
    case True
    let ?a = "(stage (PutLive (h_op h) (h_created h) # map PutIndex (live_rows h)) ?acc)\<lparr>cells_restored := cells_restored ?acc + 1\<rparr>"
    have "within n K U ?a" using w' by simp
    from accumulate_ok [OF this c u, of 1 "h_created h"] obtain acc1 where
      a: "accumulate_cell_deltas (h_cell h) 1 (h_created h) ?a = Inr acc1" "keeps_rest ?a acc1"
        "within (n + 1) (K + weight (h_cell h)) (U + udt_of (h_cell h)) acc1"
        "\<forall>k. acc_amount acc1 k = acc_amount ?a k + net (cell_share (h_cell h) 1 (h_created h)) k" by auto
    have "restore_or_drop env (h_cell h) (h_op h) (h_created h) ?acc = Inr acc1"
      using True a(1) by (simp add: restore_or_drop_def index_entries_ok [OF c])
    then show ?thesis using a rest True h
      by (auto simp: keeps_rest_def touch_ops_def touch_share_def Let_def stats_amount)
  next
    case False
    let ?a = "stage (delete_cell_data_hash_entry (h_cell h) (h_created h) (h_op h)) ?acc"
    have "within n K U ?a" using w' by simp
    from reverse_ok [OF this c n k] obtain acc1 where
      a: "reverse_created_consumed_cell_totals (h_cell h) ?a = Inr acc1" "keeps_rest ?a acc1"
        "within (n + 1) (K + weight (h_cell h)) (U + udt_of (h_cell h)) acc1"
        "\<forall>k. acc_amount acc1 k = acc_amount ?a k + net (negated (created_share (h_cell h))) k" by auto
    have "restore_or_drop env (h_cell h) (h_op h) (h_created h) ?acc = Inr acc1"
      using False a(1) by (simp add: restore_or_drop_def)
    then show ?thesis using a rest False h
      by (auto simp: keeps_rest_def touch_ops_def touch_share_def Let_def stats_amount
          delete_cell_data_hash_entry_def data_rows_def)
  qed
qed

section \<open>Walks\<close>

datatype effect = Wrote row_op | Participant bytes bytes | TypeHash bytes

definition effects :: "rollback_acc \<Rightarrow> effect set" where
  "effects acc = Wrote ` set (batch_ops acc) \<union> (\<lambda>(t, l). Participant t l) ` tx_participants acc \<union> TypeHash ` rolled_back_type_hashes acc"

text \<open>
  A walk over some cells: each adds its share to the amounts and writes its rows, and the
  checked sums have moved by no more than the sizes of the cells.
\<close>

definition walked :: "rollback_env \<Rightarrow> hist_cell list \<Rightarrow> effect set \<Rightarrow> int \<times> int \<times> int \<Rightarrow> rollback_acc \<Rightarrow> rollback_acc \<Rightarrow> bool" where
  "walked env hs extra budget acc acc' \<longleftrightarrow> (case budget of (n, K, U) \<Rightarrow>
     within (n + int (length hs)) (K + (\<Sum>h\<leftarrow>hs. weight (h_cell h))) (U + (\<Sum>h\<leftarrow>hs. udt_of (h_cell h))) acc' \<and>
     (\<forall>k. acc_amount acc' k = acc_amount acc k + (\<Sum>h\<leftarrow>hs. net (touch_share env h) k)) \<and>
     effects acc' = effects acc \<union> (\<Union>h\<in>set hs. Wrote ` set (touch_ops env h)) \<union> extra)"

definition spend :: "hist_cell list \<Rightarrow> int \<times> int \<times> int \<Rightarrow> int \<times> int \<times> int" where
  "spend hs budget = (case budget of (n, K, U) \<Rightarrow>
     (n + int (length hs), K + (\<Sum>h\<leftarrow>hs. weight (h_cell h)), U + (\<Sum>h\<leftarrow>hs. udt_of (h_cell h))))"

definition affordable :: "hist_cell list \<Rightarrow> int \<times> int \<times> int \<Rightarrow> bool" where
  "affordable hs budget \<longleftrightarrow> (case spend hs budget of (n, K, U) \<Rightarrow> n \<le> 2 ^ 63 \<and> K \<le> 2 ^ 127 \<and> U < 2 ^ 256)"

definition fine_cells :: "rollback_env \<Rightarrow> hist_cell list \<Rightarrow> bool" where
  "fine_cells env hs \<longleftrightarrow> (\<forall>h\<in>set hs. cell_fine (h_cell h) \<and> cells_store env (h_op h) = Some (h_cell h))"

lemma walked_Nil: "within n K U acc \<Longrightarrow> walked env [] {} (n, K, U) acc acc"
  by (simp add: walked_def)

lemma walked_within: "walked env hs extra budget acc acc' \<Longrightarrow> spend hs budget = (n, K, U) \<Longrightarrow> within n K U acc'"
  by (auto simp: walked_def spend_def split: prod.splits)

lemma walked_append:
  "walked env hs extra budget acc acc1 \<Longrightarrow> walked env hs' extra' (spend hs budget) acc1 acc2 \<Longrightarrow>
   walked env (hs @ hs') (extra \<union> extra') budget acc acc2"
  by (cases budget) (auto simp: walked_def spend_def algebra_simps)

lemma spend_append [simp]: "spend (hs @ hs') budget = spend hs' (spend hs budget)"
  by (cases budget) (simp add: spend_def)

lemma spend_Nil [simp]: "spend [] budget = budget"
  by (cases budget) (simp add: spend_def)

lemma fine_weights: "cell_fine c \<Longrightarrow> 0 \<le> weight c \<and> 0 \<le> udt_of c"
  by (auto simp: cell_fine_def weight_def udt_of_def split: option.splits)

lemma affordable_prefix:
  assumes "affordable (hs @ hs') budget" "fine_cells env hs'"
  shows "affordable hs budget"
proof -
  have "0 \<le> (\<Sum>h\<leftarrow>hs'. weight (h_cell h))" "0 \<le> (\<Sum>h\<leftarrow>hs'. udt_of (h_cell h))"
    using assms(2) fine_weights by (auto simp: fine_cells_def intro!: sum_list_nonneg)
  then show ?thesis using assms(1) by (auto simp: affordable_def spend_def split: prod.splits)
qed

lemma affordable_suffix: "affordable (hs @ hs') budget \<Longrightarrow> affordable hs' (spend hs budget)"
  by (simp add: affordable_def)

lemma fine_cells_simps [simp]:
  "fine_cells env []" "fine_cells env (hs @ hs') \<longleftrightarrow> fine_cells env hs \<and> fine_cells env hs'"
  "fine_cells env (h # hs) \<longleftrightarrow> cell_fine (h_cell h) \<and> cells_store env (h_op h) = Some (h_cell h) \<and> fine_cells env hs"
  by (auto simp: fine_cells_def)

lemma within_mono: "within n K U acc \<Longrightarrow> n \<le> n' \<Longrightarrow> K \<le> K' \<Longrightarrow> U \<le> U' \<Longrightarrow> within n' K' U' acc"
  unfolding within_def by (meson le_imp_neg_le order_trans)

text \<open>Steps of the walks on a single cell, in the shape the walks use.\<close>

lemma walked_untouched:
  assumes "within n K U acc" "cell_fine (h_cell h)" "touch_share env h = []" "touch_ops env h = []"
  shows "walked env [h] {} (n, K, U) acc acc"
  using assms fine_weights [OF assms(2)] within_mono [OF assms(1), of "n + 1" "K + weight (h_cell h)" "U + udt_of (h_cell h)"]
  by (simp add: walked_def)

lemma affordable_one: "affordable [h] (n, K, U) \<longleftrightarrow> n + 1 \<le> 2 ^ 63 \<and> K + weight (h_cell h) \<le> 2 ^ 127 \<and> U + udt_of (h_cell h) < 2 ^ 256"
  by (simp add: affordable_def spend_def)

lemma fallback_live_step:
  assumes w: "within n K U acc" and f: "fine_cells env [h]" and a: "affordable [h] (n, K, U)" and h: "h_consumed h = None"
  shows "\<exists>acc'. walked env [h] {} (n, K, U) acc acc' \<and>
    (\<forall>rows. fallback_live env ((h_op h, h_created h) # rows) acc = fallback_live env rows acc')"
proof (cases "rollback_to env < h_created h")
  case False
  then have "touch_share env h = []" "touch_ops env h = []" using h by (simp_all add: touch_share_def touch_ops_def Let_def)
  then show ?thesis using walked_untouched [OF w] f False by (intro exI [of _ acc]) simp
next
  case True
  let ?a = "(stage (DeleteLive (h_op h) # map DeleteIndex (live_rows h @ data_rows h)) acc)\<lparr>cells_removed := cells_removed acc + 1\<rparr>"
  have c: "cell_fine (h_cell h)" and u: "U + udt_of (h_cell h) < 2 ^ 256" using f a by (auto simp: affordable_one)
  have "within n K U ?a" using w by simp
  from removed_step [OF this c u h True] obtain acc1 where
    acc1: "accumulate_cell_deltas (h_cell h) (- 1) (h_created h) ?a = Inr acc1"
    and rest: "keeps_rest ?a (accumulate_stats_capacity_delta env (h_cell h) (fst (h_op h)) (h_created h) None acc1)"
    and wi: "within (n + 1) (K + weight (h_cell h)) (U + udt_of (h_cell h))
      (accumulate_stats_capacity_delta env (h_cell h) (fst (h_op h)) (h_created h) None acc1)"
    and am: "\<And>k. acc_amount (accumulate_stats_capacity_delta env (h_cell h) (fst (h_op h)) (h_created h) None acc1) k =
      acc_amount ?a k + net (touch_share env h) k" by blast
  let ?acc2 = "accumulate_stats_capacity_delta env (h_cell h) (fst (h_op h)) (h_created h) None acc1"
  have "effects ?acc2 = effects acc \<union> Wrote ` set (touch_ops env h)" using rest h True
    by (auto simp: keeps_rest_def touch_ops_def effects_def)
  then have "walked env [h] {} (n, K, U) acc ?acc2" using wi am by (simp add: walked_def)
  moreover have "fallback_live env ((h_op h, h_created h) # rows) acc = fallback_live env rows ?acc2" for rows
    using f True acc1 by (simp add: index_entries_ok [OF c])
  ultimately show ?thesis by blast
qed

text \<open>A loop over rows, each of which concerns some cells.\<close>

lemma walk_rows:
  assumes Nil: "\<And>acc. run [] acc = Inr acc"
    and step: "\<And>r n K U acc. r \<in> set rows \<Longrightarrow> within n K U acc \<Longrightarrow> affordable (cells r) (n, K, U) \<Longrightarrow>
      \<exists>acc'. walked env (cells r) (extra r) (n, K, U) acc acc' \<and> (\<forall>rs. run (r # rs) acc = run rs acc')"
    and fine: "\<And>r. r \<in> set rows \<Longrightarrow> fine_cells env (cells r)"
  shows "within n K U acc \<Longrightarrow> affordable (concat (map cells rows)) (n, K, U) \<Longrightarrow>
    \<exists>acc'. run rows acc = Inr acc' \<and> walked env (concat (map cells rows)) (\<Union>r\<in>set rows. extra r) (n, K, U) acc acc'"
  using step fine
proof (induction rows arbitrary: n K U acc)
  case Nil
  then show ?case by (simp add: assms(1) walked_Nil)
next
  case (Cons r rows)
  have f: "fine_cells env (concat (map cells rows))" using Cons.prems(4) by (fastforce simp: fine_cells_def)
  have a: "affordable (cells r) (n, K, U)" using affordable_prefix [of "cells r" "concat (map cells rows)"] Cons.prems(2) f by simp
  obtain acc1 where st: "walked env (cells r) (extra r) (n, K, U) acc acc1" "\<And>rs. run (r # rs) acc = run rs acc1"
    using Cons.prems(3) [OF _ Cons.prems(1) a] by auto
  obtain n1 K1 U1 where b: "spend (cells r) (n, K, U) = (n1, K1, U1)" by (metis prod_cases3)
  have a1: "affordable (concat (map cells rows)) (n1, K1, U1)"
    using affordable_suffix [of "cells r" "concat (map cells rows)" "(n, K, U)"] Cons.prems(2) b by simp
  have "\<exists>acc'. run rows acc1 = Inr acc' \<and> walked env (concat (map cells rows)) (\<Union>r\<in>set rows. extra r) (n1, K1, U1) acc1 acc'"
    by (rule Cons.IH [OF walked_within [OF st(1) b] a1]) (use Cons.prems(3,4) in auto)
  then obtain acc' where "run rows acc1 = Inr acc'" "walked env (concat (map cells rows)) (\<Union>r\<in>set rows. extra r) (n1, K1, U1) acc1 acc'" by blast
  then show ?case using st(2) walked_append [OF st(1), of "concat (map cells rows)" _ acc'] b by auto
qed

lemma fallback_live_walk:
  assumes "within n K U acc" "fine_cells env hs" "affordable hs (n, K, U)" "\<forall>h\<in>set hs. h_consumed h = None"
  shows "\<exists>acc'. fallback_live env (map (\<lambda>h. (h_op h, h_created h)) hs) acc = Inr acc' \<and> walked env hs {} (n, K, U) acc acc'"
proof -
  have "\<exists>acc'. fallback_live env (map (\<lambda>h. (h_op h, h_created h)) hs) acc = Inr acc' \<and>
      walked env (concat (map (\<lambda>h. [h]) hs)) (\<Union>h\<in>set hs. {}) (n, K, U) acc acc'"
  proof (rule walk_rows [where run = "\<lambda>hs. fallback_live env (map (\<lambda>h. (h_op h, h_created h)) hs)" and extra = "\<lambda>h. {}"])
    fix h n K U acc
    assume h: "h \<in> set hs" "within n K U acc" "affordable [h] (n, K, U)"
    then have "fine_cells env [h]" "h_consumed h = None" using assms(2,4) by (auto simp: fine_cells_def)
    from fallback_live_step [OF h(2) this(1) h(3) this(2)]
    show "\<exists>acc'. walked env [h] {} (n, K, U) acc acc' \<and>
        (\<forall>rs. fallback_live env (map (\<lambda>h. (h_op h, h_created h)) (h # rs)) acc = fallback_live env (map (\<lambda>h. (h_op h, h_created h)) rs) acc')"
      by auto
  qed (use assms in \<open>auto simp: fine_cells_def\<close>)
  then show ?thesis by simp
qed

lemma fallback_consumed_step:
  assumes w: "within n K U acc" and f: "fine_cells env [h]" and a: "affordable [h] (n, K, U)" and h: "h_consumed h = Some (b, t)"
  shows "\<exists>acc'. walked env [h] {} (n, K, U) acc acc' \<and>
    (\<forall>rows. fallback_consumed env ((h_op h, h_meta h) # rows) acc = fallback_consumed env rows acc')"
proof (cases "b \<le> rollback_to env")
  case True
  then have "touch_share env h = []" "touch_ops env h = []" using h by (simp_all add: touch_share_def touch_ops_def Let_def)
  then show ?thesis using walked_untouched [OF w] f True h by (intro exI [of _ acc]) (simp add: h_meta_def)
next
  case False
  let ?a = "stage [DeleteConsumed (h_op h)] acc"
  have c: "cell_fine (h_cell h)" and u: "U + udt_of (h_cell h) < 2 ^ 256" "n + 1 \<le> 2 ^ 63" "K + weight (h_cell h) \<le> 2 ^ 127"
    using f a by (auto simp: affordable_one)
  have r: "rollback_to env < b" using False by simp
  have "within n K U ?a" using w by simp
  from spent_step [OF this c u h r] obtain acc1 where
    acc1: "restore_or_drop env (h_cell h) (h_op h) (h_created h)
      (accumulate_stats_capacity_delta env (h_cell h) (fst (h_op h)) (h_created h) (Some b) ?a) = Inr acc1"
    and ops: "batch_ops acc1 = batch_ops ?a @ tl (touch_ops env h)" "tx_participants acc1 = tx_participants ?a"
      "rolled_back_type_hashes acc1 = rolled_back_type_hashes ?a"
    and wi: "within (n + 1) (K + weight (h_cell h)) (U + udt_of (h_cell h)) acc1"
    and am: "\<And>k. acc_amount acc1 k = acc_amount ?a k + net (touch_share env h) k" by blast
  have "effects acc1 = effects acc \<union> Wrote ` set (touch_ops env h)"
    using ops h False by (auto simp: effects_def touch_ops_def)
  then have "walked env [h] {} (n, K, U) acc acc1" using wi am by (simp add: walked_def)
  moreover have "fallback_consumed env ((h_op h, h_meta h) # rows) acc = fallback_consumed env rows acc1" for rows
    using f False acc1 h by (simp add: h_meta_def)
  ultimately show ?thesis by blast
qed

lemma fallback_consumed_walk:
  assumes "within n K U acc" "fine_cells env hs" "affordable hs (n, K, U)" "\<forall>h\<in>set hs. h_consumed h \<noteq> None"
  shows "\<exists>acc'. fallback_consumed env (map (\<lambda>h. (h_op h, h_meta h)) hs) acc = Inr acc' \<and> walked env hs {} (n, K, U) acc acc'"
proof -
  have "\<exists>acc'. fallback_consumed env (map (\<lambda>h. (h_op h, h_meta h)) hs) acc = Inr acc' \<and>
      walked env (concat (map (\<lambda>h. [h]) hs)) (\<Union>h\<in>set hs. {}) (n, K, U) acc acc'"
  proof (rule walk_rows [where run = "\<lambda>hs. fallback_consumed env (map (\<lambda>h. (h_op h, h_meta h)) hs)" and extra = "\<lambda>h. {}"])
    fix h n K U acc
    assume h: "h \<in> set hs" "within n K U acc" "affordable [h] (n, K, U)"
    then obtain b t where "fine_cells env [h]" "h_consumed h = Some (b, t)" using assms(2,4) by (auto simp: fine_cells_def)
    from fallback_consumed_step [OF h(2) this(1) h(3) this(2)]
    show "\<exists>acc'. walked env [h] {} (n, K, U) acc acc' \<and>
        (\<forall>rs. fallback_consumed env (map (\<lambda>h. (h_op h, h_meta h)) (h # rs)) acc = fallback_consumed env (map (\<lambda>h. (h_op h, h_meta h)) rs) acc')"
      by auto
  qed (use assms in \<open>auto simp: fine_cells_def\<close>)
  then show ?thesis by simp
qed

text \<open>The walk over the recorded transactions.\<close>

definition type_hashes :: "hist_cell \<Rightarrow> effect set" where
  "type_hashes h = TypeHash ` set (option_list (type_script_hash (h_cell h)))"

definition owner :: "hist_cell \<Rightarrow> bytes" where
  "owner h = lock_script_hash (h_cell h)"

definition output_cells :: "hist_cell \<Rightarrow> hist_cell list" where
  "output_cells h = (if h_consumed h = None then [h] else [])"

definition output_effects :: "hist_cell \<Rightarrow> effect set" where
  "output_effects h = insert (Wrote (DeleteConsumed (h_op h)))
     (if h_consumed h = None then insert (Participant (fst (h_op h)) (owner h)) (type_hashes h) else {})"

lemma context_output_step:
  assumes w: "within n K U acc" and f: "fine_cells env [h]" and a: "affordable (output_cells h) (n, K, U)"
    and h: "rollback_to env < h_created h" "fst (h_op h) = tx"
    and db: "map_of (live_cells db) (h_op h) = (if h_consumed h = None then Some (h_created h) else None)"
  shows "\<exists>acc'. walked env (output_cells h) (output_effects h) (n, K, U) acc acc' \<and>
    (\<forall>is. context_outputs env db tx (snd (h_op h) # is) acc = context_outputs env db tx is acc')"
proof (cases "h_consumed h = None")
  case False
  let ?acc = "stage [DeleteConsumed (h_op h)] acc"
  from False obtain p where p: "h_consumed h = Some p" by auto
  have k: "(tx, snd (h_op h)) = h_op h" using h(2) by (cases "h_op h") simp
  have "walked env (output_cells h) (output_effects h) (n, K, U) acc ?acc"
    using p w by (auto simp: walked_def output_cells_def output_effects_def effects_def)
  moreover have "context_outputs env db tx (snd (h_op h) # is) acc = context_outputs env db tx is ?acc" for "is"
    using db p by (simp add: k)
  ultimately show ?thesis by blast
next
  case True
  have k: "(tx, snd (h_op h)) = h_op h" using h(2) by (cases "h_op h") simp
  let ?a1 = "(stage [DeleteLive (h_op h)] acc)\<lparr>tx_participants := insert (tx, lock_script_hash (h_cell h)) (tx_participants acc),
      rolled_back_type_hashes := set (option_list (type_script_hash (h_cell h))) \<union> rolled_back_type_hashes acc\<rparr>"
  let ?a = "(stage (map DeleteIndex (live_rows h @ data_rows h)) ?a1)\<lparr>cells_removed := cells_removed acc + 1\<rparr>"
  have c: "cell_fine (h_cell h)" and u: "U + udt_of (h_cell h) < 2 ^ 256" using f a True by (auto simp: affordable_one output_cells_def)
  have "within n K U ?a" using w by simp
  from removed_step [OF this c u True h(1)] obtain acc1 where
    acc1: "accumulate_cell_deltas (h_cell h) (- 1) (h_created h) ?a = Inr acc1"
    and rest: "keeps_rest ?a (accumulate_stats_capacity_delta env (h_cell h) (fst (h_op h)) (h_created h) None acc1)"
    and wi: "within (n + 1) (K + weight (h_cell h)) (U + udt_of (h_cell h))
      (accumulate_stats_capacity_delta env (h_cell h) (fst (h_op h)) (h_created h) None acc1)"
    and am: "\<And>k. acc_amount (accumulate_stats_capacity_delta env (h_cell h) (fst (h_op h)) (h_created h) None acc1) k =
      acc_amount ?a k + net (touch_share env h) k" by blast
  let ?acc2 = "accumulate_stats_capacity_delta env (h_cell h) (fst (h_op h)) (h_created h) None acc1"
  let ?acc3 = "stage [DeleteConsumed (h_op h)] ?acc2"
  have "effects ?acc3 = effects acc \<union> Wrote ` set (touch_ops env h) \<union> output_effects h"
    using rest h True by (auto simp: keeps_rest_def touch_ops_def effects_def output_effects_def owner_def type_hashes_def)
  then have "walked env (output_cells h) (output_effects h) (n, K, U) acc ?acc3"
    using wi am True by (simp add: walked_def output_cells_def)
  moreover have "context_outputs env db tx (snd (h_op h) # is) acc = context_outputs env db tx is ?acc3" for "is"
    using f True acc1 db h(2) by (simp add: k index_entries_ok [OF c])
  ultimately show ?thesis by blast
qed

definition input_effects :: "rollback_env \<Rightarrow> bytes \<Rightarrow> hist_cell \<Rightarrow> effect set" where
  "input_effects env tx h = insert (Participant tx (owner h))
     ((if rollback_to env < h_created h then {Participant (fst (h_op h)) (owner h)} else {}) \<union> type_hashes h)"

lemma context_input_step:
  assumes w: "within n K U acc" and f: "fine_cells env [h]" and a: "affordable [h] (n, K, U)"
    and h: "h_consumed h = Some (b, t)" "rollback_to env < b" "t = None \<or> t = Some tx" "length (fst (h_op h)) = 32" "0 \<le> snd (h_op h)"
    and db: "map_of (consumed_cells db) (h_op h) = Some (h_meta h)"
  shows "\<exists>acc'. walked env [h] (input_effects env tx h) (n, K, U) acc acc' \<and>
    (\<forall>is. context_inputs env db tx (h_op h # is) acc = context_inputs env db tx is acc')"
proof -
  let ?parts = "insert (tx, lock_script_hash (h_cell h)) (tx_participants acc)"
  let ?a = "(stage [DeleteConsumed (h_op h)] acc)\<lparr>tx_participants :=
        (if rollback_to env < h_created h then insert (fst (h_op h), lock_script_hash (h_cell h)) ?parts else ?parts),
      rolled_back_type_hashes := set (option_list (type_script_hash (h_cell h))) \<union> rolled_back_type_hashes acc\<rparr>"
  have c: "cell_fine (h_cell h)" and u: "U + udt_of (h_cell h) < 2 ^ 256" "n + 1 \<le> 2 ^ 63" "K + weight (h_cell h) \<le> 2 ^ 127"
    using f a by (auto simp: affordable_one)
  have "within n K U ?a" using w by simp
  from spent_step [OF this c u h(1,2)] obtain acc1 where
    acc1: "restore_or_drop env (h_cell h) (h_op h) (h_created h)
      (accumulate_stats_capacity_delta env (h_cell h) (fst (h_op h)) (h_created h) (Some b) ?a) = Inr acc1"
    and ops: "batch_ops acc1 = batch_ops ?a @ tl (touch_ops env h)" "tx_participants acc1 = tx_participants ?a"
      "rolled_back_type_hashes acc1 = rolled_back_type_hashes ?a"
    and wi: "within (n + 1) (K + weight (h_cell h)) (U + udt_of (h_cell h)) acc1"
    and am: "\<And>k. acc_amount acc1 k = acc_amount ?a k + net (touch_share env h) k" by blast
  have "effects acc1 = effects acc \<union> Wrote ` set (touch_ops env h) \<union> input_effects env tx h"
    using ops h(1,2) by (auto simp: effects_def touch_ops_def input_effects_def owner_def type_hashes_def)
  then have "walked env [h] (input_effects env tx h) (n, K, U) acc acc1" using wi am by (simp add: walked_def)
  moreover have "context_inputs env db tx (h_op h # is) acc = context_inputs env db tx is acc1" for "is"
  proof -
    have "consumed_at_block (h_meta h) = b" "created_at_block (h_meta h) = h_created h" "consumed_by_tx (h_meta h) = t"
      using h(1) by (simp_all add: h_meta_def)
    moreover have "(case t of None \<Rightarrow> True | Some t \<Rightarrow> t = tx)" using h(3) by auto
    ultimately show ?thesis using f h db acc1 by (simp add: Let_def)
  qed
  ultimately show ?thesis by blast
qed

end
