(* ===== verification/Cell_Restore.thy ===== *)
theory Cell_Restore
  imports Cell_Walk
begin

text \<open>
  What a staged batch does to the rows, and what the full scans achieve on the database of a
  chain: the rows of the target block, and deltas that are the differences of the derived tables.
\<close>

section \<open>The rows after the batch\<close>

definition live_ops_fine :: "row_op list \<Rightarrow> bool" where
  "live_ops_fine ops \<longleftrightarrow>
     (\<forall>k b. PutLive k b \<in> set ops \<longrightarrow> DeleteLive k \<notin> set ops \<and> (\<forall>b'. PutLive k b' \<in> set ops \<longrightarrow> b' = b)) \<and>
     (\<forall>r. PutIndex r \<in> set ops \<longrightarrow> DeleteIndex r \<notin> set ops)"

lemma apply_row_op_rows:
  assumes "distinct (map fst (live_cells db))" "distinct (map fst (consumed_cells db))"
  shows "distinct (map fst (live_cells (apply_row_op x db)))" "distinct (map fst (consumed_cells (apply_row_op x db)))"
  using assms by (cases x; auto simp: distinct_map_filter)+

lemma write_rows_distinct:
  assumes "distinct (map fst (live_cells db))" "distinct (map fst (consumed_cells db))"
  shows "distinct (map fst (live_cells (write_rows ops db))) \<and> distinct (map fst (consumed_cells (write_rows ops db)))"
  unfolding write_rows_def
proof (induction ops rule: rev_induct)
  case (snoc x ops)
  then show ?case using apply_row_op_rows by simp
qed (use assms in simp)

lemma write_rows_consumed:
  "set (consumed_cells (write_rows ops db)) = {r \<in> set (consumed_cells db). DeleteConsumed (fst r) \<notin> set ops}"
  unfolding write_rows_def
proof (induction ops rule: rev_induct)
  case (snoc x ops)
  then show ?case by (cases x) auto
qed simp

lemma live_ops_fine_snoc: "live_ops_fine (ops @ [x]) \<Longrightarrow> live_ops_fine ops"
  by (auto simp: live_ops_fine_def)

lemma write_rows_live:
  "live_ops_fine ops \<Longrightarrow> set (live_cells (write_rows ops db)) =
     {r \<in> set (live_cells db). DeleteLive (fst r) \<notin> set ops \<and> (\<forall>b. PutLive (fst r) b \<notin> set ops)} \<union> {(k, b). PutLive k b \<in> set ops}"
  unfolding write_rows_def
proof (induction ops rule: rev_induct)
  case (snoc x ops)
  show ?case
  proof (cases x)
    case (DeleteLive k)
    then have "\<forall>b. PutLive k b \<notin> set ops" using snoc.prems by (cases k) (auto simp: live_ops_fine_def)
    then show ?thesis using snoc.IH [OF live_ops_fine_snoc [OF snoc.prems]] DeleteLive by auto
  next
    case (PutLive k b)
    then have "\<forall>b'. PutLive k b' \<in> set ops \<longrightarrow> b' = b" using snoc.prems by (cases k) (auto simp: live_ops_fine_def)
    then show ?thesis using snoc.IH [OF live_ops_fine_snoc [OF snoc.prems]] PutLive by auto
  qed (use snoc.IH [OF live_ops_fine_snoc [OF snoc.prems]] in auto)
qed simp

lemma write_rows_index:
  "live_ops_fine ops \<Longrightarrow>
     cell_index (write_rows ops db) = (cell_index db - {r. DeleteIndex r \<in> set ops}) \<union> {r. PutIndex r \<in> set ops}"
  unfolding write_rows_def
proof (induction ops rule: rev_induct)
  case (snoc x ops)
  then have x: "\<And>r. x = DeleteIndex r \<Longrightarrow> PutIndex r \<notin> set ops" by (auto simp: live_ops_fine_def)
  show ?case using snoc.IH [OF live_ops_fine_snoc [OF snoc.prems]] x by (cases x) auto
qed simp

text \<open>Every row of a cell names its outpoint.\<close>

fun row_cell :: "index_row \<Rightarrow> outpoint" where
  "row_cell (ByLock _ _ k) = k"
| "row_cell (ByLockCode _ _ _ k) = k"
| "row_cell (ByType _ _ k) = k"
| "row_cell (ByTypeCode _ _ _ k) = k"
| "row_cell (ByDataHash _ _ k) = k"

lemma rows_name_cell: "r \<in> set (live_rows h) \<union> set (data_rows h) \<Longrightarrow> row_cell r = h_op h"
  by (auto simp: live_rows_def data_rows_def data_hash_row_def option_list_def Let_def split: option.splits if_splits)

lemma live_data_disjoint: "r \<in> set (live_rows h) \<Longrightarrow> r \<notin> set (data_rows h')"
  by (auto simp: live_rows_def data_rows_def data_hash_row_def option_list_def Let_def split: option.splits if_splits)

definition rollback_ops :: "rollback_env \<Rightarrow> hist_cell set \<Rightarrow> row_op set" where
  "rollback_ops env H = (\<Union>h\<in>H. set (touch_ops env h))"

definition created_after :: "int \<Rightarrow> hist_cell \<Rightarrow> bool" where
  "created_after n h \<longleftrightarrow> n < h_created h"

definition spent_after :: "int \<Rightarrow> hist_cell \<Rightarrow> bool" where
  "spent_after n h \<longleftrightarrow> (case h_consumed h of None \<Rightarrow> False | Some (b, _) \<Rightarrow> n < b)"

lemma touch_ops_mem:
  "DeleteLive k \<in> set (touch_ops env h) \<longleftrightarrow> k = h_op h \<and> h_consumed h = None \<and> created_after (rollback_to env) h"
  "PutLive k b \<in> set (touch_ops env h) \<longleftrightarrow>
     k = h_op h \<and> b = h_created h \<and> spent_after (rollback_to env) h \<and> \<not> created_after (rollback_to env) h"
  "DeleteConsumed k \<in> set (touch_ops env h) \<longleftrightarrow> k = h_op h \<and> spent_after (rollback_to env) h"
  "DeleteIndex r \<in> set (touch_ops env h) \<longleftrightarrow> created_after (rollback_to env) h \<and>
     (h_consumed h = None \<and> r \<in> set (live_rows h) \<or> (h_consumed h = None \<or> spent_after (rollback_to env) h) \<and> r \<in> set (data_rows h))"
  "PutIndex r \<in> set (touch_ops env h) \<longleftrightarrow>
     r \<in> set (live_rows h) \<and> spent_after (rollback_to env) h \<and> \<not> created_after (rollback_to env) h"
  by (auto simp: touch_ops_def created_after_def spent_after_def split: option.splits if_splits)

lemma history_cell:
  assumes "history tip H" "h \<in> H"
  shows "h_created h \<le> tip" "cell_fine (h_cell h)" "created_after n h \<Longrightarrow> h_consumed h \<noteq> None \<Longrightarrow> spent_after n h"
    "live_at tip h \<longleftrightarrow> h_consumed h = None" "spent_at tip h \<longleftrightarrow> h_consumed h \<noteq> None"
  using assms
  by (fastforce simp: history_def created_after_def spent_after_def live_at_def spent_at_def split: option.splits)+

lemma history_order: "history tip H \<Longrightarrow> h \<in> H \<Longrightarrow> h_consumed h = Some (b, t) \<Longrightarrow> h_created h \<le> b \<and> b \<le> tip"
  by (auto simp: history_def)

lemma history_inj: "history tip H \<Longrightarrow> h \<in> H \<Longrightarrow> h' \<in> H \<Longrightarrow> h_op h = h_op h' \<Longrightarrow> h = h'"
  by (auto simp: history_def inj_on_def)

lemma alive_then:
  "live_at n h \<longleftrightarrow> \<not> created_after n h \<and> (h_consumed h = None \<or> spent_after n h)"
  "spent_at n h \<longleftrightarrow> h_consumed h \<noteq> None \<and> \<not> spent_after n h"
  "h_created h \<le> n \<longleftrightarrow> \<not> created_after n h" "spent_after n h \<Longrightarrow> h_consumed h \<noteq> None"
  by (auto simp: live_at_def spent_at_def created_after_def spent_after_def split: option.splits)

definition rollback_batch :: "rollback_env \<Rightarrow> hist_cell set \<Rightarrow> row_op list \<Rightarrow> bool" where
  "rollback_batch env H ops \<longleftrightarrow> rollback_ops env H \<subseteq> set ops \<and>
     set ops \<subseteq> rollback_ops env H \<union> (\<lambda>h. DeleteConsumed (h_op h)) ` {h \<in> H. created_after (rollback_to env) h}"

lemma rollback_batch_mem:
  assumes hist: "history tip H" and batch: "rollback_batch env H ops"
  shows "DeleteLive k \<in> set ops \<longleftrightarrow> (\<exists>h\<in>H. k = h_op h \<and> h_consumed h = None \<and> created_after (rollback_to env) h)"
    "PutLive k b \<in> set ops \<longleftrightarrow>
       (\<exists>h\<in>H. k = h_op h \<and> b = h_created h \<and> spent_after (rollback_to env) h \<and> \<not> created_after (rollback_to env) h)"
    "h \<in> H \<Longrightarrow> h_consumed h \<noteq> None \<Longrightarrow> DeleteConsumed (h_op h) \<in> set ops \<longleftrightarrow> spent_after (rollback_to env) h"
    "DeleteIndex r \<in> set ops \<longleftrightarrow> (\<exists>h\<in>H. created_after (rollback_to env) h \<and>
       (h_consumed h = None \<and> r \<in> set (live_rows h) \<or> r \<in> set (data_rows h)))"
    "PutIndex r \<in> set ops \<longleftrightarrow> (\<exists>h\<in>H. r \<in> set (live_rows h) \<and> spent_after (rollback_to env) h \<and> \<not> created_after (rollback_to env) h)"
proof -
  have sub: "x \<in> set ops \<longleftrightarrow> (\<exists>h\<in>H. x \<in> set (touch_ops env h))" if "\<And>h. h \<in> H \<Longrightarrow> x \<noteq> DeleteConsumed (h_op h)" for x
    using batch that unfolding rollback_batch_def rollback_ops_def by blast
  show "DeleteLive k \<in> set ops \<longleftrightarrow> (\<exists>h\<in>H. k = h_op h \<and> h_consumed h = None \<and> created_after (rollback_to env) h)"
    by (simp add: sub touch_ops_mem)
  show "PutLive k b \<in> set ops \<longleftrightarrow>
       (\<exists>h\<in>H. k = h_op h \<and> b = h_created h \<and> spent_after (rollback_to env) h \<and> \<not> created_after (rollback_to env) h)"
    by (simp add: sub touch_ops_mem)
  show "PutIndex r \<in> set ops \<longleftrightarrow> (\<exists>h\<in>H. r \<in> set (live_rows h) \<and> spent_after (rollback_to env) h \<and> \<not> created_after (rollback_to env) h)"
    by (simp add: sub touch_ops_mem)
  show "DeleteIndex r \<in> set ops \<longleftrightarrow> (\<exists>h\<in>H. created_after (rollback_to env) h \<and>
       (h_consumed h = None \<and> r \<in> set (live_rows h) \<or> r \<in> set (data_rows h)))"
    using history_cell(3) [OF hist] by (auto simp: sub touch_ops_mem)
  show "DeleteConsumed (h_op h) \<in> set ops \<longleftrightarrow> spent_after (rollback_to env) h" if h: "h \<in> H" "h_consumed h \<noteq> None"
  proof
    assume "DeleteConsumed (h_op h) \<in> set ops"
    then have "DeleteConsumed (h_op h) \<in> rollback_ops env H \<union> (\<lambda>h. DeleteConsumed (h_op h)) ` {h \<in> H. created_after (rollback_to env) h}"
      using batch unfolding rollback_batch_def by blast
    then have "\<exists>h'\<in>H. h_op h = h_op h' \<and> (spent_after (rollback_to env) h' \<or> created_after (rollback_to env) h')"
      by (auto simp: rollback_ops_def touch_ops_mem)
    then show "spent_after (rollback_to env) h" using history_inj [OF hist] history_cell(3) [OF hist] h by metis
  next
    assume "spent_after (rollback_to env) h"
    then have "DeleteConsumed (h_op h) \<in> rollback_ops env H" using h by (auto simp: rollback_ops_def touch_ops_mem)
    then show "DeleteConsumed (h_op h) \<in> set ops" using batch by (auto simp: rollback_batch_def)
  qed
qed

lemma rollback_batch_fine:
  assumes hist: "history tip H" and batch: "rollback_batch env H ops"
  shows "live_ops_fine ops"
proof -
  have "DeleteLive k \<notin> set ops \<and> (\<forall>b'. PutLive k b' \<in> set ops \<longrightarrow> b' = b)" if "PutLive k b \<in> set ops" for k b
    using that history_inj [OF hist] unfolding rollback_batch_mem [OF hist batch] by (metis alive_then(4))
  moreover have "DeleteIndex r \<notin> set ops" if "PutIndex r \<in> set ops" for r
    using that history_inj [OF hist] rows_name_cell live_data_disjoint unfolding rollback_batch_mem [OF hist batch]
    by (metis UnI1)
  ultimately show ?thesis by (auto simp: live_ops_fine_def)
qed

text \<open>The operations on the rows of one cell.\<close>

lemma rollback_batch_cell:
  assumes hist: "history tip H" and batch: "rollback_batch env H ops" and h: "h \<in> H"
  shows "DeleteLive (h_op h) \<in> set ops \<longleftrightarrow> h_consumed h = None \<and> created_after (rollback_to env) h"
    "h_consumed h = None \<Longrightarrow> PutLive (h_op h) b \<notin> set ops"
    "r \<in> set (live_rows h) \<Longrightarrow> DeleteIndex r \<in> set ops \<longleftrightarrow> h_consumed h = None \<and> created_after (rollback_to env) h"
    "r \<in> set (data_rows h) \<Longrightarrow> DeleteIndex r \<in> set ops \<longleftrightarrow> created_after (rollback_to env) h"
proof -
  note mem = rollback_batch_mem [OF hist batch] and inj = history_inj [OF hist h]
  show "DeleteLive (h_op h) \<in> set ops \<longleftrightarrow> h_consumed h = None \<and> created_after (rollback_to env) h"
    unfolding mem using inj h by metis
  show "PutLive (h_op h) b \<notin> set ops" if "h_consumed h = None" unfolding mem using inj that alive_then(4) by metis
  have row: "h' = h" if "h' \<in> H" "r \<in> set (live_rows h') \<union> set (data_rows h')" "r \<in> set (live_rows h) \<union> set (data_rows h)" for h'
    using inj [OF that(1)] rows_name_cell [OF that(2)] rows_name_cell [OF that(3)] by simp
  show "DeleteIndex r \<in> set ops \<longleftrightarrow> h_consumed h = None \<and> created_after (rollback_to env) h" if "r \<in> set (live_rows h)"
    unfolding mem using row that h live_data_disjoint [OF that] by blast
  show "DeleteIndex r \<in> set ops \<longleftrightarrow> created_after (rollback_to env) h" if "r \<in> set (data_rows h)"
    unfolding mem using row that h live_data_disjoint by blast
qed

lemma image_restrict: "{r \<in> f ` A. Q r} = f ` {h \<in> A. Q (f h)}"
  by blast

text \<open>The batch takes the rows of the tip to the rows of the target block.\<close>

lemma rollback_batch_restores:
  assumes hist: "history tip H" and db: "db_at tip H db" and batch: "rollback_batch env H ops"
  shows "db_at (rollback_to env) H (write_rows ops db)"
proof -
  let ?n = "rollback_to env" and ?db = "write_rows ops db"
  note mem = rollback_batch_mem [OF hist batch] and fine = rollback_batch_fine [OF hist batch]
  have tip: "{h \<in> H. live_at tip h} = {h \<in> H. h_consumed h = None}" "{h \<in> H. spent_at tip h} = {h \<in> H. h_consumed h \<noteq> None}"
    "{h \<in> H. h_created h \<le> tip} = H" using history_cell(1,4,5) [OF hist] by blast+
  have live: "set (live_cells db) = (\<lambda>h. (h_op h, h_created h)) ` {h \<in> H. h_consumed h = None}"
    and spent: "set (consumed_cells db) = (\<lambda>h. (h_op h, h_meta h)) ` {h \<in> H. h_consumed h \<noteq> None}"
    and index: "cell_index db = (\<Union>h\<in>{h \<in> H. h_consumed h = None}. set (live_rows h)) \<union> (\<Union>h\<in>H. set (data_rows h))"
    using db unfolding db_at_def tip by - (elim conjE, assumption)+
  note cell = rollback_batch_cell [OF hist batch]
  have "set (live_cells ?db) = (\<lambda>h. (h_op h, h_created h)) ` {h \<in> H. live_at ?n h}"
  proof -
    have "{r \<in> set (live_cells db). DeleteLive (fst r) \<notin> set ops \<and> (\<forall>b. PutLive (fst r) b \<notin> set ops)} =
        (\<lambda>h. (h_op h, h_created h)) ` {h \<in> H. h_consumed h = None \<and> \<not> created_after ?n h}"
      unfolding live image_restrict using cell(1,2) by (intro image_cong Collect_cong) auto
    moreover have "{(k, b). PutLive k b \<in> set ops} = (\<lambda>h. (h_op h, h_created h)) ` {h \<in> H. spent_after ?n h \<and> \<not> created_after ?n h}"
      unfolding mem by auto
    moreover have "{h \<in> H. live_at ?n h} = {h \<in> H. h_consumed h = None \<and> \<not> created_after ?n h} \<union> {h \<in> H. spent_after ?n h \<and> \<not> created_after ?n h}"
      unfolding alive_then by blast
    ultimately show ?thesis unfolding write_rows_live [OF fine] by (simp only: image_Un)
  qed
  moreover have "set (consumed_cells ?db) = (\<lambda>h. (h_op h, h_meta h)) ` {h \<in> H. spent_at ?n h}"
    unfolding write_rows_consumed spent alive_then image_restrict using mem(3) by (intro image_cong Collect_cong) auto
  moreover have "cell_index ?db = (\<Union>h\<in>{h \<in> H. live_at ?n h}. set (live_rows h)) \<union> (\<Union>h\<in>{h \<in> H. h_created h \<le> ?n}. set (data_rows h))"
  proof -
    have "(\<Union>h\<in>{h \<in> H. h_consumed h = None}. set (live_rows h)) - {r. DeleteIndex r \<in> set ops} =
        (\<Union>h\<in>{h \<in> H. h_consumed h = None \<and> \<not> created_after ?n h}. set (live_rows h))"
      using cell(3) by blast
    moreover have "(\<Union>h\<in>H. set (data_rows h)) - {r. DeleteIndex r \<in> set ops} = (\<Union>h\<in>{h \<in> H. \<not> created_after ?n h}. set (data_rows h))"
      using cell(4) by blast
    moreover have "{r. PutIndex r \<in> set ops} = (\<Union>h\<in>{h \<in> H. spent_after ?n h \<and> \<not> created_after ?n h}. set (live_rows h))"
      unfolding mem by blast
    moreover have "{h \<in> H. live_at ?n h} = {h \<in> H. h_consumed h = None \<and> \<not> created_after ?n h} \<union> {h \<in> H. spent_after ?n h \<and> \<not> created_after ?n h}"
      unfolding alive_then by blast
    ultimately show ?thesis unfolding write_rows_index [OF fine] index Un_Diff alive_then(3) by (simp only: UN_Un Un_ac)
  qed
  ultimately show ?thesis using db write_rows_distinct by (simp add: db_at_def)
qed

section \<open>The amounts\<close>

text \<open>What a cell contributes to the derived tables of a database at some block.\<close>

definition state_share :: "int \<Rightarrow> hist_cell \<Rightarrow> (delta_key \<times> int) list" where
  "state_share n h = (if live_at n h then live_share (h_cell h) (h_created h) else []) @
     (if h_created h \<le> n then created_share (h_cell h) else [])"

definition state_amount :: "int \<Rightarrow> hist_cell set \<Rightarrow> delta_key \<Rightarrow> int" where
  "state_amount n H k = (\<Sum>h\<in>H. net (state_share n h) k)"

definition token_amount :: "int \<Rightarrow> hist_cell set \<Rightarrow> bytes \<times> bytes \<Rightarrow> int" where
  "token_amount n H k = (\<Sum>h\<in>{h \<in> H. live_at n h}. net (token_share TokenAdded (h_cell h)) (TokenAdded k))"

text \<open>The flows of the removed blocks: what their cells moved on each date and hour.\<close>

definition flow_amount :: "rollback_env \<Rightarrow> hist_cell set \<Rightarrow> delta_key \<Rightarrow> int" where
  "flow_amount env H k =
     (\<Sum>h\<in>{h \<in> H. created_after (rollback_to env) h \<or> spent_after (rollback_to env) h}.
        net (flow_share env (h_cell h) (fst (h_op h)) (h_created h) (map_option fst (h_consumed h))) k)"

fun key_kind :: "delta_key \<Rightarrow> nat" where
  "key_kind (TokenAdded _) = 1"
| "key_kind (TokenRemoved _) = 1"
| "key_kind (DateTransferred _) = 2"
| "key_kind (DateCreated _) = 2"
| "key_kind (DateConsumed _) = 2"
| "key_kind (DateDataCreated _) = 2"
| "key_kind (DateDataConsumed _) = 2"
| "key_kind (HourTransferred _) = 2"
| "key_kind _ = 0"

lemma token_share_kind: "key_kind k \<noteq> 1 \<Longrightarrow> net (token_share TokenAdded c) k = 0 \<and> net (token_share TokenRemoved c) k = 0"
  by (intro conjI token_share_other) auto

lemma flow_share_kind: "key_kind k \<noteq> 2 \<Longrightarrow> net (flow_share env c tx b x) k = 0"
  by (cases k) (auto simp: flow_share_def split: option.splits prod.splits)

lemma shares_kind: "key_kind k \<noteq> 0 \<Longrightarrow> net (live_share c b) k = 0 \<and> net (created_share c) k = 0"
  by (cases k) (auto simp: live_share_def created_share_def net_shares)

lemma touch_state:
  assumes "history tip H" "h \<in> H" "key_kind k = 0"
  shows "net (touch_share env h) k = net (state_share (rollback_to env) h) k - net (state_share tip h) k"
  using history_cell(1) [OF assms(1,2)] history_order [OF assms(1,2)] assms(3) flow_share_kind [of k] token_share_kind [of k]
  by (cases "h_consumed h") (auto simp: touch_share_def state_share_def cell_share_def live_at_def Let_def)

lemma touch_flow:
  assumes "history tip H" "h \<in> H" "key_kind k = 2"
  shows "net (touch_share env h) k = (if created_after (rollback_to env) h \<or> spent_after (rollback_to env) h
    then net (flow_share env (h_cell h) (fst (h_op h)) (h_created h) (map_option fst (h_consumed h))) k else 0)"
  using history_cell(3) [OF assms(1,2), of "rollback_to env"] assms(3) shares_kind [of k] token_share_kind [of k]
  by (cases "h_consumed h") (auto simp: touch_share_def cell_share_def created_after_def spent_after_def Let_def)

lemma token_share_same: "net (token_share TokenRemoved c) (TokenRemoved k) = net (token_share TokenAdded c) (TokenAdded k)"
  by (auto simp: token_share_def split: option.splits)

lemma touch_token:
  assumes "history tip H" "h \<in> H"
  shows "net (touch_share env h) (TokenAdded k) - net (touch_share env h) (TokenRemoved k) =
    (if live_at (rollback_to env) h then net (token_share TokenAdded (h_cell h)) (TokenAdded k) else 0) -
    (if live_at tip h then net (token_share TokenAdded (h_cell h)) (TokenAdded k) else 0)"
  using history_cell(1) [OF assms] history_order [OF assms] shares_kind [of "TokenAdded k"] shares_kind [of "TokenRemoved k"]
    flow_share_kind [of "TokenAdded k"] flow_share_kind [of "TokenRemoved k"] token_share_same
    token_share_other [of "TokenAdded k" TokenRemoved] token_share_other [of "TokenRemoved k" TokenAdded]
  by (cases "h_consumed h") (auto simp: touch_share_def cell_share_def live_at_def Let_def)

definition exact_deltas :: "rollback_env \<Rightarrow> int \<Rightarrow> hist_cell set \<Rightarrow> rollback_acc \<Rightarrow> bool" where
  "exact_deltas env tip H acc \<longleftrightarrow>
     (\<forall>k. key_kind k = 0 \<longrightarrow> acc_amount acc k = state_amount (rollback_to env) H k - state_amount tip H k) \<and>
     (\<forall>t. acc_amount acc (TokenAdded t) - acc_amount acc (TokenRemoved t) = token_amount (rollback_to env) H t - token_amount tip H t) \<and>
     (\<forall>k. key_kind k = 2 \<longrightarrow> acc_amount acc k = flow_amount env H k)"

lemma exact_deltasI:
  assumes hist: "history tip H" and am: "\<And>k. acc_amount acc k = (\<Sum>h\<in>H. net (touch_share env h) k)"
  shows "exact_deltas env tip H acc"
proof -
  have fin: "finite H" using hist by (simp add: history_def)
  have "acc_amount acc k = state_amount (rollback_to env) H k - state_amount tip H k" if "key_kind k = 0" for k
    unfolding am state_amount_def sum_subtractf [symmetric] by (rule sum.cong [OF refl touch_state [OF hist _ that]])
  moreover have "acc_amount acc (TokenAdded t) - acc_amount acc (TokenRemoved t) = token_amount (rollback_to env) H t - token_amount tip H t" for t
    unfolding am token_amount_def sum.inter_filter [OF fin] sum_subtractf [symmetric] by (rule sum.cong [OF refl touch_token [OF hist]])
  moreover have "acc_amount acc k = flow_amount env H k" if "key_kind k = 2" for k
    unfolding am flow_amount_def sum.inter_filter [OF fin] by (rule sum.cong [OF refl touch_flow [OF hist _ that]])
  ultimately show ?thesis by (simp add: exact_deltas_def)
qed

section \<open>The walks over a history\<close>

lemma within_empty: "within 0 0 0 empty_acc"
  by (simp add: within_def acc_sizes_def empty_acc_def entry_def)

lemma empty_amount: "acc_amount empty_acc k = 0"
  by (cases k) (auto simp: empty_acc_def entry_def)

lemma effects_empty: "effects empty_acc = {}"
  by (simp add: effects_def empty_acc_def)

definition touched :: "int \<Rightarrow> hist_cell \<Rightarrow> bool" where
  "touched n h \<longleftrightarrow> (if h_consumed h = None then created_after n h else spent_after n h)"

lemma untouched: "\<not> touched (rollback_to env) h \<Longrightarrow> touch_share env h = [] \<and> touch_ops env h = []"
  by (auto simp: touched_def touch_share_def touch_ops_def created_after_def spent_after_def Let_def split: option.splits)

lemma history_affordable:
  assumes hist: "history tip H" and hs: "distinct hs" "set hs \<subseteq> H"
  shows "affordable hs (0, 0, 0)"
proof -
  have fin: "finite H" using hist by (simp add: history_def)
  have nn: "0 \<le> weight (h_cell h) \<and> 0 \<le> udt_of (h_cell h)" if "h \<in> H" for h
    using fine_weights history_cell(2) [OF hist that] by blast
  have "(\<Sum>h\<leftarrow>hs. weight (h_cell h)) \<le> (\<Sum>h\<in>H. weight (h_cell h))" "(\<Sum>h\<leftarrow>hs. udt_of (h_cell h)) \<le> (\<Sum>h\<in>H. udt_of (h_cell h))"
    using hs nn by (auto simp: sum_list_distinct_conv_sum_set intro!: sum_mono2 [OF fin])
  moreover have "int (length hs) \<le> int (card H)" using hs card_mono [OF fin] by (simp add: distinct_card [symmetric])
  moreover have "int (card H) < 2 ^ 63" "(\<Sum>h\<in>H. weight (h_cell h)) < 2 ^ 127" "(\<Sum>h\<in>H. udt_of (h_cell h)) < 2 ^ 256"
    using hist by (simp_all add: history_def weight_def)
  ultimately show ?thesis by (simp add: affordable_def spend_def)
qed

lemma walked_history:
  assumes hist: "history tip H" and w: "walked env hs extra (0, 0, 0) empty_acc acc"
    and hs: "distinct hs" "{h \<in> H. touched (rollback_to env) h} \<subseteq> set hs" "set hs \<subseteq> H"
  shows "exact_deltas env tip H acc" "effects acc = Wrote ` rollback_ops env H \<union> extra"
    "acc_amount acc k = (\<Sum>h\<in>H. net (touch_share env h) k)"
proof -
  have fin: "finite H" using hist by (simp add: history_def)
  have un: "touch_share env h = [] \<and> touch_ops env h = []" if "h \<in> H - set hs" for h using untouched that hs(2) by blast
  have am: "acc_amount acc k = (\<Sum>h\<in>H. net (touch_share env h) k)" for k
  proof -
    have "(\<Sum>h\<in>set hs. net (touch_share env h) k) = (\<Sum>h\<in>H. net (touch_share env h) k)"
      by (rule sum.mono_neutral_left [OF fin hs(3)]) (use un in simp)
    then show ?thesis using w hs(1) by (simp add: walked_def empty_amount sum_list_distinct_conv_sum_set)
  qed
  show "exact_deltas env tip H acc" by (rule exact_deltasI [OF hist am])
  show "acc_amount acc k = (\<Sum>h\<in>H. net (touch_share env h) k)" by (rule am)
  have "(\<Union>h\<in>set hs. set (touch_ops env h)) = rollback_ops env H"
    unfolding rollback_ops_def using un hs(3) by fastforce
  then have "(\<Union>h\<in>set hs. Wrote ` set (touch_ops env h)) = Wrote ` rollback_ops env H" by blast
  then show "effects acc = Wrote ` rollback_ops env H \<union> extra" using w by (simp add: walked_def effects_empty)
qed

lemma list_of_image:
  assumes "distinct xs" "set xs = f ` A" "inj_on f A"
  shows "\<exists>ys. xs = map f ys \<and> distinct ys \<and> set ys = A"
proof -
  let ?ys = "map (inv_into A f) xs"
  have "map f ?ys = xs" using assms(2) by (auto intro!: map_idI simp: f_inv_into_f)
  moreover have "set ?ys = A" using assms(2,3) by (auto simp: image_image)
  ultimately show ?thesis using assms(1) by (metis distinct_map)
qed

lemma history_rows:
  assumes hist: "history tip H" and db: "db_at tip H db"
  shows "\<exists>hs. live_cells db = map (\<lambda>h. (h_op h, h_created h)) hs \<and> distinct hs \<and> set hs = {h \<in> H. h_consumed h = None}"
    "\<exists>hs. consumed_cells db = map (\<lambda>h. (h_op h, h_meta h)) hs \<and> distinct hs \<and> set hs = {h \<in> H. h_consumed h \<noteq> None}"
proof -
  have tip: "{h \<in> H. live_at tip h} = {h \<in> H. h_consumed h = None}" "{h \<in> H. spent_at tip h} = {h \<in> H. h_consumed h \<noteq> None}"
    using history_cell(4,5) [OF hist] by blast+
  show "\<exists>hs. live_cells db = map (\<lambda>h. (h_op h, h_created h)) hs \<and> distinct hs \<and> set hs = {h \<in> H. h_consumed h = None}"
  proof (rule list_of_image)
    show "distinct (live_cells db)" using db by (simp add: db_at_def distinct_map)
    show "set (live_cells db) = (\<lambda>h. (h_op h, h_created h)) ` {h \<in> H. h_consumed h = None}" using db by (simp add: db_at_def tip)
    show "inj_on (\<lambda>h. (h_op h, h_created h)) {h \<in> H. h_consumed h = None}" using history_inj [OF hist] by (auto simp: inj_on_def)
  qed
  show "\<exists>hs. consumed_cells db = map (\<lambda>h. (h_op h, h_meta h)) hs \<and> distinct hs \<and> set hs = {h \<in> H. h_consumed h \<noteq> None}"
  proof (rule list_of_image)
    show "distinct (consumed_cells db)" using db by (simp add: db_at_def distinct_map)
    show "set (consumed_cells db) = (\<lambda>h. (h_op h, h_meta h)) ` {h \<in> H. h_consumed h \<noteq> None}" using db by (simp add: db_at_def tip)
    show "inj_on (\<lambda>h. (h_op h, h_meta h)) {h \<in> H. h_consumed h \<noteq> None}" using history_inj [OF hist] by (auto simp: inj_on_def)
  qed
qed

definition cells_known :: "rollback_env \<Rightarrow> hist_cell set \<Rightarrow> bool" where
  "cells_known env H \<longleftrightarrow> (\<forall>h\<in>H. cells_store env (h_op h) = Some (h_cell h))"

lemma history_fine: "history tip H \<Longrightarrow> cells_known env H \<Longrightarrow> set hs \<subseteq> H \<Longrightarrow> fine_cells env hs"
  using history_cell(2) by (fastforce simp: fine_cells_def cells_known_def)

lemma wrote_ops: "effects acc = Wrote ` R \<union> E \<Longrightarrow> {x. Wrote x \<in> E} = D \<Longrightarrow> set (batch_ops acc) = R \<union> D"
  by (auto simp: effects_def set_eq_iff image_iff)

lemma fallback_history:
  assumes hist: "history tip H" and db: "db_at tip H db" and known: "cells_known env H"
  shows "\<exists>acc. rollback_cells_fallback env db = Inr acc \<and> exact_deltas env tip H acc \<and>
    set (batch_ops acc) = rollback_ops env H \<and> (\<forall>k. acc_amount acc k = (\<Sum>h\<in>H. net (touch_share env h) k))"
proof -
  obtain ls cs where ls: "live_cells db = map (\<lambda>h. (h_op h, h_created h)) ls" "distinct ls" "set ls = {h \<in> H. h_consumed h = None}"
    and cs: "consumed_cells db = map (\<lambda>h. (h_op h, h_meta h)) cs" "distinct cs" "set cs = {h \<in> H. h_consumed h \<noteq> None}"
    using history_rows [OF hist db] by blast
  have all: "distinct (ls @ cs)" "set (ls @ cs) = H" using ls(2,3) cs(2,3) by auto
  have fine: "fine_cells env ls" "fine_cells env cs" using history_fine [OF hist known] ls(3) cs(3) by auto
  have aff: "affordable (ls @ cs) (0, 0, 0)" using history_affordable [OF hist] all by simp
  have "\<forall>h\<in>set ls. h_consumed h = None" "\<forall>h\<in>set cs. h_consumed h \<noteq> None" using ls(3) cs(3) by auto
  note kinds = this
  obtain acc1 where a1: "fallback_live env (live_cells db) empty_acc = Inr acc1" "walked env ls {} (0, 0, 0) empty_acc acc1"
    using fallback_live_walk [OF within_empty fine(1) affordable_prefix [OF aff fine(2)] kinds(1)] ls(1) by auto
  obtain n K U where b: "spend ls (0, 0, 0) = (n, K, U)" by (metis prod_cases3)
  have "affordable cs (n, K, U)" using affordable_suffix [OF aff] b by simp
  then obtain acc where a2: "fallback_consumed env (consumed_cells db) acc1 = Inr acc" "walked env cs {} (n, K, U) acc1 acc"
    using fallback_consumed_walk [OF walked_within [OF a1(2) b] fine(2) _ kinds(2)] cs(1) by auto
  have "walked env (ls @ cs) {} (0, 0, 0) empty_acc acc" using walked_append [OF a1(2), of cs "{}" acc] a2(2) b by simp
  note w = walked_history [OF hist this all(1)]
  have sub: "{h \<in> H. touched (rollback_to env) h} \<subseteq> set (ls @ cs)" "set (ls @ cs) \<subseteq> H" using all(2) by auto
  have "rollback_cells_fallback env db = Inr acc" using a1(1) a2(1) by (simp add: rollback_cells_fallback_def)
  moreover have "set (batch_ops acc) = rollback_ops env H" using wrote_ops [OF w(2) [OF sub]] by simp
  ultimately show ?thesis using w(1,3) [OF sub] by blast
qed

lemma rollback_batch_exact: "set ops = rollback_ops env H \<Longrightarrow> rollback_batch env H ops"
  by (simp add: rollback_batch_def)

end
