(* ===== verification/Cell_Contexts.thy ===== *)
theory Cell_Contexts
  imports Cell_Restore "HOL-Library.Multiset"
begin

text \<open>
  The walk over the recorded transactions when the record of the removed blocks is complete, and
  the properties of the two walks.
\<close>

section \<open>A complete record of the removed transactions\<close>

definition output_points :: "tx_context \<Rightarrow> outpoint list" where
  "output_points ctx = map (\<lambda>i. (ctx_tx_hash ctx, int i)) [0..<nat (ctx_outputs_count ctx)]"

definition spent_points :: "tx_context \<Rightarrow> outpoint list" where
  "spent_points ctx = filter (\<lambda>i. 0 \<le> snd i) (ctx_inputs ctx)"

definition context_fine :: "tx_context \<Rightarrow> bool" where
  "context_fine ctx \<longleftrightarrow> length (ctx_tx_hash ctx) = 32 \<and> 0 \<le> ctx_outputs_count ctx \<and>
     (\<forall>i\<in>set (ctx_inputs ctx). length (fst i) = 32 \<and> (snd i < 0 \<longrightarrow> snd i = - 1 \<and> list_all (\<lambda>b. b = 0) (fst i)))"

definition recorded :: "int \<Rightarrow> hist_cell set \<Rightarrow> tx_context list \<Rightarrow> bool" where
  "recorded n H ctxs \<longleftrightarrow>
     (\<forall>ctx\<in>set ctxs. context_fine ctx \<and>
        (\<forall>h\<in>H. h_op h \<in> set (spent_points ctx) \<longrightarrow> snd (the (h_consumed h)) = None \<or> snd (the (h_consumed h)) = Some (ctx_tx_hash ctx))) \<and>
     distinct (concat (map output_points ctxs)) \<and> distinct (concat (map spent_points ctxs)) \<and>
     set (concat (map output_points ctxs)) = h_op ` {h \<in> H. created_after n h} \<and>
     set (concat (map spent_points ctxs)) = h_op ` {h \<in> H. spent_after n h}"

lemma lookups:
  assumes hist: "history tip H" and db: "db_at tip H db" and h: "h \<in> H"
  shows "map_of (live_cells db) (h_op h) = (if h_consumed h = None then Some (h_created h) else None)"
    "h_consumed h \<noteq> None \<Longrightarrow> map_of (consumed_cells db) (h_op h) = Some (h_meta h)"
proof -
  have d: "distinct (map fst (live_cells db))" "distinct (map fst (consumed_cells db))" using db by (simp_all add: db_at_def)
  obtain ls cs where ls: "live_cells db = map (\<lambda>h. (h_op h, h_created h)) ls" "set ls = {h \<in> H. h_consumed h = None}"
    and cs: "consumed_cells db = map (\<lambda>h. (h_op h, h_meta h)) cs" "set cs = {h \<in> H. h_consumed h \<noteq> None}"
    using history_rows [OF hist db] by blast
  have "h_op h \<notin> fst ` set (live_cells db)" if "h_consumed h \<noteq> None"
    using that history_inj [OF hist h] by (auto simp: ls)
  moreover have "(h_op h, h_created h) \<in> set (live_cells db)" if "h_consumed h = None" using that h by (auto simp: ls)
  ultimately show "map_of (live_cells db) (h_op h) = (if h_consumed h = None then Some (h_created h) else None)"
    using d(1) by (auto simp: map_of_eq_None_iff)
  show "map_of (consumed_cells db) (h_op h) = Some (h_meta h)" if "h_consumed h \<noteq> None"
    using d(2) that h by (auto simp: cs(2) cs(1) intro!: map_of_is_SomeI)
qed

definition cell_of :: "hist_cell set \<Rightarrow> outpoint \<Rightarrow> hist_cell" where
  "cell_of H k = inv_into H h_op k"

lemma cell_of: "k \<in> h_op ` A \<Longrightarrow> A \<subseteq> H \<Longrightarrow> inj_on h_op H \<Longrightarrow> cell_of H k \<in> A \<and> h_op (cell_of H k) = k"
  unfolding cell_of_def by (auto simp: subset_iff)

definition out_cells :: "hist_cell set \<Rightarrow> tx_context \<Rightarrow> hist_cell list" where
  "out_cells H ctx = map (cell_of H) (output_points ctx)"

definition in_cells :: "hist_cell set \<Rightarrow> tx_context \<Rightarrow> hist_cell list" where
  "in_cells H ctx = map (cell_of H) (spent_points ctx)"

definition context_cells :: "hist_cell set \<Rightarrow> tx_context \<Rightarrow> hist_cell list" where
  "context_cells H ctx = concat (map output_cells (out_cells H ctx)) @ in_cells H ctx"

definition context_effects :: "rollback_env \<Rightarrow> hist_cell set \<Rightarrow> tx_context \<Rightarrow> effect set" where
  "context_effects env H ctx = (\<Union>h\<in>set (out_cells H ctx). output_effects h) \<union>
     (\<Union>h\<in>set (in_cells H ctx). input_effects env (ctx_tx_hash ctx) h)"

lemma recorded_cells:
  assumes hist: "history tip H" and rec: "recorded n H ctxs" and c: "ctx \<in> set ctxs"
  shows "set (out_cells H ctx) \<subseteq> {h \<in> H. created_after n h}" "set (in_cells H ctx) \<subseteq> {h \<in> H. spent_after n h}"
    "map h_op (out_cells H ctx) = output_points ctx" "map h_op (in_cells H ctx) = spent_points ctx"
proof -
  have inj: "inj_on h_op H" using hist by (simp add: history_def)
  have o: "k \<in> h_op ` {h \<in> H. created_after n h}" if "k \<in> set (output_points ctx)" for k
    using rec c that unfolding recorded_def by fastforce
  have i: "k \<in> h_op ` {h \<in> H. spent_after n h}" if "k \<in> set (spent_points ctx)" for k
    using rec c that unfolding recorded_def by fastforce
  show "set (out_cells H ctx) \<subseteq> {h \<in> H. created_after n h}" "map h_op (out_cells H ctx) = output_points ctx"
    using cell_of [OF o _ inj] by (auto simp: out_cells_def intro!: map_idI)
  show "set (in_cells H ctx) \<subseteq> {h \<in> H. spent_after n h}" "map h_op (in_cells H ctx) = spent_points ctx"
    using cell_of [OF i _ inj] by (auto simp: in_cells_def intro!: map_idI)
qed

lemma outputs_walk:
  assumes hist: "history tip H" and db: "db_at tip H db" and known: "cells_known env H"
    and hs: "\<forall>h\<in>set hs. h \<in> H \<and> created_after (rollback_to env) h \<and> fst (h_op h) = tx"
    and w: "within n K U acc" "affordable (concat (map output_cells hs)) (n, K, U)"
  shows "\<exists>acc'. context_outputs env db tx (map (\<lambda>h. snd (h_op h)) hs) acc = Inr acc' \<and>
    walked env (concat (map output_cells hs)) (\<Union>h\<in>set hs. output_effects h) (n, K, U) acc acc'"
proof (rule walk_rows [where run = "\<lambda>hs. context_outputs env db tx (map (\<lambda>h. snd (h_op h)) hs)", OF _ _ _ w])
  fix h n K U acc
  assume h: "h \<in> set hs" "within n K U acc" "affordable (output_cells h) (n, K, U)"
  have "fine_cells env [h]" using history_fine [OF hist known, of "[h]"] hs h(1) by simp
  from context_output_step [OF h(2) this h(3), of tx db]
  show "\<exists>acc'. walked env (output_cells h) (output_effects h) (n, K, U) acc acc' \<and>
      (\<forall>rs. context_outputs env db tx (map (\<lambda>h. snd (h_op h)) (h # rs)) acc = context_outputs env db tx (map (\<lambda>h. snd (h_op h)) rs) acc')"
    using hs h(1) lookups(1) [OF hist db] by (auto simp: created_after_def)
next
  fix h assume "h \<in> set hs"
  then show "fine_cells env (output_cells h)" using history_fine [OF hist known, of "output_cells h"] hs by (auto simp: output_cells_def)
qed simp

lemma inputs_walk:
  assumes hist: "history tip H" and db: "db_at tip H db" and known: "cells_known env H"
    and i: "\<forall>i\<in>set is. length (fst i) = 32 \<and> (snd i < 0 \<longrightarrow> snd i = - 1 \<and> list_all (\<lambda>b. b = 0) (fst i))"
    and hs: "\<forall>i\<in>set is. 0 \<le> snd i \<longrightarrow> cell_of H i \<in> H \<and> h_op (cell_of H i) = i \<and> spent_after (rollback_to env) (cell_of H i) \<and>
      (snd (the (h_consumed (cell_of H i))) = None \<or> snd (the (h_consumed (cell_of H i))) = Some tx)"
    and w: "within n K U acc" "affordable (map (cell_of H) (filter (\<lambda>i. 0 \<le> snd i) is)) (n, K, U)"
  shows "\<exists>acc'. context_inputs env db tx is acc = Inr acc' \<and>
    walked env (map (cell_of H) (filter (\<lambda>i. 0 \<le> snd i) is))
      (\<Union>i\<in>set (filter (\<lambda>i. 0 \<le> snd i) is). input_effects env tx (cell_of H i)) (n, K, U) acc acc'"
proof -
  let ?cells = "\<lambda>i. if 0 \<le> snd i then [cell_of H i] else []"
  let ?extra = "\<lambda>i. if 0 \<le> snd i then input_effects env tx (cell_of H i) else {}"
  have c: "concat (map ?cells is) = map (cell_of H) (filter (\<lambda>i. 0 \<le> snd i) is)" by (induction "is") auto
  have e: "(\<Union>i\<in>set is. ?extra i) = (\<Union>i\<in>set (filter (\<lambda>i. 0 \<le> snd i) is). input_effects env tx (cell_of H i))" by auto
  have "\<exists>acc'. context_inputs env db tx is acc = Inr acc' \<and>
      walked env (concat (map ?cells is)) (\<Union>i\<in>set is. ?extra i) (n, K, U) acc acc'"
  proof (rule walk_rows [where run = "context_inputs env db tx"])
    fix k n K U acc
    assume k: "k \<in> set is" "within n K U acc" "affordable (?cells k) (n, K, U)"
    show "\<exists>acc'. walked env (?cells k) (?extra k) (n, K, U) acc acc' \<and>
        (\<forall>rs. context_inputs env db tx (k # rs) acc = context_inputs env db tx rs acc')"
    proof (cases "0 \<le> snd k")
      case True
      let ?h = "cell_of H k"
      have h: "?h \<in> H" "h_op ?h = k" "spent_after (rollback_to env) ?h" using hs k(1) True by auto
      then obtain b t where b: "h_consumed ?h = Some (b, t)" "rollback_to env < b" by (auto simp: spent_after_def split: option.splits)
      have t: "t = None \<or> t = Some tx" using hs k(1) True b by force
      have "fine_cells env [?h]" using history_fine [OF hist known, of "[?h]"] h(1) by simp
      from context_input_step [OF k(2) this _ b t, of db] lookups(2) [OF hist db h(1)] show ?thesis
        using True k(1,3) i b(1) h(2) by auto
    next
      case False
      then show ?thesis using walked_Nil [OF k(2)] i k(1) by (intro exI [of _ acc]) auto
    qed
  next
    fix k assume "k \<in> set is"
    then show "fine_cells env (?cells k)" using history_fine [OF hist known, of "?cells k"] hs by auto
  qed (use w c in simp_all)
  then show ?thesis unfolding c e .
qed

lemma contexts_walk:
  assumes hist: "history tip H" and db: "db_at tip H db" and known: "cells_known env H"
    and rec: "recorded (rollback_to env) H ctxs"
    and aff: "affordable (concat (map (context_cells H) ctxs)) (0, 0, 0)"
  shows "\<exists>acc. rollback_contexts env db ctxs empty_acc = Inr acc \<and>
    walked env (concat (map (context_cells H) ctxs)) (\<Union>ctx\<in>set ctxs. context_effects env H ctx) (0, 0, 0) empty_acc acc"
proof (rule walk_rows [where run = "rollback_contexts env db", OF _ _ _ within_empty aff])
  fix ctx n K U acc
  assume ctx: "ctx \<in> set ctxs" "within n K U acc" "affordable (context_cells H ctx) (n, K, U)"
  let ?os = "concat (map output_cells (out_cells H ctx))" and ?tx = "ctx_tx_hash ctx"
  note cells = recorded_cells [OF hist rec ctx(1)]
  have fine: "context_fine ctx" using rec ctx(1) by (simp add: recorded_def)
  have "set (in_cells H ctx) \<subseteq> H" using cells(2) by auto
  then have f: "fine_cells env (in_cells H ctx)" by (rule history_fine [OF hist known])
  have a: "affordable ?os (n, K, U)" using affordable_prefix [OF _ f] ctx(3) by (simp add: context_cells_def)
  have "fst (h_op h) = ?tx" if "h \<in> set (out_cells H ctx)" for h
  proof -
    have "h_op h \<in> set (output_points ctx)" using that cells(3) by (metis image_eqI list.set_map)
    then show ?thesis by (auto simp: output_points_def)
  qed
  then have outs: "\<forall>h\<in>set (out_cells H ctx). h \<in> H \<and> created_after (rollback_to env) h \<and> fst (h_op h) = ?tx" using cells(1) by blast
  have idx: "map int [0..<nat (ctx_outputs_count ctx)] = map (\<lambda>h. snd (h_op h)) (out_cells H ctx)"
    using arg_cong [OF cells(3), of "map snd"] by (simp add: output_points_def comp_def)
  obtain acc1 where a1: "context_outputs env db ?tx (map int [0..<nat (ctx_outputs_count ctx)]) acc = Inr acc1"
    "walked env ?os (\<Union>h\<in>set (out_cells H ctx). output_effects h) (n, K, U) acc acc1"
    using outputs_walk [OF hist db known outs ctx(2) a] unfolding idx by blast
  obtain n1 K1 U1 where b: "spend ?os (n, K, U) = (n1, K1, U1)" by (metis prod_cases3)
  have a2: "affordable (in_cells H ctx) (n1, K1, U1)"
    using affordable_suffix [of ?os "in_cells H ctx" "(n, K, U)"] ctx(3) b by (simp add: context_cells_def)
  have ins: "cell_of H i \<in> H \<and> h_op (cell_of H i) = i \<and> spent_after (rollback_to env) (cell_of H i) \<and>
      (snd (the (h_consumed (cell_of H i))) = None \<or> snd (the (h_consumed (cell_of H i))) = Some ?tx)" if "i \<in> set (spent_points ctx)" for i
  proof -
    have h: "cell_of H i \<in> set (in_cells H ctx)" using that by (simp add: in_cells_def)
    have "h_op (cell_of H i) = i" using cells(4) that by (simp add: in_cells_def map_idI list_eq_iff_nth_eq in_set_conv_nth) metis
    moreover have "cell_of H i \<in> H" "spent_after (rollback_to env) (cell_of H i)" using h cells(2) by auto
    ultimately show ?thesis using rec ctx(1) that by (auto simp: recorded_def)
  qed
  obtain acc2 where "context_inputs env db ?tx (ctx_inputs ctx) acc1 = Inr acc2"
    "walked env (in_cells H ctx) (\<Union>i\<in>set (spent_points ctx). input_effects env ?tx (cell_of H i)) (n1, K1, U1) acc1 acc2"
    using inputs_walk [OF hist db known _ _ walked_within [OF a1(2) b], of "ctx_inputs ctx" ?tx] fine ins a2
    by (auto simp: context_fine_def in_cells_def spent_points_def)
  moreover have "(\<Union>i\<in>set (spent_points ctx). input_effects env ?tx (cell_of H i)) = (\<Union>h\<in>set (in_cells H ctx). input_effects env ?tx h)"
    by (simp add: in_cells_def)
  ultimately show "\<exists>acc'. walked env (context_cells H ctx) (context_effects env H ctx) (n, K, U) acc acc' \<and>
      (\<forall>rs. rollback_contexts env db (ctx # rs) acc = rollback_contexts env db rs acc')"
    using walked_append [OF a1(2), of "in_cells H ctx" _ acc2] a1(1) b fine
    by (intro exI [of _ acc2]) (simp add: context_cells_def context_effects_def context_fine_def)
next
  fix ctx assume ctx: "ctx \<in> set ctxs"
  show "fine_cells env (context_cells H ctx)"
    using history_fine [OF hist known, of "context_cells H ctx"] recorded_cells(1,2) [OF hist rec ctx]
    by (auto simp: context_cells_def output_cells_def split: if_splits)
qed simp

lemma output_cells_filter: "concat (map output_cells hs) = filter (\<lambda>h. h_consumed h = None) hs"
  by (induction hs) (auto simp: output_cells_def)

lemma recorded_all:
  assumes hist: "history tip H" and rec: "recorded n H ctxs"
  shows "distinct (concat (map (out_cells H) ctxs))" "set (concat (map (out_cells H) ctxs)) = {h \<in> H. created_after n h}"
    "distinct (concat (map (in_cells H) ctxs))" "set (concat (map (in_cells H) ctxs)) = {h \<in> H. spent_after n h}"
proof -
  have sub: "set (concat (map (out_cells H) ctxs)) \<subseteq> {h \<in> H. created_after n h}" "set (concat (map (in_cells H) ctxs)) \<subseteq> {h \<in> H. spent_after n h}"
    using recorded_cells(1,2) [OF hist rec] by auto
  have o: "map h_op (concat (map (out_cells H) ctxs)) = concat (map output_points ctxs)"
    and i: "map h_op (concat (map (in_cells H) ctxs)) = concat (map spent_points ctxs)"
    using recorded_cells(3,4) [OF hist rec] by (simp_all add: map_concat cong: map_cong)
  have inj: "inj_on h_op H" using hist by (simp add: history_def)
  have eq: "A = B" if "h_op ` A = h_op ` B" "A \<subseteq> H" "B \<subseteq> H" for A B using inj that by (simp add: inj_on_image_eq_iff)
  show "distinct (concat (map (out_cells H) ctxs))" "distinct (concat (map (in_cells H) ctxs))"
    using rec o i unfolding recorded_def by (metis distinct_map)+
  have "h_op ` set (concat (map (out_cells H) ctxs)) = h_op ` {h \<in> H. created_after n h}"
    using rec unfolding recorded_def by (simp only: set_map [symmetric] o)
  then show "set (concat (map (out_cells H) ctxs)) = {h \<in> H. created_after n h}" by (rule eq) (use sub in auto)
  have "h_op ` set (concat (map (in_cells H) ctxs)) = h_op ` {h \<in> H. spent_after n h}"
    using rec unfolding recorded_def by (simp only: set_map [symmetric] i)
  then show "set (concat (map (in_cells H) ctxs)) = {h \<in> H. spent_after n h}" by (rule eq) (use sub in auto)
qed

lemma touched_iff: "touched n h \<longleftrightarrow> h_consumed h = None \<and> created_after n h \<or> spent_after n h"
  by (cases "h_consumed h") (auto simp: touched_def spent_after_def)

lemma recorded_touched:
  assumes hist: "history tip H" and rec: "recorded n H ctxs"
  shows "distinct (concat (map (context_cells H) ctxs))" "set (concat (map (context_cells H) ctxs)) = {h \<in> H. touched n h}"
proof -
  let ?os = "filter (\<lambda>h. h_consumed h = None) (concat (map (out_cells H) ctxs))" and ?is = "concat (map (in_cells H) ctxs)"
  note all = recorded_all [OF hist rec]
  have "mset (concat (map (context_cells H) ctxs)) = mset (?os @ ?is)"
    by (induction ctxs) (auto simp: context_cells_def output_cells_filter)
  note perm = mset_eq_imp_distinct_iff [OF this] mset_eq_setD [OF this]
  have "distinct (?os @ ?is)" using all(1,3) all(4) by (auto simp: alive_then(4) simp del: set_concat distinct_concat_iff)
  then show "distinct (concat (map (context_cells H) ctxs))" using perm(1) by blast
  have "set (?os @ ?is) = {h \<in> H. h_consumed h = None \<and> created_after n h} \<union> {h \<in> H. spent_after n h}"
    unfolding set_append set_filter all by blast
  also have "\<dots> = {h \<in> H. touched n h}" unfolding touched_iff by blast
  finally show "set (concat (map (context_cells H) ctxs)) = {h \<in> H. touched n h}" using perm(2) by simp
qed

definition participants_of :: "int \<Rightarrow> hist_cell set \<Rightarrow> tx_context list \<Rightarrow> (bytes \<times> bytes) set" where
  "participants_of n H ctxs = {(fst (h_op h), owner h) | h. h \<in> H \<and> created_after n h} \<union>
     {(ctx_tx_hash ctx, owner h) | ctx h. ctx \<in> set ctxs \<and> h \<in> H \<and> h_op h \<in> set (spent_points ctx)}"

definition hashes_of :: "int \<Rightarrow> hist_cell set \<Rightarrow> bytes set" where
  "hashes_of n H = {t. \<exists>h\<in>H. (created_after n h \<or> spent_after n h) \<and> type_script_hash (h_cell h) = Some t}"

lemma effects_sel:
  "tx_participants acc = {(t, l). Participant t l \<in> effects acc}" "rolled_back_type_hashes acc = {t. TypeHash t \<in> effects acc}"
  by (auto simp: effects_def)

lemma contexts_effects:
  assumes hist: "history tip H" and rec: "recorded (rollback_to env) H ctxs" and E: "E = (\<Union>ctx\<in>set ctxs. context_effects env H ctx)"
  shows "{x. Wrote x \<in> E} = (\<lambda>h. DeleteConsumed (h_op h)) ` {h \<in> H. created_after (rollback_to env) h}"
    "{(t, l). Participant t l \<in> E} = participants_of (rollback_to env) H ctxs" "{t. TypeHash t \<in> E} = hashes_of (rollback_to env) H"
proof -
  let ?n = "rollback_to env"
  note all = recorded_all(2,4) [OF hist rec]
  have out: "(\<exists>ctx\<in>set ctxs. \<exists>h\<in>set (out_cells H ctx). P h) \<longleftrightarrow> (\<exists>h\<in>H. created_after ?n h \<and> P h)" for P
    using all(1) unfolding set_concat set_map by blast
  have inn: "(\<exists>ctx\<in>set ctxs. \<exists>h\<in>set (in_cells H ctx). P h) \<longleftrightarrow> (\<exists>h\<in>H. spent_after ?n h \<and> P h)" for P
    using all(2) unfolding set_concat set_map by blast
  have spends: "(\<exists>h\<in>set (in_cells H ctx). P h) \<longleftrightarrow> (\<exists>h\<in>H. h_op h \<in> set (spent_points ctx) \<and> P h)" if "ctx \<in> set ctxs" for ctx P
  proof -
    have "h_op ` set (in_cells H ctx) = set (spent_points ctx)" using recorded_cells(4) [OF hist rec that] by (metis list.set_map)
    moreover have "set (in_cells H ctx) \<subseteq> H" using recorded_cells(2) [OF hist rec that] by blast
    ultimately have "h \<in> set (in_cells H ctx) \<longleftrightarrow> h \<in> H \<and> h_op h \<in> set (spent_points ctx)" for h
      using history_inj [OF hist] by blast
    then show ?thesis by blast
  qed
  have split: "x \<in> E \<longleftrightarrow> (\<exists>ctx\<in>set ctxs. \<exists>h\<in>set (out_cells H ctx). x \<in> output_effects h) \<or>
      (\<exists>ctx\<in>set ctxs. \<exists>h\<in>set (in_cells H ctx). x \<in> input_effects env (ctx_tx_hash ctx) h)" for x
    by (auto simp: E context_effects_def)
  have w: "Wrote x \<in> E \<longleftrightarrow> (\<exists>h\<in>H. created_after ?n h \<and> x = DeleteConsumed (h_op h))" for x
    unfolding split out by (auto simp: output_effects_def input_effects_def type_hashes_def)
  then show "{x. Wrote x \<in> E} = (\<lambda>h. DeleteConsumed (h_op h)) ` {h \<in> H. created_after ?n h}" by auto
  have "TypeHash t \<in> E \<longleftrightarrow> (\<exists>h\<in>H. (created_after ?n h \<and> h_consumed h = None \<or> spent_after ?n h) \<and> type_script_hash (h_cell h) = Some t)" for t
  proof -
    have i: "TypeHash t \<in> input_effects env tx h \<longleftrightarrow> type_script_hash (h_cell h) = Some t"
      and o: "TypeHash t \<in> output_effects h \<longleftrightarrow> h_consumed h = None \<and> type_script_hash (h_cell h) = Some t" for tx h
      by (auto simp: output_effects_def input_effects_def type_hashes_def option_list_def split: option.splits)
    show ?thesis unfolding split out i o inn by blast
  qed
  then show "{t. TypeHash t \<in> E} = hashes_of ?n H" using history_cell(3) [OF hist] unfolding hashes_of_def by blast
  have "Participant t l \<in> E \<longleftrightarrow> (\<exists>h\<in>H. created_after ?n h \<and> t = fst (h_op h) \<and> l = owner h) \<or>
      (\<exists>ctx\<in>set ctxs. \<exists>h\<in>H. h_op h \<in> set (spent_points ctx) \<and> t = ctx_tx_hash ctx \<and> l = owner h)" for t l
  proof -
    have i: "Participant t l \<in> input_effects env tx h \<longleftrightarrow> l = owner h \<and> (t = tx \<or> created_after ?n h \<and> t = fst (h_op h))"
      and o: "Participant t l \<in> output_effects h \<longleftrightarrow> h_consumed h = None \<and> t = fst (h_op h) \<and> l = owner h" for tx h
      by (auto simp: output_effects_def input_effects_def type_hashes_def created_after_def)
    have "Participant t l \<in> E \<longleftrightarrow> (\<exists>h\<in>H. created_after ?n h \<and> h_consumed h = None \<and> t = fst (h_op h) \<and> l = owner h) \<or>
        (\<exists>ctx\<in>set ctxs. \<exists>h\<in>set (in_cells H ctx). t = ctx_tx_hash ctx \<and> l = owner h) \<or>
        (\<exists>ctx\<in>set ctxs. \<exists>h\<in>set (in_cells H ctx). created_after ?n h \<and> t = fst (h_op h) \<and> l = owner h)"
      unfolding split out i o by blast
    moreover have "(\<exists>ctx\<in>set ctxs. \<exists>h\<in>set (in_cells H ctx). t = ctx_tx_hash ctx \<and> l = owner h) \<longleftrightarrow>
        (\<exists>ctx\<in>set ctxs. \<exists>h\<in>H. h_op h \<in> set (spent_points ctx) \<and> t = ctx_tx_hash ctx \<and> l = owner h)"
      by (rule bex_cong [OF refl]) (rule spends)
    moreover have "h_consumed h = None \<or> spent_after ?n h" if "h \<in> H" "created_after ?n h" for h using history_cell(3) [OF hist] that by blast
    ultimately show ?thesis unfolding inn by blast
  qed
  then show "{(t, l). Participant t l \<in> E} = participants_of ?n H ctxs" unfolding participants_of_def by blast
qed

lemma contexts_history:
  assumes hist: "history tip H" and db: "db_at tip H db" and known: "cells_known env H"
    and rec: "recorded (rollback_to env) H ctxs"
  shows "\<exists>acc. rollback_cells_from_contexts env db ctxs = Inr acc \<and> exact_deltas env tip H acc \<and>
    rollback_batch env H (batch_ops acc) \<and> (\<forall>k. acc_amount acc k = (\<Sum>h\<in>H. net (touch_share env h) k)) \<and>
    tx_participants acc = participants_of (rollback_to env) H ctxs \<and> rolled_back_type_hashes acc = hashes_of (rollback_to env) H"
proof -
  let ?cs = "concat (map (context_cells H) ctxs)"
  define E where "E = (\<Union>ctx\<in>set ctxs. context_effects env H ctx)"
  note t = recorded_touched [OF hist rec] and e = contexts_effects [OF hist rec E_def]
  have sub: "{h \<in> H. touched (rollback_to env) h} \<subseteq> set ?cs" "set ?cs \<subseteq> H" using t(2) by auto
  obtain acc where acc: "rollback_contexts env db ctxs empty_acc = Inr acc" "walked env ?cs E (0, 0, 0) empty_acc acc"
    using contexts_walk [OF hist db known rec history_affordable [OF hist t(1) sub(2)]] unfolding E_def by blast
  note w = walked_history [OF hist acc(2) t(1) sub]
  have "tx_participants acc = participants_of (rollback_to env) H ctxs" "rolled_back_type_hashes acc = hashes_of (rollback_to env) H"
    unfolding effects_sel w(2) using e(2,3) by auto
  moreover have "rollback_batch env H (batch_ops acc)" unfolding rollback_batch_def wrote_ops [OF w(2) e(1)] by blast
  ultimately show ?thesis using acc(1) w(1,3) by (auto simp: rollback_cells_from_contexts_def)
qed

section \<open>Properties\<close>

definition same_rows :: "cell_db \<Rightarrow> cell_db \<Rightarrow> bool" where
  "same_rows db db' \<longleftrightarrow> map_of (live_cells db) = map_of (live_cells db') \<and> map_of (consumed_cells db) = map_of (consumed_cells db') \<and>
     cell_index db = cell_index db'"

lemma db_at_same: "db_at n H db \<Longrightarrow> db_at n H db' \<Longrightarrow> same_rows db db'"
  by (simp add: same_rows_def db_at_def map_of_inject_set)

text \<open>
  C10. Rolling the cells back: on a database that has processed a chain up to its tip, whose
  canonical cells are all stored and whose sums fit the checked integers, the rollback succeeds,
  by full scans or, where there is a record of each removed transaction and it is complete, by a
  walk over these records. Writing its batch leaves exactly the live markers, the consumed rows
  and the index rows of the database at the target block; and every delta it collected for the
  address, script, reference, token, size and age tables is the difference between that table at
  the target block and at the tip, while the date and hour deltas are the flows of the removed
  blocks.
\<close>

theorem cell_rollback_restores:
  assumes "history tip H" and "db_at tip H db" and "cells_known env H"
    and "0 < length ctxs \<Longrightarrow> length ctxs = txs_removed \<Longrightarrow> recorded (rollback_to env) H ctxs"
  shows "\<exists>acc. rollback_cells env db ctxs txs_removed = Inr acc \<and>
    db_at (rollback_to env) H (write_rows (batch_ops acc) db) \<and> exact_deltas env tip H acc"
proof -
  have "\<exists>acc. rollback_cells env db ctxs txs_removed = Inr acc \<and> rollback_batch env H (batch_ops acc) \<and> exact_deltas env tip H acc"
  proof (cases "0 < length ctxs \<and> length ctxs = txs_removed")
    case True
    then have "rollback_cells env db ctxs txs_removed = rollback_cells_from_contexts env db ctxs" by (auto simp: rollback_cells_def)
    moreover have "recorded (rollback_to env) H ctxs" using True assms(4) by blast
    ultimately show ?thesis using contexts_history [OF assms(1-3)] by metis
  next
    case False
    then have "rollback_cells env db ctxs txs_removed = rollback_cells_fallback env db" by (simp only: rollback_cells_def if_False)
    then show ?thesis using fallback_history [OF assms(1-3)] rollback_batch_exact by metis
  qed
  then show ?thesis using rollback_batch_restores [OF assms(1,2)] by blast
qed

text \<open>
  C11. The two walks agree: when the record of the removed transactions is complete, the walk over it
  and the full scans both succeed, leave the same live, consumed and index rows, collect the same
  deltas, and the walk names exactly the transactions and addresses of the removed outputs and
  inputs and the type scripts of the cells that were created or spent.
\<close>

theorem cell_rollback_paths_agree:
  assumes "history tip H" and "db_at tip H db" and "cells_known env H" and "recorded (rollback_to env) H ctxs"
  shows "\<exists>acc scan. rollback_cells_from_contexts env db ctxs = Inr acc \<and> rollback_cells_fallback env db = Inr scan \<and>
    same_rows (write_rows (batch_ops acc) db) (write_rows (batch_ops scan) db) \<and> (\<forall>k. acc_amount acc k = acc_amount scan k) \<and>
    tx_participants acc = participants_of (rollback_to env) H ctxs \<and> rolled_back_type_hashes acc = hashes_of (rollback_to env) H"
proof -
  obtain acc where acc: "rollback_cells_from_contexts env db ctxs = Inr acc" "rollback_batch env H (batch_ops acc)"
    "\<forall>k. acc_amount acc k = (\<Sum>h\<in>H. net (touch_share env h) k)"
    "tx_participants acc = participants_of (rollback_to env) H ctxs" "rolled_back_type_hashes acc = hashes_of (rollback_to env) H"
    using contexts_history [OF assms] by blast
  obtain scan where scan: "rollback_cells_fallback env db = Inr scan" "set (batch_ops scan) = rollback_ops env H"
    "\<forall>k. acc_amount scan k = (\<Sum>h\<in>H. net (touch_share env h) k)"
    using fallback_history [OF assms(1-3)] by blast
  have "same_rows (write_rows (batch_ops acc) db) (write_rows (batch_ops scan) db)"
    using rollback_batch_restores [OF assms(1,2)] acc(2) rollback_batch_exact [OF scan(2)] by (blast intro: db_at_same)
  then show ?thesis using acc scan(1,3) by auto
qed

text \<open>A chain of four blocks rolled back to its second one.\<close>

definition sample_cell :: "bytes \<Rightarrow> int \<Rightarrow> LiveCellInfo" where
  "sample_cell l c = \<lparr>capacity = c, lock_script_hash = l, lock_code_hash = [7], lock_hash_type = 1, lock_args = [],
     type_script_hash = Some [5], type_code_hash = Some [8], type_hash_type = Some 0, type_args = Some [], data_size = 16,
     occupied_capacity = 61, udt_amount = Some 9, data_hash = Some [6]\<rparr>"

definition tx_name :: "8 word \<Rightarrow> bytes" where
  "tx_name b = replicate 32 b"

definition kept :: hist_cell where
  "kept = \<lparr>h_op = (tx_name 1, 0), h_cell = sample_cell [1] 100, h_created = 1, h_consumed = None\<rparr>"

definition given_back :: hist_cell where
  "given_back = \<lparr>h_op = (tx_name 1, 1), h_cell = sample_cell [1] 200, h_created = 1, h_consumed = Some (3, Some (tx_name 2))\<rparr>"

definition dropped :: hist_cell where
  "dropped = \<lparr>h_op = (tx_name 2, 0), h_cell = sample_cell [2] 190, h_created = 3, h_consumed = Some (4, Some (tx_name 3))\<rparr>"

definition removed :: hist_cell where
  "removed = \<lparr>h_op = (tx_name 3, 0), h_cell = sample_cell [3] 180, h_created = 4, h_consumed = None\<rparr>"

definition sample_chain :: "hist_cell set" where
  "sample_chain = {kept, given_back, dropped, removed}"

definition sample_db :: cell_db where
  "sample_db = \<lparr>live_cells = [(h_op kept, 1), (h_op removed, 4)],
     consumed_cells = [(h_op given_back, h_meta given_back), (h_op dropped, h_meta dropped)],
     cell_index = set (concat (map live_rows [kept, removed])) \<union> set (concat (map data_rows [kept, given_back, dropped, removed]))\<rparr>"

definition sample_env :: rollback_env where
  "sample_env = \<lparr>rollback_to = 2, cells_store = map_of (map (\<lambda>h. (h_op h, h_cell h)) [kept, given_back, dropped, removed]),
     block_date_map = [3 \<mapsto> ([30], [3, 0]), 4 \<mapsto> ([30], [3, 1])], cellbase_tx_hashes = {tx_name 4}\<rparr>"

definition sample_contexts :: "tx_context list" where
  "sample_contexts = [\<lparr>ctx_tx_hash = tx_name 4, ctx_outputs_count = 0, ctx_inputs = [(tx_name 0, - 1)]\<rparr>,
     \<lparr>ctx_tx_hash = tx_name 3, ctx_outputs_count = 1, ctx_inputs = [(tx_name 2, 0)]\<rparr>,
     \<lparr>ctx_tx_hash = tx_name 2, ctx_outputs_count = 1, ctx_inputs = [(tx_name 1, 1)]\<rparr>]"

lemmas sample_cells = kept_def given_back_def dropped_def removed_def

lemma tx_name_simps [simp]: "tx_name a = tx_name b \<longleftrightarrow> a = b" "length (tx_name a) = 32"
  by (simp_all add: tx_name_def)

lemma sample_distinct: "distinct [kept, given_back, dropped, removed]"
  by (simp add: sample_cells)

lemma sample_history: "history 4 sample_chain"
proof -
  have sum: "(\<Sum>h\<in>sample_chain. f h) = f kept + f given_back + f dropped + f removed" for f :: "hist_cell \<Rightarrow> int"
    using sample_distinct by (simp add: sample_chain_def)
  have "card sample_chain = 4" using sample_distinct by (simp add: sample_chain_def)
  moreover have "inj_on h_op sample_chain" by (simp add: sample_chain_def sample_cells)
  moreover have "\<forall>h\<in>sample_chain. cell_fine (h_cell h)" by (simp add: sample_chain_def sample_cells sample_cell_def cell_fine_def)
  ultimately show ?thesis by (simp add: history_def sum) (simp add: sample_chain_def sample_cells sample_cell_def udt_of_def)
qed

lemma sample_db_at: "db_at 4 sample_chain sample_db"
proof -
  have live: "{h \<in> sample_chain. live_at 4 h} = {kept, removed}" and spent: "{h \<in> sample_chain. spent_at 4 h} = {given_back, dropped}"
    and made: "{h \<in> sample_chain. h_created h \<le> 4} = sample_chain"
    by (auto simp: sample_chain_def sample_cells live_at_def spent_at_def)
  show ?thesis unfolding db_at_def live spent made
    by (auto simp: sample_db_def sample_chain_def) (simp_all add: sample_cells)
qed

lemma sample_known: "cells_known sample_env sample_chain"
  by (simp add: cells_known_def sample_env_def sample_chain_def sample_cells)

lemma sample_recorded: "recorded 2 sample_chain sample_contexts"
proof -
  have after: "{h \<in> sample_chain. created_after 2 h} = {dropped, removed}" "{h \<in> sample_chain. spent_after 2 h} = {given_back, dropped}"
    by (auto simp: sample_chain_def sample_cells created_after_def spent_after_def)
  have "list_all (\<lambda>b. b = 0) (tx_name 0)" by (simp add: tx_name_def list_all_length)
  then show ?thesis unfolding recorded_def after
    by (auto simp: sample_contexts_def context_fine_def output_points_def spent_points_def sample_chain_def sample_cells)
qed

theorem cell_rollback_restores_witness:
  "\<exists>acc. rollback_cells sample_env sample_db sample_contexts 3 = Inr acc \<and>
    db_at 2 sample_chain (write_rows (batch_ops acc) sample_db) \<and> exact_deltas sample_env 4 sample_chain acc"
  using cell_rollback_restores [OF sample_history sample_db_at sample_known] sample_recorded by (simp add: sample_env_def)

theorem cell_rollback_paths_agree_witness:
  "\<exists>acc scan. rollback_cells_from_contexts sample_env sample_db sample_contexts = Inr acc \<and>
    rollback_cells_fallback sample_env sample_db = Inr scan \<and>
    same_rows (write_rows (batch_ops acc) sample_db) (write_rows (batch_ops scan) sample_db) \<and>
    (\<forall>k. acc_amount acc k = acc_amount scan k) \<and> tx_participants acc = participants_of 2 sample_chain sample_contexts"
  using cell_rollback_paths_agree [OF sample_history sample_db_at sample_known] sample_recorded
  by (simp add: sample_env_def) blast

end
