(* ===== verification/Cell_Ages.thy ===== *)
theory Cell_Ages
  imports Cell_Contexts Hodl
begin

text \<open>
  The cell rollback and the age tracker together: the amounts per creating block that the cell
  walks of \<open>rollback_to_block\<close> collect are the ones the repair of the stored tracker needs.
\<close>

text \<open>
  The blocks after some block as the tracker saw them: each reports the cells it created and the
  cells it consumed, in any order and with any changes of holders between them.
\<close>

definition is_cell_event :: "hodl_event \<Rightarrow> bool" where
  "is_cell_event e \<longleftrightarrow> (case e of Holder _ _ \<Rightarrow> False | _ \<Rightarrow> True)"

definition cell_events :: "hist_cell set \<Rightarrow> int \<Rightarrow> hodl_event multiset" where
  "cell_events H b = image_mset (\<lambda>h. Created (capacity (h_cell h))) (mset_set {h \<in> H. h_created h = b}) +
     image_mset (\<lambda>h. Consumed (h_created h) (capacity (h_cell h))) (mset_set {h \<in> H. map_option fst (h_consumed h) = Some b})"

definition reports :: "int \<Rightarrow> hist_cell set \<Rightarrow> hodl_event day_block list \<Rightarrow> bool" where
  "reports n H cs \<longleftrightarrow> distinct (map db_number cs) \<and>
     (\<forall>c\<in>set cs. n < db_number c \<and> mset (filter is_cell_event (db_events c)) = cell_events H (db_number c)) \<and>
     (\<forall>h\<in>H. (n < h_created h \<longrightarrow> h_created h \<in> db_number ` set cs) \<and>
        (\<forall>b t. h_consumed h = Some (b, t) \<longrightarrow> n < b \<longrightarrow> b \<in> db_number ` set cs))"

definition inverse_at :: "int \<Rightarrow> int \<Rightarrow> hodl_event \<Rightarrow> int" where
  "inverse_at n b e = net (event_inverse n e) b"

lemma inverses_net: "net (inverses cs) b = (\<Sum>c\<leftarrow>cs. \<Sum>e\<leftarrow>filter is_cell_event (db_events c). inverse_at (db_number c) b e)"
proof -
  have "net (concat (map (event_inverse n) es)) b = (\<Sum>e\<leftarrow>filter is_cell_event es. inverse_at n b e)" for n es
    by (induction es) (auto simp: inverse_at_def is_cell_event_def split: hodl_event.splits)
  then show ?thesis by (induction cs) (simp_all add: inverses_def)
qed

lemma cell_events_sum:
  assumes "finite H"
  shows "(\<Sum>e\<in>#cell_events H n. inverse_at n b e) =
    (\<Sum>h\<in>{h \<in> H. h_created h = n}. if h_created h = b then - capacity (h_cell h) else 0) +
    (\<Sum>h\<in>{h \<in> H. map_option fst (h_consumed h) = Some n}. if h_created h = b then capacity (h_cell h) else 0)"
proof -
  have "(\<Sum>h\<in>{h \<in> H. h_created h = n}. if n = b then - capacity (h_cell h) else 0) =
      (\<Sum>h\<in>{h \<in> H. h_created h = n}. if h_created h = b then - capacity (h_cell h) else 0)"
    by (rule sum.cong) auto
  then show ?thesis by (simp add: cell_events_def inverse_at_def image_mset.compositionality comp_def sum_unfold_sum_mset cong: if_cong)
qed

lemma sum_by_block:
  fixes g :: "hist_cell \<Rightarrow> int"
  assumes "finite H" "finite B" "\<And>h. h \<in> H \<Longrightarrow> Q h \<Longrightarrow> \<exists>b\<in>B. f h = Some b" "\<And>h b. b \<in> B \<Longrightarrow> f h = Some b \<Longrightarrow> Q h"
  shows "(\<Sum>b\<in>B. \<Sum>h\<in>{h \<in> H. f h = Some b}. g h) = (\<Sum>h\<in>{h \<in> H. Q h}. g h)"
proof -
  have eq: "{h \<in> H. Q h} = (\<Union>b\<in>B. {h \<in> H. f h = Some b})" using assms(3,4) by fastforce
  show ?thesis unfolding eq by (rule sum.UNION_disjoint [symmetric]) (use assms(1,2) in auto)
qed

lemma reported_net:
  assumes hist: "history tip H" and rep: "reports n H cs"
  shows "net (inverses cs) b = (\<Sum>h\<in>{h \<in> H. created_after n h}. if h_created h = b then - capacity (h_cell h) else 0) +
    (\<Sum>h\<in>{h \<in> H. spent_after n h}. if h_created h = b then capacity (h_cell h) else 0)"
proof -
  let ?B = "db_number ` set cs"
  let ?made = "\<lambda>h. if h_created h = b then - capacity (h_cell h) else 0" and ?spent = "\<lambda>h. if h_created h = b then capacity (h_cell h) else 0"
  have fin: "finite H" using hist by (simp add: history_def)
  have d: "distinct cs" "inj_on db_number (set cs)" using rep by (simp_all add: reports_def distinct_map)
  have ev: "mset (filter is_cell_event (db_events c)) = cell_events H (db_number c)" if "c \<in> set cs" for c
    using rep that by (simp add: reports_def)
  have "(\<Sum>e\<leftarrow>filter is_cell_event (db_events c). inverse_at (db_number c) b e) =
      (\<Sum>h\<in>{h \<in> H. h_created h = db_number c}. ?made h) + (\<Sum>h\<in>{h \<in> H. map_option fst (h_consumed h) = Some (db_number c)}. ?spent h)"
    if "c \<in> set cs" for c
    unfolding cell_events_sum [OF fin, symmetric] ev [OF that, symmetric] by (simp add: sum_mset_sum_list [symmetric])
  then have "net (inverses cs) b = (\<Sum>c\<in>set cs. (\<Sum>h\<in>{h \<in> H. h_created h = db_number c}. ?made h) +
      (\<Sum>h\<in>{h \<in> H. map_option fst (h_consumed h) = Some (db_number c)}. ?spent h))"
    unfolding inverses_net sum_list_distinct_conv_sum_set [OF d(1)] by (rule sum.cong [OF refl])
  also have "\<dots> = (\<Sum>n\<in>?B. \<Sum>h\<in>{h \<in> H. Some (h_created h) = Some n}. ?made h) +
      (\<Sum>n\<in>?B. \<Sum>h\<in>{h \<in> H. map_option fst (h_consumed h) = Some n}. ?spent h)"
    by (simp add: sum.distrib sum.reindex [OF d(2)])
  also have "(\<Sum>n\<in>?B. \<Sum>h\<in>{h \<in> H. Some (h_created h) = Some n}. ?made h) = (\<Sum>h\<in>{h \<in> H. created_after n h}. ?made h)"
    by (rule sum_by_block [OF fin]) (use rep in \<open>auto simp: reports_def created_after_def\<close>)
  also have "(\<Sum>n\<in>?B. \<Sum>h\<in>{h \<in> H. map_option fst (h_consumed h) = Some n}. ?spent h) = (\<Sum>h\<in>{h \<in> H. spent_after n h}. ?spent h)"
    by (rule sum_by_block [OF fin]) (use rep in \<open>fastforce simp: reports_def spent_after_def split: option.splits\<close>)+
  finally show ?thesis .
qed

lemma collected_ages:
  assumes hist: "history tip H" and am: "\<And>k. acc_amount acc k = (\<Sum>h\<in>H. net (touch_share env h) k)"
  shows "acc_amount acc (HodlCapacity b) =
    (\<Sum>h\<in>{h \<in> H. created_after (rollback_to env) h}. if h_created h = b then - capacity (h_cell h) else 0) +
    (\<Sum>h\<in>{h \<in> H. spent_after (rollback_to env) h}. if h_created h = b then capacity (h_cell h) else 0)"
proof -
  have fin: "finite H" using hist by (simp add: history_def)
  have live: "net (live_share c n) (HodlCapacity b) = (if n = b then capacity c else 0)" "net (created_share c) (HodlCapacity b) = 0" for c n b
    by (auto simp: live_share_def created_share_def net_shares)
  have share: "net (cell_share c s n) (HodlCapacity b) = (if n = b then if s = 1 then capacity c else - capacity c else 0)" for c s n b
    by (simp add: cell_share_def live token_share_other)
  have flow: "net (flow_share env c tx n x) (HodlCapacity b) = 0" for c tx n x b by (rule flow_share_kind) simp
  have "net (touch_share env h) (HodlCapacity b) =
      (if created_after (rollback_to env) h then if h_created h = b then - capacity (h_cell h) else 0 else 0) +
      (if spent_after (rollback_to env) h then if h_created h = b then capacity (h_cell h) else 0 else 0)" if "h \<in> H" for h
    using history_cell(3) [OF hist that, of "rollback_to env"]
    by (cases "h_consumed h") (auto simp: touch_share_def share flow live created_after_def spent_after_def Let_def)
  then show ?thesis unfolding am sum.inter_filter [OF fin] sum.distrib [symmetric] by (rule sum.cong [OF refl])
qed

text \<open>
  C12. The age tracker through a reorganisation: the tracker built from the blocks up to the target
  is stored after the later blocks, each of which reported the cells it created and consumed. The
  amounts that the cell rollback collects per creating block are what the repair of the stored
  state needs: it succeeds and yields the stored form of the tracker as it was at the target block.
\<close>

theorem cell_rollback_repairs_ages:
  assumes "history tip H" and "db_at tip H db" and "cells_known env H" and "reports (rollback_to env) H cs"
    and "rollback_cells_fallback env db = Inr acc" and "\<forall>b. net deltas b = acc_amount acc (HodlCapacity b)"
    and "day_format fmt parse (db_date ` set (bs @ cs))" and "day_chain event_ok (bs @ cs)"
    and "bs \<noteq> []" and "db_number (last bs) = rollback_to env"
    and "run_hodl new_hodl_tracker bs = Inr t1" and "run_hodl t1 cs = Inr t2"
  shows "\<exists>changed. truncate_hodl_tracker_state_for_rollback (hodl_to_state fmt t2) (rollback_to env)
    (holder_count t1 - holder_count t2) deltas = Inr (hodl_to_state fmt t1, changed)"
proof -
  have am: "\<And>k. acc_amount acc k = (\<Sum>h\<in>H. net (touch_share env h) k)" using fallback_history [OF assms(1-3)] assms(5) by auto
  have "\<forall>b. net deltas b = net (inverses cs) b"
    unfolding reported_net [OF assms(1,4)] using collected_ages [OF assms(1) am] assms(6) by metis
  then show ?thesis using hodl_truncate_run [OF assms(7-9,11,12)] assms(10) by metis
qed

definition ages_before :: "hodl_event day_block list" where
  "ages_before = [\<lparr>db_number = 1, db_date = 1, db_events = [Created 100, Created 200, Holder 0 1]\<rparr>,
     \<lparr>db_number = 2, db_date = 1, db_events = []\<rparr>]"

definition ages_after :: "hodl_event day_block list" where
  "ages_after = [\<lparr>db_number = 3, db_date = 2, db_events = [Consumed 1 200, Created 190, Holder 0 1]\<rparr>,
     \<lparr>db_number = 4, db_date = 2, db_events = [Created 180, Consumed 3 190]\<rparr>]"

definition ages_kept :: HodlWaveTracker where
  "ages_kept = \<lparr>capacity_by_creation_date = [(1, 300)], block_date_transitions = [(1, 1)], holder_count = 1,
     last_snapshot_date = Some 1, last_processed_block = Some 2\<rparr>"

definition ages_orphaned :: HodlWaveTracker where
  "ages_orphaned = \<lparr>capacity_by_creation_date = [(1, 100), (2, 180)], block_date_transitions = [(1, 1), (3, 2)], holder_count = 2,
     last_snapshot_date = Some 2, last_processed_block = Some 4\<rparr>"

lemma ages_runs: "run_hodl new_hodl_tracker ages_before = Inr ages_kept" "run_hodl ages_kept ages_after = Inr ages_orphaned"
  by code_simp+

lemma ages_chain: "day_chain event_ok (ages_before @ ages_after)"
  by (simp add: day_chain_def ages_before_def ages_after_def)

lemma ages_reported: "reports 2 sample_chain ages_after"
proof -
  have "{h \<in> sample_chain. h_created h = 3} = {dropped}" "{h \<in> sample_chain. h_created h = 4} = {removed}"
    "{h \<in> sample_chain. map_option fst (h_consumed h) = Some 3} = {given_back}"
    "{h \<in> sample_chain. map_option fst (h_consumed h) = Some 4} = {dropped}"
    by (auto simp: sample_chain_def sample_cells)
  then have "cell_events sample_chain 3 = {#Created 190, Consumed 1 200#}" "cell_events sample_chain 4 = {#Created 180, Consumed 3 190#}"
    by (simp_all add: cell_events_def sample_cells sample_cell_def)
  then show ?thesis by (auto simp: reports_def ages_after_def is_cell_event_def sample_chain_def sample_cells)
qed

theorem cell_rollback_repairs_ages_witness:
  "\<exists>changed. truncate_hodl_tracker_state_for_rollback (hodl_to_state unary_day ages_orphaned) 2 (- 1) [(4, - 180), (1, 200)] =
    Inr (hodl_to_state unary_day ages_kept, changed)"
proof -
  obtain acc where acc: "rollback_cells_fallback sample_env sample_db = Inr acc"
    "\<And>k. acc_amount acc k = (\<Sum>h\<in>sample_chain. net (touch_share sample_env h) k)"
    using fallback_history [OF sample_history sample_db_at sample_known] by blast
  have two: "rollback_to sample_env = 2" by (simp add: sample_env_def)
  have "\<forall>b. net [(4, - 180), (1, 200)] b = net (inverses ages_after) b" by (simp add: ages_after_def inverses_def)
  then have "\<forall>b. net [(4, - 180), (1, 200)] b = acc_amount acc (HodlCapacity b)"
    using collected_ages [OF sample_history acc(2)] reported_net [OF sample_history ages_reported] unfolding two by metis
  moreover have "day_format unary_day parse_unary_day (db_date ` set (ages_before @ ages_after))"
    by (rule unary_day_format) (simp add: ages_before_def ages_after_def)
  moreover have "ages_before \<noteq> []" "db_number (last ages_before) = 2" "holder_count ages_kept - holder_count ages_orphaned = - 1"
    by (simp_all add: ages_before_def ages_kept_def ages_orphaned_def)
  ultimately show ?thesis
    using cell_rollback_repairs_ages [OF sample_history sample_db_at sample_known _ acc(1) _ _ ages_chain _ _ ages_runs] ages_reported
    unfolding two by metis
qed

end

