(* ===== verification/Fork_Search.thy ===== *)
theory Fork_Search
  imports Prelude
begin

text \<open>
  How the indexer notices that its tip has left the node's chain and where the two chains part
  (\<open>check_and_handle_reorg\<close> and \<open>find_fork_point\<close> in \<^verbatim>\<open>crates/indexer/src/sync/reorg.rs\<close>). The
  node keeps extending and switching its chain meanwhile: each read of it refreshes the view of
  its database first, so the node is a sequence of views and every read takes the next one. The
  node's store (a RocksDB opened as a secondary instance) is the parameter \<open>ckb_store\<close>; the
  headers of the indexer's own database are the parameter \<open>db_hash\<close>. The decision carries the
  arguments of the writer call it leads to.
\<close>

section \<open>Reads\<close>

record chain_view =
  view_hash :: "u64 \<Rightarrow> bytes option"
  view_tip :: "u64 option"

record fork_env =
  ckb_store :: "(nat \<Rightarrow> chain_view res) option"
  db_hash :: "i64 \<Rightarrow> bytes option res"

definition DEEP_FORK_DEPTH :: u64 where "DEEP_FORK_DEPTH = 36"

definition refresh :: "fork_env \<Rightarrow> string \<Rightarrow> nat \<Rightarrow> chain_view res \<times> nat" where
  "refresh env err i = (case ckb_store env of None \<Rightarrow> (Inl (Panic err), i) | Some views \<Rightarrow> (views i, Suc i))"

definition get_chain_block_hash :: "fork_env \<Rightarrow> u64 \<Rightarrow> nat \<Rightarrow> bytes res \<times> nat" where
  "get_chain_block_hash env number i =
     (case refresh env ''ckb_store must exist for chain block hash reads'' i of (view, j) \<Rightarrow>
        (rbind view (\<lambda>v. ok_or (view_hash v number) (Bail ''Block not found in CKB RocksDB'')), j))"

definition get_chain_tip :: "fork_env \<Rightarrow> nat \<Rightarrow> u64 res \<times> nat" where
  "get_chain_tip env i =
     (case refresh env ''ckb_store must exist for chain tip reads'' i of (view, j) \<Rightarrow>
        (rbind view (\<lambda>v. ok_or (view_tip v) (Bail ''Failed to get chain tip from CKB RocksDB'')), j))"

text \<open>\<open>i64::try_from\<close> on a \<open>u64\<close>; the bits of a value in range do not change.\<close>

definition i64_of_u64 :: "u64 \<Rightarrow> string \<Rightarrow> i64 res" where
  "i64_of_u64 v err = (if unat v < 2 ^ 63 then Inr v else Inl (Bail err))"

definition get_block_hash_at_height :: "fork_env \<Rightarrow> u64 \<Rightarrow> string \<Rightarrow> bytes res" where
  "get_block_hash_at_height env height err =
     rbind (i64_of_u64 height err) (\<lambda>h. rbind (db_hash env h) (\<lambda>r. ok_or r (Bail ''Block not found in DB'')))"

section \<open>The fork point\<close>

text \<open>Both hashes at a height, or the first error on the way.\<close>

definition hashes_at :: "fork_env \<Rightarrow> u64 \<Rightarrow> string \<Rightarrow> nat \<Rightarrow> (bytes \<times> bytes) res \<times> nat" where
  "hashes_at env height err i =
     (case get_block_hash_at_height env height err of
        Inl e \<Rightarrow> (Inl e, i)
      | Inr db \<Rightarrow> (case get_chain_block_hash env height i of (chain, j) \<Rightarrow> (rbind chain (\<lambda>c. Inr (db, c)), j)))"

partial_function (option) find_fork_point ::
    "fork_env \<Rightarrow> u64 \<Rightarrow> u64 \<Rightarrow> nat \<Rightarrow> ((u64 \<times> bytes) res \<times> nat) option" where
  "find_fork_point env height min_height i =
     (case hashes_at env height ''fork-search height exceeds i64 range'' i of (r, j) \<Rightarrow>
        (case r of
           Inl e \<Rightarrow> Some (Inl e, j)
         | Inr hashes \<Rightarrow>
             if fst hashes = snd hashes then Some (Inr (height, fst hashes), j)
             else if height = 0 then Some (Inl (Bail ''No common ancestor found - genesis mismatch!''), j)
             else if height = min_height then Some (Inl (Bail ''No common ancestor found within bounded reorg search window''), j)
             else find_fork_point env (height - 1) min_height j))"

section \<open>The decision\<close>

record fork_call =
  fc_fork_point :: i64
  fc_fork_hash :: bytes
  fc_db_tip :: i64
  fc_db_tip_hash :: bytes
  fc_chain_tip :: i64
  fc_chain_tip_hash :: bytes

datatype reorg_decision = NoReorg | RecordDeepFork fork_call i64 | ExecuteReorg fork_call

definition fork_args :: "u64 \<Rightarrow> bytes \<Rightarrow> u64 \<Rightarrow> bytes \<Rightarrow> u64 \<Rightarrow> bytes \<Rightarrow> fork_call res" where
  "fork_args fork_point fork_hash db_tip stored_hash chain_tip chain_tip_hash =
     rbind (i64_of_u64 fork_point ''fork point exceeds i64 range'') (\<lambda>f.
     rbind (i64_of_u64 db_tip ''db tip exceeds i64 range'') (\<lambda>d.
     rbind (i64_of_u64 chain_tip ''chain tip exceeds i64 range'') (\<lambda>c.
     Inr \<lparr>fc_fork_point = f, fc_fork_hash = fork_hash, fc_db_tip = d, fc_db_tip_hash = stored_hash,
          fc_chain_tip = c, fc_chain_tip_hash = chain_tip_hash\<rparr>)))"

text \<open>The node's tip and its hash: two reads.\<close>

definition chain_tip_with_hash :: "fork_env \<Rightarrow> nat \<Rightarrow> (u64 \<times> bytes) res \<times> nat" where
  "chain_tip_with_hash env i =
     (case get_chain_tip env i of
        (Inl e, j) \<Rightarrow> (Inl e, j)
      | (Inr tip, j) \<Rightarrow> (case get_chain_block_hash env tip j of (h, k) \<Rightarrow> (rbind h (\<lambda>h. Inr (tip, h)), k)))"

definition saturating_sub :: "u64 \<Rightarrow> u64 \<Rightarrow> u64" where
  "saturating_sub a b = (if a < b then 0 else a - b)"

definition record_at_floor :: "fork_env \<Rightarrow> u64 \<Rightarrow> bytes \<Rightarrow> u64 \<Rightarrow> bytes \<Rightarrow> nat \<Rightarrow> reorg_decision res \<times> nat" where
  "record_at_floor env db_tip stored_hash bounded_floor db_floor_hash i =
     (case chain_tip_with_hash env i of (tip, j) \<Rightarrow>
        (rbind tip (\<lambda>(chain_tip, chain_tip_hash).
         rbind (ok_or (if unat DEEP_FORK_DEPTH + 1 < 2 ^ 64 then Some (DEEP_FORK_DEPTH + 1) else None)
                  (Bail ''deep fork depth lower-bound overflow'')) (\<lambda>depth_lower_bound.
         rbind (fork_args bounded_floor db_floor_hash db_tip stored_hash chain_tip chain_tip_hash) (\<lambda>args.
         rbind (i64_of_u64 depth_lower_bound ''reorg depth lower bound exceeds i64 range'') (\<lambda>depth.
         Inr (RecordDeepFork args depth))))), j))"

definition search_and_decide ::
    "fork_env \<Rightarrow> u64 \<Rightarrow> bytes \<Rightarrow> u64 \<Rightarrow> nat \<Rightarrow> (reorg_decision res \<times> nat) option" where
  "search_and_decide env db_tip stored_hash bounded_floor i =
     map_option (\<lambda>(found, j).
       case found of
         Inl e \<Rightarrow> (Inl e, j)
       | Inr (fork_point, fork_hash) \<Rightarrow>
           (case chain_tip_with_hash env j of (tip, k) \<Rightarrow>
              (rbind tip (\<lambda>(chain_tip, chain_tip_hash).
               rbind (fork_args fork_point fork_hash db_tip stored_hash chain_tip chain_tip_hash) (\<lambda>args.
               let depth = db_tip - fork_point
               in if DEEP_FORK_DEPTH < depth
                  then rbind (i64_of_u64 depth ''reorg depth exceeds i64 range'') (\<lambda>d. Inr (RecordDeepFork args d))
                  else Inr (ExecuteReorg args))), k)))
       (find_fork_point env db_tip bounded_floor i)"

definition probe_floor :: "fork_env \<Rightarrow> u64 \<Rightarrow> bytes \<Rightarrow> u64 \<Rightarrow> nat \<Rightarrow> (reorg_decision res \<times> nat) option" where
  "probe_floor env db_tip stored_hash bounded_floor i =
     (case hashes_at env bounded_floor ''fork-search floor exceeds i64 range'' i of (r, j) \<Rightarrow>
        (case r of
           Inl e \<Rightarrow> Some (Inl e, j)
         | Inr hashes \<Rightarrow>
             if fst hashes \<noteq> snd hashes
             then Some (record_at_floor env db_tip stored_hash bounded_floor (fst hashes) j)
             else search_and_decide env db_tip stored_hash bounded_floor j))"

definition check_and_handle_reorg :: "fork_env \<Rightarrow> u64 \<Rightarrow> bytes \<Rightarrow> nat \<Rightarrow> (reorg_decision res \<times> nat) option" where
  "check_and_handle_reorg env db_tip stored_hash i =
     (case get_chain_block_hash env db_tip i of (chain_hash, j) \<Rightarrow>
        (case chain_hash of
           Inl e \<Rightarrow> Some (Inl e, j)
         | Inr chain_hash \<Rightarrow>
             if chain_hash = stored_hash then Some (Inr NoReorg, j)
             else
               let bounded_floor = saturating_sub db_tip DEEP_FORK_DEPTH
               in if 0 < bounded_floor then probe_floor env db_tip stored_hash bounded_floor j
                  else search_and_decide env db_tip stored_hash bounded_floor j))"

section \<open>Termination\<close>

text \<open>Heights the search may still visit, from a height down to the floor or to genesis.\<close>

definition search_span :: "u64 \<Rightarrow> u64 \<Rightarrow> nat" where
  "search_span height min_height = (if height < min_height then unat height else unat height - unat min_height)"

lemma hashes_at_reads: "snd (hashes_at env height err i) \<le> Suc i \<and> i \<le> snd (hashes_at env height err i)"
  by (auto simp: hashes_at_def get_chain_block_hash_def refresh_def split: sum.splits prod.splits option.splits)

lemma unat_pred: "h \<noteq> 0 \<Longrightarrow> unat (h - 1 :: u64) = unat h - 1"
  by (simp add: unat_minus_one)

lemma search_span_pred:
  assumes "h \<noteq> 0" "h \<noteq> min_height"
  shows "Suc (search_span (h - 1) min_height) = search_span h min_height"
proof -
  have pos: "0 < unat h" using assms(1) by (simp add: unat_gt_0)
  have "unat h \<noteq> unat min_height" using assms(2) by (simp add: word_unat_eq_iff)
  then show ?thesis using pos by (auto simp: search_span_def word_less_nat_alt unat_pred [OF assms(1)])
qed

text \<open>A found fork point is in the window and both chains agree on it as of the view then read.\<close>

definition agreed :: "fork_env \<Rightarrow> u64 \<Rightarrow> bytes \<Rightarrow> nat \<Rightarrow> bool" where
  "agreed env f h i \<longleftrightarrow> unat f < 2 ^ 63 \<and> db_hash env f = Inr (Some h) \<and>
     (\<exists>views v. ckb_store env = Some views \<and> views i = Inr v \<and> view_hash v f = Some h)"

lemma hashes_at_Inr:
  assumes "hashes_at env height err i = (Inr (d, c), j)"
  shows "j = Suc i \<and> unat height < 2 ^ 63 \<and> db_hash env height = Inr (Some d) \<and>
    (\<exists>views v. ckb_store env = Some views \<and> views i = Inr v \<and> view_hash v height = Some c)"
  using assms
  by (auto simp: hashes_at_def get_block_hash_at_height_def i64_of_u64_def get_chain_block_hash_def refresh_def res_simps
      split: sum.splits prod.splits option.splits if_splits)

lemma find_fork_point_step:
  assumes "hashes_at env height ''fork-search height exceeds i64 range'' i = (r, j)"
  shows "r = Inl e \<Longrightarrow> find_fork_point env height min_height i = Some (Inl e, j)"
    "r = Inr (d, d) \<Longrightarrow> find_fork_point env height min_height i = Some (Inr (height, d), j)"
    "r = Inr (d, c) \<Longrightarrow> d \<noteq> c \<Longrightarrow> height = 0 \<or> height = min_height \<Longrightarrow> \<exists>e. find_fork_point env height min_height i = Some (Inl e, j)"
    "r = Inr (d, c) \<Longrightarrow> d \<noteq> c \<Longrightarrow> height \<noteq> 0 \<Longrightarrow> height \<noteq> min_height \<Longrightarrow>
       find_fork_point env height min_height i = find_fork_point env (height - 1) min_height j"
  using assms find_fork_point.simps [of env height min_height i] by auto

definition search_result :: "fork_env \<Rightarrow> nat \<Rightarrow> u64 \<Rightarrow> u64 \<Rightarrow> (u64 \<times> bytes) res \<times> nat \<Rightarrow> bool" where
  "search_result env i height min_height out \<longleftrightarrow>
     (\<forall>f h. fst out = Inr (f, h) \<longrightarrow> i < snd out \<and> f \<le> height \<and> (min_height \<le> height \<longrightarrow> min_height \<le> f) \<and> agreed env f h (snd out - 1))"

lemma search_result_simps [simp]: "search_result env i height min_height (Inl e, j)"
  by (simp add: search_result_def)

lemma search_result_here:
  "hashes_at env height err i = (Inr (d, d), j) \<Longrightarrow> search_result env i height min_height (Inr (height, d), j)"
  using hashes_at_Inr [of env height err i d d j] by (auto simp: search_result_def agreed_def)

lemma pred_window:
  assumes "height \<noteq> 0" "height \<noteq> min_height"
  shows "height - 1 < (height :: u64)" "min_height \<le> height \<Longrightarrow> min_height \<le> height - 1"
proof -
  have pos: "0 < unat height" using assms(1) by (simp add: unat_gt_0)
  have ne: "unat min_height \<noteq> unat height" using assms(2) by (simp add: word_unat_eq_iff)
  note e = unat_pred [OF assms(1)]
  show "height - 1 < height" unfolding word_less_nat_alt e using pos by linarith
  show "min_height \<le> height - 1" if "min_height \<le> height"
    using that pos ne unfolding word_le_nat_alt e by linarith
qed

lemma search_result_down:
  assumes "search_result env j (height - 1) min_height out" "height \<noteq> 0" "height \<noteq> min_height" "i \<le> j"
  shows "search_result env i height min_height out"
  unfolding search_result_def
proof (intro allI impI)
  fix f h assume out: "fst out = Inr (f, h)"
  have r: "j < snd out" "f \<le> height - 1" "min_height \<le> height - 1 \<longrightarrow> min_height \<le> f" "agreed env f h (snd out - 1)"
    using assms(1) out unfolding search_result_def by blast+
  have "f \<le> height" using r(2) pred_window(1) [OF assms(2,3)] by (meson less_imp_le order_trans)
  then show "i < snd out \<and> f \<le> height \<and> (min_height \<le> height \<longrightarrow> min_height \<le> f) \<and> agreed env f h (snd out - 1)"
    using r(1,3,4) assms(4) pred_window(2) [OF assms(2,3)] by (meson le_less_trans)
qed

lemma find_fork_point_total:
  assumes "search_span height min_height = n"
  shows "\<exists>out. find_fork_point env height min_height i = Some out \<and> snd out \<le> i + n + 1 \<and> search_result env i height min_height out"
  using assms
proof (induction n arbitrary: height i)
  case 0
  obtain r j where h: "hashes_at env height ''fork-search height exceeds i64 range'' i = (r, j)" by (rule prod.exhaust)
  have stop: "height = 0 \<or> height = min_height"
    using search_span_pred [of height min_height] 0 by fastforce
  have j: "j \<le> Suc i" "i \<le> j" using hashes_at_reads [of env height _ i] h by (metis snd_conv)+
  consider e where "r = Inl e" | d where "r = Inr (d, d)" | d c where "r = Inr (d, c)" "d \<noteq> c" by (cases r) force+
  then show ?case
  proof cases
    case 1
    then show ?thesis using find_fork_point_step(1) [OF h] j by simp
  next
    case 2
    then show ?thesis using find_fork_point_step(2) [OF h] j search_result_here h by simp
  next
    case 3
    then obtain e where "find_fork_point env height min_height i = Some (Inl e, j)" using find_fork_point_step(3) [OF h] stop by blast
    then show ?thesis using j by simp
  qed
next
  case (Suc n)
  obtain r j where h: "hashes_at env height ''fork-search height exceeds i64 range'' i = (r, j)" by (rule prod.exhaust)
  have j: "j \<le> Suc i" "i \<le> j" using hashes_at_reads [of env height _ i] h by (metis snd_conv)+
  have go: "height \<noteq> 0" "height \<noteq> min_height" using Suc.prems by (auto simp: search_span_def split: if_splits)
  obtain out where rest: "find_fork_point env (height - 1) min_height j = Some out" "snd out \<le> j + n + 1"
    "search_result env j (height - 1) min_height out"
    using Suc.IH [of "height - 1" j] search_span_pred [OF go] Suc.prems by auto
  consider e where "r = Inl e" | d where "r = Inr (d, d)" | d c where "r = Inr (d, c)" "d \<noteq> c" by (cases r) force+
  then show ?case
  proof cases
    case 1
    then show ?thesis using find_fork_point_step(1) [OF h] j by simp
  next
    case 2
    then show ?thesis using find_fork_point_step(2) [OF h] j search_result_here h by simp
  next
    case 3
    then have "find_fork_point env height min_height i = Some out" using find_fork_point_step(4) [OF h] go rest(1) by simp
    then show ?thesis using rest(2) j search_result_down [OF rest(3) go j(2)] by simp
  qed
qed

section \<open>Whatever the node does\<close>

lemma floor_span: "search_span db_tip (saturating_sub db_tip DEEP_FORK_DEPTH) \<le> 36"
proof (cases "db_tip < 36")
  case True
  then have "unat db_tip < 36" by (simp add: word_less_nat_alt)
  then show ?thesis using True by (simp add: search_span_def saturating_sub_def DEEP_FORK_DEPTH_def)
next
  case False
  then have "(36 :: u64) \<le> db_tip" by simp
  then have "unat (db_tip - 36) = unat db_tip - 36" by (simp add: unat_sub)
  moreover have "\<not> db_tip < db_tip - 36" using \<open>36 \<le> db_tip\<close> by (simp add: word_less_nat_alt unat_sub)
  ultimately show ?thesis using False by (simp add: search_span_def saturating_sub_def DEEP_FORK_DEPTH_def)
qed

lemma tip_reads: "snd (chain_tip_with_hash env i) \<le> i + 2"
  by (auto simp: chain_tip_with_hash_def get_chain_tip_def get_chain_block_hash_def refresh_def
      split: sum.splits prod.splits option.splits)

lemma search_and_decide_total:
  "\<exists>r j. search_and_decide env db_tip stored_hash (saturating_sub db_tip DEEP_FORK_DEPTH) i = Some (r, j) \<and> j \<le> i + 39"
proof -
  obtain out where out: "find_fork_point env db_tip (saturating_sub db_tip DEEP_FORK_DEPTH) i = Some out" "snd out \<le> i + 37"
    using find_fork_point_total [OF refl, of env db_tip "saturating_sub db_tip DEEP_FORK_DEPTH" i] floor_span [of db_tip] by fastforce
  obtain found j where j: "out = (found, j)" by (cases out)
  show ?thesis using out j tip_reads [of env j]
    by (cases found) (auto simp: search_and_decide_def split: prod.splits)
qed

lemma probe_floor_total:
  "\<exists>r j. probe_floor env db_tip stored_hash (saturating_sub db_tip DEEP_FORK_DEPTH) i = Some (r, j) \<and> j \<le> i + 40"
proof -
  let ?floor = "saturating_sub db_tip DEEP_FORK_DEPTH"
  obtain p k where p: "hashes_at env ?floor ''fork-search floor exceeds i64 range'' i = (p, k)" by (rule prod.exhaust)
  have k: "k \<le> Suc i" using hashes_at_reads p by (metis snd_conv)
  show ?thesis
  proof (cases p)
    case (Inl e)
    then show ?thesis using p k by (simp add: probe_floor_def)
  next
    case (Inr hashes)
    have "snd (record_at_floor env db_tip stored_hash ?floor (fst hashes) k) \<le> k + 2"
      using tip_reads [of env k] by (cases "chain_tip_with_hash env k") (simp add: record_at_floor_def)
    moreover obtain r1 j1 where "search_and_decide env db_tip stored_hash ?floor k = Some (r1, j1)" "j1 \<le> k + 39"
      using search_and_decide_total by blast
    ultimately show ?thesis using p k Inr
      by (cases "record_at_floor env db_tip stored_hash ?floor (fst hashes) k") (simp add: probe_floor_def)
  qed
qed

text \<open>
  C15. The reorganisation check ends: whatever the node answers, and however its chain changes
  between the reads, the check returns a decision or an error after at most forty-one reads of the
  node's database.
\<close>

theorem reorg_check_terminates:
  "\<exists>r j. check_and_handle_reorg env db_tip stored_hash i = Some (r, j) \<and> j \<le> i + 41"
proof -
  let ?floor = "saturating_sub db_tip DEEP_FORK_DEPTH"
  obtain r j where h: "get_chain_block_hash env db_tip i = (r, j)" by (rule prod.exhaust)
  have j: "j \<le> Suc i" using h by (auto simp: get_chain_block_hash_def refresh_def split: option.splits)
  show ?thesis
  proof (cases "\<exists>c. r = Inr c \<and> c \<noteq> stored_hash")
    case False
    then show ?thesis using h j by (cases r) (simp_all add: check_and_handle_reorg_def)
  next
    case True
    then obtain c where c: "r = Inr c" "c \<noteq> stored_hash" by blast
    show ?thesis
    proof (cases "?floor = 0")
      case True
      obtain r1 j1 where "search_and_decide env db_tip stored_hash ?floor j = Some (r1, j1)" "j1 \<le> j + 39"
        using search_and_decide_total by blast
      then show ?thesis using h j c True by (simp add: check_and_handle_reorg_def)
    next
      case False
      then have chk: "check_and_handle_reorg env db_tip stored_hash i = probe_floor env db_tip stored_hash ?floor j"
        using h c by (simp add: check_and_handle_reorg_def word_neq_0_conv)
      obtain r1 j1 where "probe_floor env db_tip stored_hash ?floor j = Some (r1, j1)" "j1 \<le> j + 40" using probe_floor_total by blast
      then show ?thesis using chk j by simp
    qed
  qed
qed

text \<open>What a decision says of the hashes that were read.\<close>

definition decision_sound :: "fork_env \<Rightarrow> u64 \<Rightarrow> bytes \<Rightarrow> nat \<Rightarrow> reorg_decision \<Rightarrow> bool" where
  "decision_sound env db_tip stored_hash i d = (case d of
     NoReorg \<Rightarrow> (\<exists>views v. ckb_store env = Some views \<and> views i = Inr v \<and> view_hash v db_tip = Some stored_hash)
   | RecordDeepFork args depth \<Rightarrow> depth = 37 \<and> 36 < unat db_tip \<and> fc_fork_point args = db_tip - 36 \<and>
       db_hash env (db_tip - 36) = Inr (Some (fc_fork_hash args)) \<and>
       (\<exists>views v h. ckb_store env = Some views \<and> views (Suc i) = Inr v \<and> view_hash v (db_tip - 36) = Some h \<and> h \<noteq> fc_fork_hash args)
   | ExecuteReorg args \<Rightarrow> fc_fork_point args \<le> db_tip \<and> unat db_tip - unat (fc_fork_point args) \<le> 36 \<and>
       (\<exists>k > i. agreed env (fc_fork_point args) (fc_fork_hash args) k))"

definition names_tip :: "u64 \<Rightarrow> bytes \<Rightarrow> reorg_decision \<Rightarrow> bool" where
  "names_tip db_tip stored_hash d = (case d of NoReorg \<Rightarrow> True
     | RecordDeepFork args _ \<Rightarrow> fc_db_tip args = db_tip \<and> fc_db_tip_hash args = stored_hash
     | ExecuteReorg args \<Rightarrow> fc_db_tip args = db_tip \<and> fc_db_tip_hash args = stored_hash)"

lemma fork_args_Inr:
  "fork_args f h d s c ch = Inr a \<Longrightarrow> fc_fork_point a = f \<and> fc_fork_hash a = h \<and> fc_db_tip a = d \<and> fc_db_tip_hash a = s \<and>
    fc_chain_tip a = c \<and> fc_chain_tip_hash a = ch"
  by (auto simp: fork_args_def i64_of_u64_def res_simps split: if_splits)

lemma window_depth:
  assumes "f \<le> db_tip" "saturating_sub db_tip DEEP_FORK_DEPTH \<le> db_tip \<longrightarrow> saturating_sub db_tip DEEP_FORK_DEPTH \<le> f"
  shows "unat db_tip - unat f \<le> 36" "\<not> DEEP_FORK_DEPTH < db_tip - f"
proof -
  have "unat db_tip - unat f \<le> 36"
  proof (cases "db_tip < 36")
    case True
    then have "unat db_tip < 36" by (simp add: word_less_nat_alt)
    then show ?thesis by simp
  next
    case False
    then have le: "(36 :: u64) \<le> db_tip" by simp
    then have "unat (db_tip - 36) = unat db_tip - 36" by (simp add: unat_sub)
    moreover have "saturating_sub db_tip DEEP_FORK_DEPTH = db_tip - 36" using False by (simp add: saturating_sub_def DEEP_FORK_DEPTH_def)
    moreover have "db_tip - 36 \<le> db_tip" using le by (simp add: word_le_nat_alt unat_sub)
    ultimately have "unat db_tip - 36 \<le> unat f" using assms(2) by (simp add: word_le_nat_alt)
    then show ?thesis by linarith
  qed
  then show "unat db_tip - unat f \<le> 36" .
  then show "\<not> DEEP_FORK_DEPTH < db_tip - f" using assms(1) by (simp add: DEEP_FORK_DEPTH_def word_less_nat_alt unat_sub)
qed

lemma search_and_decide_sound:
  assumes "search_and_decide env db_tip stored_hash (saturating_sub db_tip DEEP_FORK_DEPTH) i = Some (Inr d, j)"
  shows "\<exists>args k. d = ExecuteReorg args \<and> fc_fork_point args \<le> db_tip \<and> unat db_tip - unat (fc_fork_point args) \<le> 36 \<and>
    fc_db_tip args = db_tip \<and> fc_db_tip_hash args = stored_hash \<and> i \<le> k \<and> agreed env (fc_fork_point args) (fc_fork_hash args) k"
proof -
  let ?floor = "saturating_sub db_tip DEEP_FORK_DEPTH"
  obtain out where out: "find_fork_point env db_tip ?floor i = Some out" "search_result env i db_tip ?floor out"
    using find_fork_point_total [OF refl] by blast
  obtain f h where fh: "fst out = Inr (f, h)" using assms out(1) by (cases out; cases "fst out") (auto simp: search_and_decide_def)
  have r: "i < snd out" "f \<le> db_tip" "?floor \<le> db_tip \<longrightarrow> ?floor \<le> f" "agreed env f h (snd out - 1)"
    using out(2) fh unfolding search_result_def by blast+
  note depth = window_depth [OF r(2,3)]
  obtain c ch k where tip: "chain_tip_with_hash env (snd out) = (Inr (c, ch), k)"
    using assms out(1) fh by (cases out; cases "chain_tip_with_hash env (snd out)"; cases "fst (chain_tip_with_hash env (snd out))")
      (auto simp: search_and_decide_def)
  obtain args where args: "fork_args f h db_tip stored_hash c ch = Inr args" "d = ExecuteReorg args"
    using assms out(1) fh tip depth(2) by (cases out) (auto simp: search_and_decide_def Let_def res_simps)
  show ?thesis using fork_args_Inr [OF args(1)] args(2) r depth(1) by (intro exI [of _ args] exI [of _ "snd out - 1"]) simp
qed

lemma record_at_floor_sound:
  assumes "record_at_floor env db_tip stored_hash fl h i = (Inr d, j)"
  shows "\<exists>args. d = RecordDeepFork args 37 \<and> fc_fork_point args = fl \<and> fc_fork_hash args = h \<and>
    fc_db_tip args = db_tip \<and> fc_db_tip_hash args = stored_hash"
proof -
  obtain c ch k where tip: "chain_tip_with_hash env i = (Inr (c, ch), k)"
    using assms by (cases "chain_tip_with_hash env i"; cases "fst (chain_tip_with_hash env i)") (auto simp: record_at_floor_def)
  obtain args where args: "fork_args fl h db_tip stored_hash c ch = Inr args" "d = RecordDeepFork args 37"
    using assms tip by (auto simp: record_at_floor_def DEEP_FORK_DEPTH_def i64_of_u64_def res_simps)
  show ?thesis using fork_args_Inr [OF args(1)] args(2) by simp
qed

lemma positive_floor:
  assumes "saturating_sub db_tip DEEP_FORK_DEPTH \<noteq> 0"
  shows "saturating_sub db_tip DEEP_FORK_DEPTH = db_tip - 36" "36 < unat db_tip"
proof -
  have "\<not> db_tip < 36" and e: "saturating_sub db_tip DEEP_FORK_DEPTH = db_tip - 36"
    using assms by (auto simp: saturating_sub_def DEEP_FORK_DEPTH_def split: if_splits)
  show "saturating_sub db_tip DEEP_FORK_DEPTH = db_tip - 36" by (rule e)
  have "db_tip \<noteq> 36" using assms e by auto
  then have "36 < db_tip" using \<open>\<not> db_tip < 36\<close> by simp
  then show "36 < unat db_tip" by (simp add: word_less_nat_alt)
qed

text \<open>
  C13. A reorganisation is never deeper than it may be: however the node's chain changes while it is
  read, a decision to leave the tip alone was taken on the stored hash; a decision to roll back
  names a height at most thirty-six below the tip, with the hash both databases had there when it
  was read; and the decision to pause names the floor of the window, where the two hashes
  differed, and the depth thirty-seven. The test of the depth after the search never fires.
\<close>

theorem reorg_decision_safe:
  assumes "check_and_handle_reorg env db_tip stored_hash i = Some (Inr d, j)"
  shows "decision_sound env db_tip stored_hash i d \<and> names_tip db_tip stored_hash d"
proof -
  let ?floor = "saturating_sub db_tip DEEP_FORK_DEPTH"
  obtain c k where h: "get_chain_block_hash env db_tip i = (Inr c, k)"
    using assms by (cases "get_chain_block_hash env db_tip i"; cases "fst (get_chain_block_hash env db_tip i)")
      (auto simp: check_and_handle_reorg_def)
  then have node: "k = Suc i" "\<exists>views v. ckb_store env = Some views \<and> views i = Inr v \<and> view_hash v db_tip = Some c"
    by (auto simp: get_chain_block_hash_def refresh_def res_simps split: option.splits)
  have search: ?thesis if "search_and_decide env db_tip stored_hash ?floor m = Some (Inr d, j)" "i < m" for m
  proof -
    note run = that(1)
    obtain args n where a: "d = ExecuteReorg args" "fc_fork_point args \<le> db_tip" "unat db_tip - unat (fc_fork_point args) \<le> 36"
      "fc_db_tip args = db_tip" "fc_db_tip_hash args = stored_hash" "m \<le> n" "agreed env (fc_fork_point args) (fc_fork_hash args) n"
      using search_and_decide_sound [OF run] by blast
    have "\<exists>k>i. agreed env (fc_fork_point args) (fc_fork_hash args) k" using a(6,7) \<open>i < m\<close> less_le_trans by blast
    then show ?thesis using a by (simp add: decision_sound_def names_tip_def)
  qed
  show ?thesis
  proof (cases "c = stored_hash")
    case True
    then show ?thesis using assms h node by (auto simp: check_and_handle_reorg_def decision_sound_def names_tip_def)
  next
    case c: False
    show ?thesis
    proof (cases "?floor = 0")
      case True
      then show ?thesis using assms h c node search [of k] by (simp add: check_and_handle_reorg_def)
    next
      case False
      then have p: "probe_floor env db_tip stored_hash ?floor k = Some (Inr d, j)"
        using assms h c by (simp add: check_and_handle_reorg_def word_neq_0_conv)
      obtain x y m where hs: "hashes_at env ?floor ''fork-search floor exceeds i64 range'' k = (Inr (x, y), m)"
        using p by (cases "hashes_at env ?floor ''fork-search floor exceeds i64 range'' k";
            cases "fst (hashes_at env ?floor ''fork-search floor exceeds i64 range'' k)") (auto simp: probe_floor_def)
      note at_floor = hashes_at_Inr [OF hs]
      show ?thesis
      proof (cases "x = y")
        case True
        then show ?thesis using p hs search [of m] at_floor node by (simp add: probe_floor_def)
      next
        case False
        then have "record_at_floor env db_tip stored_hash ?floor x m = (Inr d, j)" using p hs by (simp add: probe_floor_def)
        then show ?thesis using record_at_floor_sound at_floor node positive_floor [OF \<open>?floor \<noteq> 0\<close>] False
          by (fastforce simp: decision_sound_def names_tip_def)
      qed
    qed
  qed
qed

section \<open>A settled node\<close>

text \<open>
  The node's view does not change, both databases hold every height up to the tip, and the two
  chains are the same up to \<open>f\<close> and differ above it, as chains linked by parent hashes do.
\<close>

definition settled :: "fork_env \<Rightarrow> chain_view \<Rightarrow> u64 \<Rightarrow> (u64 \<Rightarrow> bytes) \<Rightarrow> (u64 \<Rightarrow> bytes) \<Rightarrow> u64 \<Rightarrow> bool" where
  "settled env v db_tip D C f \<longleftrightarrow> ckb_store env = Some (\<lambda>_. Inr v) \<and> f \<le> db_tip \<and> unat db_tip < 2 ^ 63 \<and>
     (\<forall>h. h \<le> db_tip \<longrightarrow> db_hash env h = Inr (Some (D h)) \<and> view_hash v h = Some (C h) \<and> (D h = C h \<longleftrightarrow> h \<le> f))"

lemma settled_at:
  assumes "settled env v db_tip D C f" "h \<le> db_tip"
  shows "hashes_at env h err i = (Inr (D h, C h), Suc i)" "get_chain_block_hash env h i = (Inr (C h), Suc i)"
proof -
  have "unat h < 2 ^ 63" using assms by (simp add: settled_def word_le_nat_alt)
  then show "hashes_at env h err i = (Inr (D h, C h), Suc i)" "get_chain_block_hash env h i = (Inr (C h), Suc i)"
    using assms
    by (simp_all add: settled_def hashes_at_def get_block_hash_at_height_def i64_of_u64_def get_chain_block_hash_def refresh_def)
qed

lemma settled_search:
  assumes s: "settled env v db_tip D C f" and m: "min_height \<le> f"
  shows "f \<le> height \<Longrightarrow> height \<le> db_tip \<Longrightarrow> \<exists>j. find_fork_point env height min_height i = Some (Inr (f, D f), j)"
proof (induction "unat height - unat f" arbitrary: height i)
  case 0
  then have "height = f" by (simp add: word_le_nat_alt word_unat_eq_iff)
  moreover have "D f = C f" using s by (auto simp: settled_def)
  ultimately show ?case using find_fork_point_step(2) [OF settled_at(1) [OF s 0(3)]] by simp
next
  case (Suc n)
  have lt: "unat f < unat height" using Suc.hyps(2) by linarith
  then have ne: "height \<noteq> 0" "height \<noteq> f" by auto
  have nm: "height \<noteq> min_height" using lt m by (auto simp: word_le_nat_alt)
  have "\<not> height \<le> f" using lt by (simp add: word_le_nat_alt)
  then have d: "D height \<noteq> C height" using s Suc.prems(2) by (auto simp: settled_def)
  have pred: "unat (height - 1) = unat height - 1" by (rule unat_pred [OF ne(1)])
  have "n = unat (height - 1) - unat f" "f \<le> height - 1" "height - 1 \<le> db_tip"
    using Suc.hyps(2) lt Suc.prems(2) unfolding word_le_nat_alt pred by linarith+
  then obtain j where "find_fork_point env (height - 1) min_height (Suc i) = Some (Inr (f, D f), j)" using Suc.hyps(1) by blast
  then show ?case using find_fork_point_step(4) [OF settled_at(1) [OF s Suc.prems(2)] refl d ne(1) nm] by simp
qed

lemma settled_floor:
  assumes "unat db_tip - unat f \<le> 36" "f \<le> (db_tip :: u64)"
  shows "saturating_sub db_tip DEEP_FORK_DEPTH \<le> f"
proof (cases "db_tip < 36")
  case False
  then have "unat (db_tip - 36) = unat db_tip - 36" by (simp add: unat_sub)
  then show ?thesis using False assms by (simp add: saturating_sub_def DEEP_FORK_DEPTH_def word_le_nat_alt)
qed (simp add: saturating_sub_def DEEP_FORK_DEPTH_def)

text \<open>The decision on a settled node.\<close>

definition settled_decision :: "u64 \<Rightarrow> (u64 \<Rightarrow> bytes) \<Rightarrow> u64 \<Rightarrow> u64 \<Rightarrow> bytes \<Rightarrow> reorg_decision" where
  "settled_decision db_tip D f chain_tip chain_tip_hash =
     (let args = \<lambda>p. \<lparr>fc_fork_point = p, fc_fork_hash = D p, fc_db_tip = db_tip, fc_db_tip_hash = D db_tip,
            fc_chain_tip = chain_tip, fc_chain_tip_hash = chain_tip_hash\<rparr>
      in if f = db_tip then NoReorg
         else if unat db_tip - unat f \<le> 36 then ExecuteReorg (args f)
         else RecordDeepFork (args (db_tip - 36)) 37)"

lemma settled_args:
  assumes "unat p < 2 ^ 63" "unat db_tip < 2 ^ 63" "unat t < 2 ^ 63"
  shows "fork_args p h db_tip s t th = Inr \<lparr>fc_fork_point = p, fc_fork_hash = h, fc_db_tip = db_tip, fc_db_tip_hash = s,
    fc_chain_tip = t, fc_chain_tip_hash = th\<rparr>"
  using assms by (simp add: fork_args_def i64_of_u64_def)

lemma settled_tip:
  assumes "settled env v db_tip D C f" "view_tip v = Some t" "view_hash v t = Some th"
  shows "chain_tip_with_hash env i = (Inr (t, th), i + 2)"
  using assms by (simp add: settled_def chain_tip_with_hash_def get_chain_tip_def get_chain_block_hash_def refresh_def)

lemma settled_check:
  assumes "settled env v db_tip D C f" and "view_tip v = Some t" and "view_hash v t = Some th" and "unat t < 2 ^ 63"
  shows "\<exists>j. check_and_handle_reorg env db_tip (D db_tip) i = Some (Inr (settled_decision db_tip D f t th), j)"
proof -
  let ?floor = "saturating_sub db_tip DEEP_FORK_DEPTH"
  note at = settled_at [OF assms(1)] and tip = settled_tip [OF assms(1-3)]
  have f: "f \<le> db_tip" "unat db_tip < 2 ^ 63" and eq: "\<And>h. h \<le> db_tip \<Longrightarrow> D h = C h \<longleftrightarrow> h \<le> f" using assms(1) by (auto simp: settled_def)
  have args: "fork_args p h db_tip s t th = Inr \<lparr>fc_fork_point = p, fc_fork_hash = h, fc_db_tip = db_tip, fc_db_tip_hash = s,
      fc_chain_tip = t, fc_chain_tip_hash = th\<rparr>" if "p \<le> db_tip" for p h s
    using settled_args [OF _ f(2) assms(4)] that f(2) by (simp add: word_le_nat_alt)
  have search: "\<exists>j. search_and_decide env db_tip (D db_tip) ?floor m = Some (Inr (settled_decision db_tip D f t th), j)"
    if "unat db_tip - unat f \<le> 36" "f \<noteq> db_tip" for m
  proof -
    have fl: "?floor \<le> f" by (rule settled_floor [OF that(1) f(1)])
    obtain j where "find_fork_point env db_tip ?floor m = Some (Inr (f, D f), j)"
      using settled_search [OF assms(1) fl f(1) order_refl] by blast
    then show ?thesis using window_depth(2) [OF f(1)] fl tip args [OF f(1)] that
      by (simp add: search_and_decide_def settled_decision_def Let_def)
  qed
  show ?thesis
  proof (cases "f = db_tip")
    case True
    then show ?thesis using at(2) [OF order_refl] eq [OF order_refl] by (simp add: check_and_handle_reorg_def settled_decision_def)
  next
    case False
    then have "D db_tip \<noteq> C db_tip" using eq [OF order_refl] f(1) by (auto simp: order_antisym)
    then have chk: "check_and_handle_reorg env db_tip (D db_tip) i =
        (if 0 < ?floor then probe_floor env db_tip (D db_tip) ?floor (Suc i) else search_and_decide env db_tip (D db_tip) ?floor (Suc i))"
      using at(2) [OF order_refl] by (simp add: check_and_handle_reorg_def)
    show ?thesis
    proof (cases "unat db_tip - unat f \<le> 36")
      case True
      have le: "?floor \<le> db_tip" using settled_floor [OF True f(1)] f(1) by (rule order_trans)
      have "D ?floor = C ?floor" using eq [OF le] settled_floor [OF True f(1)] by simp
      then have "probe_floor env db_tip (D db_tip) ?floor (Suc i) = search_and_decide env db_tip (D db_tip) ?floor (Suc (Suc i))"
        using at(1) [OF le] by (simp add: probe_floor_def)
      then show ?thesis using chk search [OF True False] by simp
    next
      case deep: False
      then have big: "36 < unat db_tip" by linarith
      then have "\<not> db_tip < 36" by (simp add: word_less_nat_alt)
      then have fl: "?floor = db_tip - 36" "unat (db_tip - 36) = unat db_tip - 36"
        by (simp_all add: saturating_sub_def DEEP_FORK_DEPTH_def unat_sub)
      have le: "db_tip - 36 \<le> db_tip" unfolding word_le_nat_alt fl(2) by simp
      have "\<not> db_tip - 36 \<le> f" using deep unfolding word_le_nat_alt fl(2) by linarith
      then have "D (db_tip - 36) \<noteq> C (db_tip - 36)" using eq [OF le] by simp
      moreover have "0 < db_tip - 36" unfolding word_less_nat_alt fl(2) using big by simp
      moreover have "record_at_floor env db_tip (D db_tip) (db_tip - 36) h k =
          (Inr (RecordDeepFork \<lparr>fc_fork_point = db_tip - 36, fc_fork_hash = h, fc_db_tip = db_tip, fc_db_tip_hash = D db_tip,
            fc_chain_tip = t, fc_chain_tip_hash = th\<rparr> 37), k + 2)" for h k
        using tip args [OF le] by (simp add: record_at_floor_def DEEP_FORK_DEPTH_def i64_of_u64_def)
      ultimately show ?thesis using chk at(1) [OF le] False deep
        by (simp add: fl(1) probe_floor_def settled_decision_def Let_def)
    qed
  qed
qed

text \<open>
  C14. On a node that holds still, the decision is the right one: when the two chains part at \<open>f\<close>, a
  tip on the node's chain is left alone, a tip at most thirty-six blocks above \<open>f\<close> is rolled back
  to \<open>f\<close> itself, and a tip further away pauses the indexer, with the tips and hashes of both chains.
\<close>

theorem reorg_decision_exact:
  assumes "settled env v db_tip D C f" and "view_tip v = Some t" and "view_hash v t = Some th" and "unat t < 2 ^ 63"
  shows "\<exists>j. check_and_handle_reorg env db_tip (D db_tip) i = Some (Inr (settled_decision db_tip D f t th), j)"
  by (rule settled_check [OF assms])

text \<open>A tip at block 40 on a branch that left the node's chain after block 38.\<close>

definition stored_hashes :: "u64 \<Rightarrow> bytes" where
  "stored_hashes h = [ucast h, 0]"

definition node_hashes :: "u64 \<Rightarrow> bytes" where
  "node_hashes h = [ucast h, if h \<le> 38 then 0 else 1]"

definition sample_view :: chain_view where
  "sample_view = \<lparr>view_hash = (\<lambda>h. if h \<le> 41 then Some (node_hashes h) else None), view_tip = Some 41\<rparr>"

definition sample_fork :: fork_env where
  "sample_fork = \<lparr>ckb_store = Some (\<lambda>_. Inr sample_view), db_hash = (\<lambda>h. Inr (if h \<le> 40 then Some (stored_hashes h) else None))\<rparr>"

lemma sample_settled: "settled sample_fork sample_view 40 stored_hashes node_hashes 38"
proof -
  have "h \<le> 41" if "h \<le> 40" for h :: u64 using that by (rule order_trans) simp
  then show ?thesis by (auto simp: settled_def sample_fork_def sample_view_def stored_hashes_def node_hashes_def)
qed

lemma sample_tips: "view_tip sample_view = Some 41" "view_hash sample_view 41 = Some (node_hashes 41)"
  by (simp_all add: sample_view_def)

theorem reorg_decision_exact_witness:
  "\<exists>j. check_and_handle_reorg sample_fork 40 (stored_hashes 40) 0 =
    Some (Inr (ExecuteReorg \<lparr>fc_fork_point = 38, fc_fork_hash = stored_hashes 38, fc_db_tip = 40, fc_db_tip_hash = stored_hashes 40,
      fc_chain_tip = 41, fc_chain_tip_hash = node_hashes 41\<rparr>), j)"
  using reorg_decision_exact [OF sample_settled sample_tips, of 0] by (simp add: settled_decision_def)

theorem reorg_decision_safe_witness:
  "\<exists>d. decision_sound sample_fork 40 (stored_hashes 40) 0 d \<and> d \<noteq> NoReorg"
proof -
  obtain j where "check_and_handle_reorg sample_fork 40 (stored_hashes 40) 0 =
      Some (Inr (settled_decision 40 stored_hashes 38 41 (node_hashes 41)), j)"
    using settled_check [OF sample_settled sample_tips, of 0] by auto
  then show ?thesis using reorg_decision_safe [of sample_fork 40 "stored_hashes 40" 0 _ j] by (auto simp: settled_decision_def)
qed

end
