(* ===== verification/Fork_Events.thy ===== *)
theory Fork_Events
  imports Keys_Sync Live_Summary Ordered_Map
begin

text \<open>
  The history of chain switches that the writer keeps
  (\<^verbatim>\<open>crates/indexer/src/db/writer/reorg.rs\<close>) and the reads of it
  (\<^verbatim>\<open>crates/ckbadger-store/src/sync_ops.rs\<close>): recording a switch or a deep fork, interrupting
  a pending reconciliation before another rollback, and the reconciliation after replay, which
  links a switch to the earlier ones whose abandoned tip it restored.

  The rows are decoded: an event stands for its serialised form, and \<open>events\<close> holds the rows of
  \<open>sync_meta\<close> whose key starts with \<open>reorg:\<close> in key order. Heights are integers. The clock and the
  random identifier of a new history key are arguments. What a rollback does to the rest of the
  store is not state of this theory: the reset of the derived aggregates and the rollback itself
  (undo log, cells, flushes and refreshes) are the arguments \<open>invalidate\<close> and \<open>rollback\<close> of
  \<open>execute_reorg\<close>; they may fail half way and may change everything here but the history.
\<close>

section \<open>Records\<close>

datatype ReorgEventKind = Automatic | Deep

record ReorgEvent =
  detected_at :: int
  ev_kind :: ReorgEventKind
  fork_point :: int
  fork_point_hash :: bytes
  old_tip :: int
  old_tip_hash :: bytes
  first_orphan_hash :: "bytes option"
  new_tip :: int
  new_tip_hash :: bytes
  superseded_by_tip_hash :: "bytes option"
  reconcile_interrupted :: bool
  depth :: int
  orphaned_blocks :: int
  orphaned_txs :: int
  reverted_by_event :: "bytes option"
  reverses_events :: "bytes list"

record ReorgEventRecord =
  rec_key :: bytes
  detected_at_ms :: i64
  rec_event :: ReorgEvent

record DeepForkInfo =
  df_db_tip :: int
  df_db_tip_hash :: bytes
  df_chain_tip :: int
  df_chain_tip_hash :: bytes
  df_depth :: int
  df_fork_point :: int

text \<open>The fields of a stored header that the writer reads here.\<close>

record stored_header =
  header_hash :: bytes
  parent_hash :: bytes

record fork_state =
  headers :: "int \<Rightarrow> stored_header option"
  sync_tip :: int
  events :: "(bytes, ReorgEvent) omap"
  pending :: "bytes option"
  deep_fork_info :: "DeepForkInfo option"
  deep_fork_detected :: bool
  summary_initialized :: bool
  summary_current :: "LiveCellSummary option"
  summary_history :: "int \<Rightarrow> LiveCellSummary option"
  coverage_floor :: "int option"

definition fits_i32 :: "int \<Rightarrow> bool" where
  "fits_i32 v \<longleftrightarrow> - (2 ^ 31) \<le> v \<and> v < 2 ^ 31"

section \<open>Reading the history\<close>

definition decode_reorg_event_record :: "bytes \<Rightarrow> ReorgEvent \<Rightarrow> ReorgEventRecord res" where
  "decode_reorg_event_record key value =
     rbind (decode_reorg_event_key key) (\<lambda>ms. Inr \<lparr>rec_key = key, detected_at_ms = ms, rec_event = value\<rparr>)"

text \<open>
  The page size is an option: \<open>None\<close> stands for \<open>usize::MAX\<close>, more rows than a vector can hold.
\<close>

fun list_rows :: "nat option \<Rightarrow> bytes option \<Rightarrow> (bytes \<times> ReorgEvent) list \<Rightarrow> ReorgEventRecord list \<Rightarrow> ReorgEventRecord list res" where
  "list_rows limit cursor [] rows = Inr rows"
| "list_rows limit cursor ((key, value) # rest) rows =
     (if \<not> prefix REORG_EVENT_KEY_PREFIX key then Inr rows
      else if Some key = cursor then list_rows limit cursor rest rows
      else rbind (decode_reorg_event_record key value) (\<lambda>r.
           if Some (length (rows @ [r])) = limit then Inr (rows @ [r]) else list_rows limit cursor rest (rows @ [r])))"

definition list_reorg_events :: "nat option \<Rightarrow> bytes option \<Rightarrow> fork_state \<Rightarrow> ReorgEventRecord list res" where
  "list_reorg_events limit cursor_key_exclusive st =
     rbind (case cursor_key_exclusive of None \<Rightarrow> Inr () | Some cursor_key \<Rightarrow> rbind (decode_reorg_event_key cursor_key) (\<lambda>_. Inr ())) (\<lambda>_.
     if limit = Some 0 then Inr []
     else let start = (case cursor_key_exclusive of None \<Rightarrow> REORG_EVENT_KEY_PREFIX_END | Some cursor_key \<Rightarrow> cursor_key)
          in list_rows limit cursor_key_exclusive (rev (filter (\<lambda>(key, _). key \<le> start) (events st))) [])"

definition get_latest_reorg_event :: "fork_state \<Rightarrow> ReorgEventRecord option res" where
  "get_latest_reorg_event st =
     rbind (list_reorg_events (Some 1) None st) (\<lambda>rows. Inr (case rows of [] \<Rightarrow> None | r # _ \<Rightarrow> Some r))"

fun find_event :: "bytes \<Rightarrow> (bytes \<times> ReorgEvent) list \<Rightarrow> ReorgEventRecord option \<Rightarrow> ReorgEventRecord option res" where
  "find_event pre [] found = Inr found"
| "find_event pre ((key, value) # rest) found =
     (if \<not> prefix pre key then Inr found
      else rbind (decode_reorg_event_record key value) (\<lambda>r.
           case found of
             Some _ \<Rightarrow> Inl (Bail ''ambiguous reorg event id'')
           | None \<Rightarrow> find_event pre rest (Some r)))"

definition get_reorg_event :: "i64 \<Rightarrow> fork_state \<Rightarrow> ReorgEventRecord option res" where
  "get_reorg_event ms st =
     rbind (reorg_event_key_ms_prefix ms) (\<lambda>pre. find_event pre (om_from pre (events st)) None)"

section \<open>The dropped branch\<close>

fun walk_branch :: "fork_state \<Rightarrow> int list \<Rightarrow> bytes \<Rightarrow> bytes option \<Rightarrow> (bytes \<times> bytes option) res" where
  "walk_branch st [] parent first = Inr (parent, first)"
| "walk_branch st (height # hs) parent first =
     rbind (ok_or (headers st height) (Bail ''first orphan: the stored old branch has no header'')) (\<lambda>header.
     rbind (ensure (parent_hash header = parent) (Bail ''first orphan: stored header has another parent'')) (\<lambda>_.
     walk_branch st hs (header_hash header) (case first of None \<Rightarrow> Some (header_hash header) | Some f \<Rightarrow> Some f)))"

definition first_orphan_of_stored_branch :: "fork_state \<Rightarrow> int \<Rightarrow> bytes \<Rightarrow> int \<Rightarrow> bytes \<Rightarrow> bytes res" where
  "first_orphan_of_stored_branch st fork_pt fork_hash tip tip_hash =
     rbind (ensure (fork_pt < tip) (Bail ''first orphan: old tip is not above fork point'')) (\<lambda>_.
     rbind (walk_branch st [fork_pt + 1..tip] fork_hash None) (\<lambda>(parent, first).
     rbind (ensure (parent = tip_hash) (Bail ''first orphan: the stored old branch does not end at the recorded old tip'')) (\<lambda>_.
     rbind (ok_or first (Bail ''first orphan: empty old branch'')) (\<lambda>f.
     rbind (ensure (length f = 32) (Bail ''first orphan: stored header hash has a wrong length'')) (\<lambda>_. Inr f)))))"

section \<open>Interruption\<close>

datatype RollbackCause = NewForkEvent | Cleanup int

definition begin_rollback :: "RollbackCause \<Rightarrow> fork_state \<Rightarrow> fork_state res" where
  "begin_rollback cause st =
     (case pending st of
        None \<Rightarrow> Inr st
      | Some key \<Rightarrow>
          rbind (decode_reorg_event_key key) (\<lambda>_.
          rbind (ok_or (om_get (events st) key) (Bail ''pending reorg event is missing before rollback'')) (\<lambda>event.
          rbind (ensure (ev_kind event = Automatic) (Bail ''pending reconciliation is not an automatic fork before rollback'')) (\<lambda>_.
          if (case cause of Cleanup target \<Rightarrow> fork_point event \<le> target | NewForkEvent \<Rightarrow> False) then Inr st
          else Inr (st\<lparr>events := om_put key (event\<lparr>reconcile_interrupted := True\<rparr>) (events st), pending := None\<rparr>)))))"

section \<open>Reconciliation\<close>

fun reconcile_priors ::
    "fork_state \<Rightarrow> bytes \<Rightarrow> ReorgEventRecord list \<Rightarrow> ReorgEvent \<times> bool \<times> (bytes \<times> ReorgEvent) list \<Rightarrow>
     (ReorgEvent \<times> bool \<times> (bytes \<times> ReorgEvent) list) res" where
  "reconcile_priors st key [] acc = Inr acc"
| "reconcile_priors st key (r # rest) (current, complete, puts) =
     (let k = rec_key r; prior = rec_event r in
      if k = key \<or> ev_kind prior \<noteq> Automatic \<or> reverted_by_event prior \<noteq> None \<or> old_tip prior \<le> fork_point current
      then reconcile_priors st key rest (current, complete, puts)
      else if sync_tip st < old_tip prior then reconcile_priors st key rest (current, False, puts)
      else rbind (ok_or (headers st (old_tip prior)) (Bail ''canonical header missing while reconciling abandoned fork'')) (\<lambda>header.
           if header_hash header \<noteq> old_tip_hash prior then reconcile_priors st key rest (current, complete, puts)
           else reconcile_priors st key rest
             (current\<lparr>reverses_events := (if k \<in> set (reverses_events current) then reverses_events current
                else reverses_events current @ [k])\<rparr>,
              complete, puts @ [(k, prior\<lparr>reverted_by_event := Some key\<rparr>)])))"

definition note_superseded :: "ReorgEvent \<Rightarrow> bytes \<Rightarrow> ReorgEvent res" where
  "note_superseded current canonical =
     (if canonical \<noteq> new_tip_hash current then
        rbind (case superseded_by_tip_hash current of
             None \<Rightarrow> Inr ()
           | Some previous \<Rightarrow> ensure (previous = canonical) (Bail ''superseded tip hash changed during fork reconciliation'')) (\<lambda>_.
        Inr (current\<lparr>superseded_by_tip_hash := Some canonical\<rparr>))
      else
        rbind (ensure (superseded_by_tip_hash current = None)
                 (Bail ''superseded tip hash exists but observed tip is canonical during fork reconciliation'')) (\<lambda>_.
        Inr current))"

definition write_links :: "bytes \<Rightarrow> ReorgEvent \<Rightarrow> ReorgEvent \<Rightarrow> bool \<Rightarrow> (bytes \<times> ReorgEvent) list \<Rightarrow> fork_state \<Rightarrow> fork_state" where
  "write_links key current linked complete puts st =
     (let next_event = linked\<lparr>reverses_events := sort (reverses_events linked)\<rparr>;
          priors = fold (\<lambda>(k, e). om_put k e) puts (events st)
      in st\<lparr>events := (if next_event \<noteq> current then om_put key next_event priors else priors),
            pending := (if complete then None else Some key)\<rparr>)"

definition reconcile_reorg_events :: "fork_state \<Rightarrow> fork_state res" where
  "reconcile_reorg_events st =
     (case pending st of
        None \<Rightarrow> Inr st
      | Some key \<Rightarrow>
          rbind (decode_reorg_event_key key) (\<lambda>_.
          rbind (ok_or (om_get (events st) key) (Bail ''pending reorg event is missing'')) (\<lambda>current.
          rbind (ensure (ev_kind current = Automatic) (Bail ''pending reconciliation is not an automatic fork'')) (\<lambda>_.
          if sync_tip st < new_tip current then Inr st
          else
            rbind (ok_or (headers st (fork_point current)) (Bail ''canonical fork point header missing during fork reconciliation'')) (\<lambda>fork_header.
            rbind (ensure (header_hash fork_header = fork_point_hash current) (Bail ''fork point hash mismatch during fork reconciliation'')) (\<lambda>_.
            rbind (ok_or (headers st (new_tip current)) (Bail ''canonical header missing during fork reconciliation'')) (\<lambda>winning.
            rbind (note_superseded current (header_hash winning)) (\<lambda>noted.
            rbind (list_reorg_events None None st) (\<lambda>history.
            rbind (reconcile_priors st key history (noted, True, [])) (\<lambda>(linked, complete, puts).
            Inr (write_links key current linked complete puts st)))))))))))"

section \<open>Recording\<close>

definition deep_event :: "int \<Rightarrow> int \<Rightarrow> bytes \<Rightarrow> int \<Rightarrow> bytes \<Rightarrow> int \<Rightarrow> bytes \<Rightarrow> int \<Rightarrow> ReorgEvent" where
  "deep_event now fork_pt fork_hash db_tip db_tip_hash chain_tip chain_tip_hash fork_depth =
     \<lparr>detected_at = now, ev_kind = Deep, fork_point = fork_pt, fork_point_hash = fork_hash, old_tip = db_tip,
      old_tip_hash = db_tip_hash, first_orphan_hash = None, new_tip = chain_tip, new_tip_hash = chain_tip_hash,
      superseded_by_tip_hash = None, reconcile_interrupted = False, depth = fork_depth, orphaned_blocks = 0,
      orphaned_txs = 0, reverted_by_event = None, reverses_events = []\<rparr>"

definition record_deep_fork ::
    "i64 \<Rightarrow> bytes \<Rightarrow> int \<Rightarrow> int \<Rightarrow> bytes \<Rightarrow> int \<Rightarrow> bytes \<Rightarrow> int \<Rightarrow> bytes \<Rightarrow> int \<Rightarrow> fork_state \<Rightarrow> fork_state res" where
  "record_deep_fork ms uuid now fork_pt fork_hash db_tip db_tip_hash chain_tip chain_tip_hash fork_depth st =
     rbind (ensure (fits_i32 fork_depth) (Bail ''reorg depth exceeds i32 range'')) (\<lambda>_.
     rbind (encode_reorg_event_key ms uuid) (\<lambda>event_key.
     Inr (st\<lparr>events := om_put event_key
                (deep_event now fork_pt fork_hash db_tip db_tip_hash chain_tip chain_tip_hash fork_depth) (events st),
             deep_fork_detected := True,
             deep_fork_info := Some \<lparr>df_db_tip = db_tip, df_db_tip_hash = db_tip_hash, df_chain_tip = chain_tip,
               df_chain_tip_hash = chain_tip_hash, df_depth = fork_depth, df_fork_point = fork_pt\<rparr>,
             summary_current := None\<rparr>)))"

definition check_summary :: "int \<Rightarrow> bytes \<Rightarrow> fork_state \<Rightarrow> unit res" where
  "check_summary tip tip_hash st =
     rbind (ensure (\<not> (summary_initialized st \<and> summary_current st = None))
              (Bail ''initialized live-cell summary is missing before reorg'')) (\<lambda>_.
     rbind (ensure (\<not> (\<not> summary_initialized st \<and> summary_current st \<noteq> None))
              (Bail ''live-cell summary current record exists without initialized marker before reorg'')) (\<lambda>_.
     case summary_current st of
       None \<Rightarrow> Inr ()
     | Some current \<Rightarrow>
         rbind (ok_or (summary_history st (sint (tip_block_number current))) (Bail ''missing live-cell summary history before reorg'')) (\<lambda>history.
         ensure (history = current \<and> sint (tip_block_number current) = tip \<and> tip_block_hash current = tip_hash)
           (Bail ''live-cell summary does not match reorg source tip''))))"

datatype ContractRequirement = Required | OptionalOnFreshStore

definition ensure_rollback_within_entity_stats_coverage :: "int \<Rightarrow> ContractRequirement \<Rightarrow> fork_state \<Rightarrow> unit res" where
  "ensure_rollback_within_entity_stats_coverage rollback_target requirement st =
     (case (coverage_floor st, requirement) of
        (Some coverage_floor_block, _) \<Rightarrow>
          ensure (\<not> rollback_target < coverage_floor_block) (Bail ''entity stats undo coverage floor is above the rollback target'')
      | (None, OptionalOnFreshStore) \<Rightarrow> Inr ()
      | (None, Required) \<Rightarrow> Inl (Bail ''chain store has no entity stats undo contract''))"

record ReorgResult =
  result_depth :: int
  result_orphaned_blocks :: int

definition reorg_checks :: "int \<Rightarrow> bytes \<Rightarrow> int \<Rightarrow> bytes \<Rightarrow> fork_state \<Rightarrow> bytes res" where
  "reorg_checks fork_pt fork_hash tip tip_hash st =
     rbind (ensure (fits_i32 (tip - fork_pt)) (Bail ''reorg depth exceeds i32 range'')) (\<lambda>_.
     rbind (check_summary tip tip_hash st) (\<lambda>_.
     rbind (ensure_rollback_within_entity_stats_coverage fork_pt Required st) (\<lambda>_.
     first_orphan_of_stored_branch st fork_pt fork_hash tip tip_hash)))"

definition switch_event :: "int \<Rightarrow> int \<Rightarrow> bytes \<Rightarrow> int \<Rightarrow> bytes \<Rightarrow> bytes \<Rightarrow> int \<Rightarrow> bytes \<Rightarrow> int \<Rightarrow> int \<Rightarrow> ReorgEvent" where
  "switch_event now fork_pt fork_hash tip tip_hash orphan chain_tip chain_tip_hash blocks txs =
     \<lparr>detected_at = now, ev_kind = Automatic, fork_point = fork_pt, fork_point_hash = fork_hash, old_tip = tip,
      old_tip_hash = tip_hash, first_orphan_hash = Some orphan, new_tip = chain_tip, new_tip_hash = chain_tip_hash,
      superseded_by_tip_hash = None, reconcile_interrupted = False, depth = tip - fork_pt, orphaned_blocks = blocks,
      orphaned_txs = txs, reverted_by_event = None, reverses_events = []\<rparr>"

definition record_switch :: "i64 \<Rightarrow> bytes \<Rightarrow> ReorgEvent \<Rightarrow> fork_state \<Rightarrow> fork_state res" where
  "record_switch ms uuid event st =
     rbind (ensure (fits_i64 (orphaned_blocks event)) (Bail ''rolled-back block count exceeds i64 range'')) (\<lambda>_.
     rbind (ensure (fits_i64 (orphaned_txs event)) (Bail ''rolled-back transaction count exceeds i64 range'')) (\<lambda>_.
     rbind (encode_reorg_event_key ms uuid) (\<lambda>event_key.
     Inr (st\<lparr>events := om_put event_key event (events st), pending := Some event_key, deep_fork_detected := False,
            deep_fork_info := None\<rparr>))))"

text \<open>
  A whole switch: the state it leaves, also when it fails, and what it returns. The last
  conversion of the source comes after the event is committed.
\<close>

definition execute_reorg ::
    "(int \<Rightarrow> fork_state \<Rightarrow> fork_state \<times> unit res) \<Rightarrow> (int \<Rightarrow> fork_state \<Rightarrow> fork_state \<times> (nat \<times> nat) res) \<Rightarrow>
     i64 \<Rightarrow> bytes \<Rightarrow> int \<Rightarrow> int \<Rightarrow> bytes \<Rightarrow> int \<Rightarrow> bytes \<Rightarrow> int \<Rightarrow> bytes \<Rightarrow> fork_state \<Rightarrow> fork_state \<times> ReorgResult res" where
  "execute_reorg invalidate rollback ms uuid now fork_pt fork_hash tip tip_hash chain_tip chain_tip_hash st =
     (case reorg_checks fork_pt fork_hash tip tip_hash st of Inl e \<Rightarrow> (st, Inl e) | Inr orphan \<Rightarrow>
     (case invalidate fork_pt st of (st0, Inl e) \<Rightarrow> (st0, Inl e) | (st0, Inr _) \<Rightarrow>
     (case begin_rollback NewForkEvent st0 of Inl e \<Rightarrow> (st0, Inl e) | Inr st1 \<Rightarrow>
     (case rollback fork_pt st1 of (st2, Inl e) \<Rightarrow> (st2, Inl e) | (st2, Inr (blocks, txs)) \<Rightarrow>
     (case record_switch ms uuid
             (switch_event now fork_pt fork_hash tip tip_hash orphan chain_tip chain_tip_hash (int blocks) (int txs)) st2 of
        Inl e \<Rightarrow> (st2, Inl e)
      | Inr st3 \<Rightarrow>
          (st3, rbind (ensure (fits_i32 (int blocks)) (Bail ''rolled-back block count exceeds i32 range'')) (\<lambda>_.
                Inr \<lparr>result_depth = tip - fork_pt, result_orphaned_blocks = int blocks\<rparr>)))))))"

section \<open>What the reads return\<close>

lemma list_rows_result:
  assumes "\<And>k e. (k, e) \<in> set xs \<Longrightarrow> is_ok (decode_reorg_event_key k)" and "\<And>k e. (k, e) \<in> set xs \<Longrightarrow> prefix REORG_EVENT_KEY_PREFIX k"
    and "case limit of None \<Rightarrow> True | Some n \<Rightarrow> length acc < n"
  shows "list_rows limit cursor xs acc = Inr (acc @ (case limit of None \<Rightarrow> id | Some n \<Rightarrow> take (n - length acc))
    (map (\<lambda>(k, e). \<lparr>rec_key = k, detected_at_ms = projr (decode_reorg_event_key k), rec_event = e\<rparr>)
      (filter (\<lambda>(k, e). Some k \<noteq> cursor) xs)))"
  using assms
proof (induction xs arbitrary: acc)
  case Nil
  then show ?case by (simp split: option.split)
next
  case (Cons x xs)
  obtain k e where x: "x = (k, e)" by (rule prod.exhaust)
  obtain ms where ms: "decode_reorg_event_key k = Inr ms" using Cons.prems(1) x by (auto simp: is_ok_iff)
  have pre: "prefix REORG_EVENT_KEY_PREFIX k" using Cons.prems(2) [of k e] x by simp
  note ih = Cons.IH [OF Cons.prems(1,2) [OF list.set_intros(2)]]
  show ?case
  proof (cases "Some k = cursor")
    case True
    then show ?thesis using ih [OF _ _ Cons.prems(3)] pre by (simp add: x)
  next
    case False
    let ?r = "\<lparr>rec_key = k, detected_at_ms = ms, rec_event = e\<rparr>"
    have step: "list_rows limit cursor (x # xs) acc =
        (if Some (length (acc @ [?r])) = limit then Inr (acc @ [?r]) else list_rows limit cursor xs (acc @ [?r]))"
      using False pre ms by (simp add: x decode_reorg_event_record_def)
    show ?thesis
    proof (cases "Some (length (acc @ [?r])) = limit")
      case True
      then show ?thesis unfolding step using False ms by (auto simp: x)
    next
      case more: False
      then have "case limit of None \<Rightarrow> True | Some n \<Rightarrow> length (acc @ [?r]) < n" using Cons.prems(3) by (auto split: option.splits)
      note rest = ih [OF _ _ this]
      show ?thesis unfolding step using rest more False ms Cons.prems(3)
        by (cases limit) (simp_all add: x take_Cons' Suc_diff_Suc)
    qed
  qed
qed

definition history_keys_fine :: "(bytes, ReorgEvent) omap \<Rightarrow> bool" where
  "history_keys_fine evs \<longleftrightarrow> om_sorted evs \<and> (\<forall>(k, e)\<in>set evs. is_ok (decode_reorg_event_key k))"

text \<open>The row a listing returns for a key, and the rows below a cursor.\<close>

definition event_row :: "bytes \<times> ReorgEvent \<Rightarrow> ReorgEventRecord" where
  "event_row = (\<lambda>(k, e). \<lparr>rec_key = k, detected_at_ms = projr (decode_reorg_event_key k), rec_event = e\<rparr>)"

lemma decoded_prefix: "is_ok (decode_reorg_event_key k) \<Longrightarrow> prefix REORG_EVENT_KEY_PREFIX k"
  by (auto simp: is_ok_iff elim!: decode_reorg_event_key_Inr)

lemma below_prefix_end: "prefix REORG_EVENT_KEY_PREFIX k \<Longrightarrow> k < REORG_EVENT_KEY_PREFIX_END"
  by (auto simp: prefix_def literal_bytes)

lemma list_reorg_events_result:
  assumes fine: "history_keys_fine (events st)" and c: "\<And>k. cursor = Some k \<Longrightarrow> is_ok (decode_reorg_event_key k)"
  shows "list_reorg_events limit cursor st = Inr ((case limit of None \<Rightarrow> id | Some n \<Rightarrow> take n)
    (map event_row (rev (filter (\<lambda>(k, e). case cursor of None \<Rightarrow> True | Some c \<Rightarrow> k < c) (events st)))))"
proof (cases "limit = Some 0")
  case True
  then show ?thesis using c by (auto simp: list_reorg_events_def is_ok_iff split: option.splits)
next
  case False
  let ?start = "case cursor of None \<Rightarrow> REORG_EVENT_KEY_PREFIX_END | Some c \<Rightarrow> c"
  let ?xs = "rev (filter (\<lambda>(k, _). k \<le> ?start) (events st))"
  have ok: "is_ok (decode_reorg_event_key k)" if "(k, e) \<in> set ?xs" for k e using that fine by (auto simp: history_keys_fine_def)
  have "list_reorg_events limit cursor st = list_rows limit cursor ?xs []"
    using False c by (auto simp: list_reorg_events_def is_ok_iff split: option.splits)
  moreover have "filter (\<lambda>(k, e). Some k \<noteq> cursor) ?xs =
      rev (filter (\<lambda>(k, e). case cursor of None \<Rightarrow> True | Some c \<Rightarrow> k < c) (events st))"
    unfolding rev_filter [symmetric] filter_filter
  proof (rule arg_cong [where f = rev], rule filter_cong [OF refl])
    fix x assume "x \<in> set (events st)"
    then have "fst x < REORG_EVENT_KEY_PREFIX_END"
      using fine by (auto simp: history_keys_fine_def intro!: below_prefix_end decoded_prefix)
    then show "((case x of (k, _) \<Rightarrow> k \<le> ?start) \<and> (case x of (k, e) \<Rightarrow> Some k \<noteq> cursor)) =
        (case x of (k, e) \<Rightarrow> case cursor of None \<Rightarrow> True | Some c \<Rightarrow> k < c)"
      by (auto simp: less_le split: option.splits)
  qed
  moreover have "list_rows limit cursor ?xs [] = Inr ([] @ (case limit of None \<Rightarrow> id | Some n \<Rightarrow> take (n - length ([] :: ReorgEventRecord list)))
      (map event_row (filter (\<lambda>(k, e). Some k \<noteq> cursor) ?xs)))"
    unfolding event_row_def
    by (rule list_rows_result) (use False ok decoded_prefix [OF ok] in \<open>auto split: option.splits\<close>)
  ultimately show ?thesis by (cases limit) simp_all
qed

section \<open>The dropped branch is a chain\<close>

text \<open>
  The stored headers from above the fork point up to the tip, each the child of the one below it,
  the first a child of the fork point, the last the tip.
\<close>

definition linked_branch :: "fork_state \<Rightarrow> int \<Rightarrow> bytes \<Rightarrow> int \<Rightarrow> bytes \<Rightarrow> bool" where
  "linked_branch st f fh t th \<longleftrightarrow> f < t \<and> map_option parent_hash (headers st (f + 1)) = Some fh \<and>
     (\<forall>h. f + 1 < h \<and> h \<le> t \<longrightarrow> (\<exists>a b. headers st (h - 1) = Some a \<and> headers st h = Some b \<and> parent_hash b = header_hash a)) \<and>
     map_option header_hash (headers st t) = Some th"

lemma linked_branch_one:
  "headers st (f + 1) = Some h \<Longrightarrow> linked_branch st f p (f + 1) q \<longleftrightarrow> parent_hash h = p \<and> header_hash h = q"
  by (auto simp: linked_branch_def)

lemma linked_branch_more:
  assumes t: "f + 1 < t" and h: "headers st (f + 1) = Some h"
  shows "linked_branch st f p t q \<longleftrightarrow> parent_hash h = p \<and> linked_branch st (f + 1) (header_hash h) t q"
proof -
  have "f + 1 < n \<and> n \<le> t \<longleftrightarrow> n = f + 2 \<or> f + 1 + 1 < n \<and> n \<le> t" for n using t by auto
  then have "(\<forall>n. f + 1 < n \<and> n \<le> t \<longrightarrow> P n) \<longleftrightarrow> P (f + 2) \<and> (\<forall>n. f + 1 + 1 < n \<and> n \<le> t \<longrightarrow> P n)" for P by auto
  moreover have "(\<exists>a b. headers st (f + 2 - 1) = Some a \<and> headers st (f + 2) = Some b \<and> parent_hash b = header_hash a) \<longleftrightarrow>
      map_option parent_hash (headers st (f + 1 + 1)) = Some (header_hash h)"
    using h by (auto simp: algebra_simps)
  ultimately show ?thesis using t h unfolding linked_branch_def by auto
qed

lemma walk_branch_exact:
  "f < t \<Longrightarrow> walk_branch st [f + 1..t] p first = Inr (q, x) \<longleftrightarrow> linked_branch st f p t q \<and>
     (\<exists>h. headers st (f + 1) = Some h \<and> x = (case first of None \<Rightarrow> Some (header_hash h) | Some y \<Rightarrow> Some y))"
proof (induction "nat (t - f)" arbitrary: f p first)
  case 0
  then show ?case by simp
next
  case (Suc n)
  have up: "[f + 1..t] = (f + 1) # [f + 1 + 1..t]" using Suc.prems by (simp add: upto_rec1)
  show ?case
  proof (cases "headers st (f + 1)")
    case None
    then show ?thesis using up by simp
  next
    case (Some h)
    then have w: "walk_branch st [f + 1..t] p first = Inr (q, x) \<longleftrightarrow> parent_hash h = p \<and>
        walk_branch st [f + 1 + 1..t] (header_hash h) (case first of None \<Rightarrow> Some (header_hash h) | Some y \<Rightarrow> Some y) = Inr (q, x)"
      unfolding up by (simp add: res_simps)
    show ?thesis
    proof (cases "t = f + 1")
      case True
      then show ?thesis using w Some linked_branch_one [OF Some] by auto
    next
      case False
      then have t: "f + 1 < t" using Suc.prems by simp
      have "n = nat (t - (f + 1))" using Suc.hyps(2) by simp
      note ih = Suc.hyps(1) [OF this t]
      have "\<exists>h. headers st (f + 1 + 1) = Some h" if "linked_branch st (f + 1) (header_hash h) t q"
        using that by (auto simp: linked_branch_def)
      then show ?thesis unfolding w ih linked_branch_more [OF t Some] using Some by (auto split: option.splits)
    qed
  qed
qed

lemma first_orphan_spec:
  "first_orphan_of_stored_branch st f fh t th = Inr orphan \<longleftrightarrow>
   linked_branch st f fh t th \<and> map_option header_hash (headers st (f + 1)) = Some orphan \<and> length orphan = 32"
proof (cases "f < t")
  case True
  then show ?thesis by (auto simp: first_orphan_of_stored_branch_def res_simps walk_branch_exact)
next
  case False
  then show ?thesis by (simp add: first_orphan_of_stored_branch_def linked_branch_def res_simps)
qed

text \<open>
  C19. The address of a switch is proved from the store: the first dropped block is returned
  exactly when the stored headers above the fork point are a chain of parents from the fork point
  to the recorded old tip, and then it is the hash of the lowest of them, 32 bytes long.
\<close>

theorem first_orphan_exact:
  "first_orphan_of_stored_branch st f fh t th = Inr orphan \<longleftrightarrow>
   linked_branch st f fh t th \<and> map_option header_hash (headers st (f + 1)) = Some orphan \<and> length orphan = 32"
  by (rule first_orphan_spec)

end
