(* ===== verification/Fork_History.thy ===== *)
theory Fork_History
  imports Fork_Events
begin

text \<open>
  What every run of the indexer keeps true of the fork history of \<open>Fork_Events\<close>. The operations
  that write it are the steps of an inductive relation, with everything else the indexer does as
  one step that leaves the history alone. The invariant relates the two directions of the reversal
  links, the kind of an event and the fields the record type documents, and the pending marker;
  the properties are what it gives: the operations cannot fail on a damaged history, and one
  reconciliation links exactly the switches whose abandoned tip is canonical again.
\<close>

section \<open>The invariant\<close>

definition event_fine :: "(bytes \<Rightarrow> ReorgEvent option) \<Rightarrow> bytes \<Rightarrow> ReorgEvent \<Rightarrow> bool" where
  "event_fine ev k e \<longleftrightarrow>
     (first_orphan_hash e = None \<longleftrightarrow> ev_kind e = Deep) \<and>
     (ev_kind e = Deep \<longrightarrow> orphaned_blocks e = 0 \<and> orphaned_txs e = 0 \<and> reverted_by_event e = None \<and>
        reverses_events e = [] \<and> superseded_by_tip_hash e = None \<and> \<not> reconcile_interrupted e) \<and>
     (\<forall>r. reverted_by_event e = Some r \<longrightarrow> r \<noteq> k \<and> (\<exists>c. ev r = Some c \<and> k \<in> set (reverses_events c))) \<and>
     (\<forall>p\<in>set (reverses_events e). \<exists>q. ev p = Some q \<and> reverted_by_event q = Some k) \<and>
     sorted (reverses_events e) \<and> distinct (reverses_events e)"

definition fork_inv :: "fork_state \<Rightarrow> bool" where
  "fork_inv st \<longleftrightarrow> history_keys_fine (events st) \<and> (\<forall>k e. om_get (events st) k = Some e \<longrightarrow> event_fine (om_get (events st)) k e) \<and>
     (\<forall>k. pending st = Some k \<longrightarrow> (\<exists>e. om_get (events st) k = Some e \<and> ev_kind e = Automatic \<and> \<not> reconcile_interrupted e))"

text \<open>The rest of a rollback leaves the history alone, whether it succeeds or fails.\<close>

definition keeps_history :: "(int \<Rightarrow> fork_state \<Rightarrow> fork_state \<times> 'a res) \<Rightarrow> bool" where
  "keeps_history part \<longleftrightarrow> (\<forall>n st. events (fst (part n st)) = events st \<and> pending (fst (part n st)) = pending st)"

text \<open>A new identifier: 16 bytes that no event of the same millisecond has.\<close>

definition fresh_id :: "i64 \<Rightarrow> bytes \<Rightarrow> fork_state \<Rightarrow> bool" where
  "fresh_id ms uuid st \<longleftrightarrow> length uuid = 16 \<and> (\<forall>key. encode_reorg_event_key ms uuid = Inr key \<longrightarrow> om_get (events st) key = None)"

text \<open>Everything the indexer does to the history, and what syncing does beside it.\<close>

inductive fork_step :: "fork_state \<Rightarrow> fork_state \<Rightarrow> bool" where
  sync: "events st' = events st \<Longrightarrow> pending st' = pending st \<Longrightarrow> fork_step st st'"
| interrupt: "begin_rollback cause st = Inr st' \<Longrightarrow> fork_step st st'"
| deep_fork: "fresh_id ms uuid st \<Longrightarrow> record_deep_fork ms uuid now f fh d dh c ch n st = Inr st' \<Longrightarrow> fork_step st st'"
| switch: "fresh_id ms uuid st \<Longrightarrow> keeps_history invalidate \<Longrightarrow> keeps_history rollback \<Longrightarrow>
    fork_step st (fst (execute_reorg invalidate rollback ms uuid now f fh t th c ch st))"
| reconcile: "reconcile_reorg_events st = Inr st' \<Longrightarrow> fork_step st st'"

inductive fork_reachable :: "fork_state \<Rightarrow> bool" where
  start: "events st = [] \<Longrightarrow> pending st = None \<Longrightarrow> fork_reachable st"
| step: "fork_reachable st \<Longrightarrow> fork_step st st' \<Longrightarrow> fork_reachable st'"

lemma history_keys_sorted: "history_keys_fine evs \<Longrightarrow> om_sorted evs"
  by (simp add: history_keys_fine_def)

lemma history_key_ok: "history_keys_fine evs \<Longrightarrow> om_get evs k = Some e \<Longrightarrow> is_ok (decode_reorg_event_key k)"
  by (auto simp: history_keys_fine_def om_get_iff)

lemma history_keys_fine_get:
  "om_sorted evs \<Longrightarrow> (\<And>k e. om_get evs k = Some e \<Longrightarrow> is_ok (decode_reorg_event_key k)) \<Longrightarrow> history_keys_fine evs"
  by (auto simp: history_keys_fine_def om_get_iff)

lemma fork_inv_sorted: "fork_inv st \<Longrightarrow> om_sorted (events st)"
  by (simp add: fork_inv_def history_keys_sorted)

lemma list_all_events: "fork_inv st \<Longrightarrow> list_reorg_events None None st = Inr (map event_row (rev (events st)))"
  using list_reorg_events_result [of st None None] by (simp add: fork_inv_def)

lemma event_row_simps [simp]: "rec_key (event_row (k, e)) = k" "rec_event (event_row (k, e)) = e"
  by (simp_all add: event_row_def)

section \<open>What a reconciliation does\<close>

text \<open>An earlier switch whose abandoned tip is canonical again, and one whose tip is still ahead.\<close>

definition open_prior :: "bytes \<Rightarrow> int \<Rightarrow> bytes \<Rightarrow> ReorgEvent \<Rightarrow> bool" where
  "open_prior key f k e \<longleftrightarrow> k \<noteq> key \<and> ev_kind e = Automatic \<and> reverted_by_event e = None \<and> f < old_tip e"

definition reversible :: "fork_state \<Rightarrow> bytes \<Rightarrow> int \<Rightarrow> bytes \<Rightarrow> ReorgEvent \<Rightarrow> bool" where
  "reversible st key f k e \<longleftrightarrow> open_prior key f k e \<and> old_tip e \<le> sync_tip st \<and>
     map_option header_hash (headers st (old_tip e)) = Some (old_tip_hash e)"

definition waiting :: "fork_state \<Rightarrow> bytes \<Rightarrow> int \<Rightarrow> bytes \<Rightarrow> ReorgEvent \<Rightarrow> bool" where
  "waiting st key f k e \<longleftrightarrow> open_prior key f k e \<and> sync_tip st < old_tip e"

definition marked :: "bytes \<Rightarrow> bytes \<times> ReorgEvent \<Rightarrow> bytes \<times> ReorgEvent" where
  "marked key p = (fst p, (snd p)\<lparr>reverted_by_event := Some key\<rparr>)"

lemma reconcile_priors_exact:
  assumes "reconcile_priors st key (map event_row rows) (cur, complete, puts) = Inr (cur', complete', puts')"
    and "distinct (map fst rows)" and "\<And>k e. (k, e) \<in> set rows \<Longrightarrow> reverted_by_event e = None \<Longrightarrow> k \<notin> set (reverses_events cur)"
  shows "puts' = puts @ map (marked key) (filter (\<lambda>(k, e). reversible st key (fork_point cur) k e) rows) \<and>
    cur' = cur\<lparr>reverses_events := reverses_events cur @ map fst (filter (\<lambda>(k, e). reversible st key (fork_point cur) k e) rows)\<rparr> \<and>
    complete' = (complete \<and> \<not> (\<exists>(k, e)\<in>set rows. waiting st key (fork_point cur) k e))"
  using assms
proof (induction rows arbitrary: cur complete puts)
  case Nil
  then show ?case by simp
next
  case (Cons row rows)
  obtain k e where row: "row = (k, e)" by (cases row)
  let ?f = "fork_point cur"
  have later: "distinct (map fst rows)" "\<And>k' e'. (k', e') \<in> set rows \<Longrightarrow> reverted_by_event e' = None \<Longrightarrow> k' \<notin> set (reverses_events cur)"
    using Cons.prems(2,3) by auto
  have fresh: "k \<notin> fst ` set rows" using Cons.prems(2) row by simp
  consider "\<not> open_prior key ?f k e" | "waiting st key ?f k e"
    | "open_prior key ?f k e" "\<not> sync_tip st < old_tip e" "\<not> reversible st key ?f k e"
    | "reversible st key ?f k e" unfolding waiting_def by blast
  then show ?case
  proof cases
    case 1
    then have "reconcile_priors st key (map event_row rows) (cur, complete, puts) = Inr (cur', complete', puts')"
      using Cons.prems(1) row by (auto simp: open_prior_def split: if_splits)
    note ih = Cons.IH [OF this later]
    show ?thesis using ih 1 by (simp add: row reversible_def waiting_def)
  next
    case 2
    then have "reconcile_priors st key (map event_row rows) (cur, False, puts) = Inr (cur', complete', puts')"
      using Cons.prems(1) row by (auto simp: waiting_def open_prior_def)
    note ih = Cons.IH [OF this later]
    show ?thesis using ih 2 by (simp add: row reversible_def waiting_def)
  next
    case 3
    then have "reconcile_priors st key (map event_row rows) (cur, complete, puts) = Inr (cur', complete', puts')"
      using Cons.prems(1) row by (auto simp: open_prior_def reversible_def res_simps split: if_splits)
    note ih = Cons.IH [OF this later]
    show ?thesis using ih 3 by (simp add: row waiting_def)
  next
    case 4
    let ?cur = "cur\<lparr>reverses_events := reverses_events cur @ [k]\<rparr>"
    have "k \<notin> set (reverses_events cur)" using Cons.prems(3) 4 row by (auto simp: reversible_def open_prior_def)
    then have r: "reconcile_priors st key (map event_row rows) (?cur, complete, puts @ [marked key (k, e)]) = Inr (cur', complete', puts')"
      using Cons.prems(1) row 4 by (auto simp: open_prior_def reversible_def marked_def)
    have "k' \<notin> set (reverses_events ?cur)" if "(k', e') \<in> set rows" "reverted_by_event e' = None" for k' e'
      using later(2) [OF that] fresh that(1) by force
    note ih = Cons.IH [OF r later(1) this]
    show ?thesis using ih 4 by (simp add: row waiting_def reversible_def)
  qed
qed

definition after_mark :: "fork_state \<Rightarrow> bytes \<Rightarrow> int \<Rightarrow> bytes \<Rightarrow> ReorgEvent \<Rightarrow> ReorgEvent" where
  "after_mark st key f k e = (if reversible st key f k e then e\<lparr>reverted_by_event := Some key\<rparr> else e)"

lemma marked_rows:
  assumes sorted: "om_sorted evs"
  shows "om_get (fold (\<lambda>(k, e). om_put k e) (map (marked key) (filter (\<lambda>(k, e). reversible st key f k e) (rev evs))) evs) k =
    map_option (after_mark st key f k) (om_get evs k)"
proof -
  let ?xs = "map (marked key) (filter (\<lambda>(k, e). reversible st key f k e) (rev evs))"
  have d: "distinct (map fst evs)" by (rule om_distinct [OF sorted])
  have keys: "map fst ?xs = map fst (filter (\<lambda>(k, e). reversible st key f k e) (rev evs))" by (simp add: marked_def)
  have dx: "distinct (map fst ?xs)" unfolding keys using d by (simp add: distinct_map_filter rev_map [symmetric] distinct_rev)
  have mem: "map_of ?xs k = Some v \<longleftrightarrow> (\<exists>e. om_get evs k = Some e \<and> reversible st key f k e \<and> v = e\<lparr>reverted_by_event := Some key\<rparr>)" for v
    unfolding map_of_eq_Some_iff [OF dx] map_of_eq_Some_iff [OF d] by (force simp: marked_def)
  have "(om_get evs ++ map_of ?xs) k = map_option (after_mark st key f k) (om_get evs k)"
  proof (cases "map_of ?xs k")
    case None
    then have "\<not> reversible st key f k e" if "om_get evs k = Some e" for e using mem that by force
    then show ?thesis using None by (cases "om_get evs k") (auto simp: map_add_def after_mark_def)
  next
    case (Some v)
    then show ?thesis using mem [of v] by (auto simp: map_add_def after_mark_def)
  qed
  then show ?thesis by (simp add: om_get_fold_put [OF dx])
qed

definition noted_tip :: "fork_state \<Rightarrow> ReorgEvent \<Rightarrow> bytes option" where
  "noted_tip st c = (case headers st (new_tip c) of None \<Rightarrow> None
     | Some h \<Rightarrow> if header_hash h = new_tip_hash c then None else Some (header_hash h))"

lemma note_superseded_Inr:
  "note_superseded c h = Inr n \<Longrightarrow> n = c\<lparr>superseded_by_tip_hash := (if h = new_tip_hash c then None else Some h)\<rparr>"
  by (auto simp: note_superseded_def res_simps split: if_splits option.splits)

definition linked_event :: "fork_state \<Rightarrow> bytes \<Rightarrow> ReorgEvent \<Rightarrow> ReorgEvent" where
  "linked_event st key c = c\<lparr>superseded_by_tip_hash := noted_tip st c,
     reverses_events := sort (reverses_events c @ map fst (filter (\<lambda>(k, e). reversible st key (fork_point c) k e) (rev (events st))))\<rparr>"

lemma reconcile_result:
  assumes inv: "fork_inv st" and p: "pending st = Some key" and c: "om_get (events st) key = Some c"
    and tip: "new_tip c \<le> sync_tip st" and r: "reconcile_reorg_events st = Inr st'"
  shows "history_keys_fine (events st') \<and>
    (\<forall>k. om_get (events st') k = (if k = key then Some (linked_event st key c)
       else map_option (after_mark st key (fork_point c) k) (om_get (events st) k))) \<and>
    pending st' = (if \<exists>k e. om_get (events st) k = Some e \<and> waiting st key (fork_point c) k e then Some key else None)"
proof -
  let ?f = "fork_point c"
  have sorted: "om_sorted (events st)" by (rule fork_inv_sorted [OF inv])
  obtain w n where w: "headers st (new_tip c) = Some w" "note_superseded c (header_hash w) = Inr n"
    and ex: "\<exists>x. reconcile_priors st key (map event_row (rev (events st))) (n, True, []) = Inr x \<and>
      st' = write_links key c (fst x) (fst (snd x)) (snd (snd x)) st"
    using r p c tip by (auto simp: reconcile_reorg_events_def res_simps list_all_events [OF inv])
  obtain l complete puts where l: "reconcile_priors st key (map event_row (rev (events st))) (n, True, []) = Inr (l, complete, puts)"
    and st': "st' = write_links key c l complete puts st"
    using ex by (metis prod.collapse)
  have n: "n = c\<lparr>superseded_by_tip_hash := noted_tip st c\<rparr>" using note_superseded_Inr [OF w(2)] w(1) by (simp add: noted_tip_def)
  have d: "distinct (map fst (rev (events st)))" using om_distinct [OF sorted] by (simp add: rev_map [symmetric])
  have "k \<notin> set (reverses_events n)" if "(k, e) \<in> set (rev (events st))" "reverted_by_event e = None" for k e
  proof -
    have get: "om_get (events st) k = Some e" using that(1) om_get_iff [OF sorted] by simp
    have "event_fine (om_get (events st)) key c" using inv c by (simp add: fork_inv_def)
    then show ?thesis using get that(2) by (auto simp: event_fine_def n)
  qed
  note res = reconcile_priors_exact [OF l d this]
  let ?rs = "filter (\<lambda>(k, e). reversible st key ?f k e) (rev (events st))"
  have fn: "fork_point n = ?f" by (simp add: n)
  have puts: "puts = map (marked key) ?rs" and nx: "l\<lparr>reverses_events := sort (reverses_events l)\<rparr> = linked_event st key c"
    and comp: "complete = (\<not> (\<exists>(k, e)\<in>set (events st). waiting st key ?f k e))"
    using res by (simp_all add: fn) (simp_all add: n linked_event_def)
  let ?ps = "fold (\<lambda>(k, e). om_put k e) (map (marked key) ?rs) (events st)"
  have ps: "om_sorted ?ps" by (rule om_sorted_fold_put [OF sorted])
  have get: "om_get ?ps k = map_option (after_mark st key ?f k) (om_get (events st) k)" for k by (rule marked_rows [OF sorted])
  have ev: "events st' = (if linked_event st key c \<noteq> c then om_put key (linked_event st key c) ?ps else ?ps)"
    unfolding st' by (simp add: write_links_def nx puts Let_def)
  have key: "after_mark st key ?f key c = c" by (simp add: after_mark_def reversible_def open_prior_def)
  have "om_get (events st') k = (if k = key then Some (linked_event st key c) else map_option (after_mark st key ?f k) (om_get (events st) k))" for k
    unfolding ev using get [of k] c key by auto
  moreover have "history_keys_fine (events st')"
  proof (rule history_keys_fine_get)
    fix k e assume "om_get (events st') k = Some e"
    then have "k \<in> dom (om_get (events st))" using calculation [of k] c by (auto split: if_splits)
    then show "is_ok (decode_reorg_event_key k)" using inv history_key_ok by (auto simp: fork_inv_def)
  qed (use ps in \<open>simp add: ev\<close>)
  moreover have "pending st' = (if \<exists>k e. om_get (events st) k = Some e \<and> waiting st key ?f k e then Some key else None)"
    unfolding st' comp om_get_iff [OF sorted] by (auto simp: write_links_def Let_def)
  ultimately show ?thesis by blast
qed

section \<open>Every operation keeps the invariant\<close>

lemma event_fine_mono:
  assumes e: "event_fine ev k e"
    and r: "\<And>r x. ev r = Some x \<Longrightarrow> k \<in> set (reverses_events x) \<Longrightarrow> \<exists>y. ev' r = Some y \<and> k \<in> set (reverses_events y)"
    and p: "\<And>p q. ev p = Some q \<Longrightarrow> reverted_by_event q = Some k \<Longrightarrow> \<exists>y. ev' p = Some y \<and> reverted_by_event y = Some k"
  shows "event_fine ev' k e"
  unfolding event_fine_def
proof (intro conjI allI ballI impI)
  fix r' assume "reverted_by_event e = Some r'"
  then have "r' \<noteq> k" "\<exists>c. ev r' = Some c \<and> k \<in> set (reverses_events c)" using e by (simp_all add: event_fine_def)
  then show "r' \<noteq> k" "\<exists>c. ev' r' = Some c \<and> k \<in> set (reverses_events c)" using r by blast+
next
  fix p' assume "p' \<in> set (reverses_events e)"
  then have "\<exists>q. ev p' = Some q \<and> reverted_by_event q = Some k" using e by (simp add: event_fine_def)
  then show "\<exists>q. ev' p' = Some q \<and> reverted_by_event q = Some k" using p by blast
qed (use e in \<open>simp_all add: event_fine_def\<close>)

lemma event_fine_cong:
  assumes "\<And>k. map_option reverted_by_event (ev' k) = map_option reverted_by_event (ev k)"
    "\<And>k. map_option reverses_events (ev' k) = map_option reverses_events (ev k)"
    and "event_fine ev k e"
  shows "event_fine ev' k e"
proof (rule event_fine_mono [OF assms(3)])
  fix r x assume "ev r = Some x" "k \<in> set (reverses_events x)"
  then show "\<exists>y. ev' r = Some y \<and> k \<in> set (reverses_events y)" using assms(2) [of r] by (cases "ev' r") auto
next
  fix p q assume "ev p = Some q" "reverted_by_event q = Some k"
  then show "\<exists>y. ev' p = Some y \<and> reverted_by_event y = Some k" using assms(1) [of p] by (cases "ev' p") auto
qed

lemma event_fine_new: "ev key = None \<Longrightarrow> event_fine ev k e \<Longrightarrow> event_fine (ev(key \<mapsto> x)) k e"
  by (rule event_fine_mono) auto

lemma begin_rollback_inv:
  assumes inv: "fork_inv st" and r: "begin_rollback cause st = Inr st'"
  shows "fork_inv st'"
proof (cases "st' = st")
  case False
  then obtain key e where p: "pending st = Some key" and e: "om_get (events st) key = Some e" "ev_kind e = Automatic"
    and st': "st' = st\<lparr>events := om_put key (e\<lparr>reconcile_interrupted := True\<rparr>) (events st), pending := None\<rparr>"
    using r by (auto simp: begin_rollback_def res_simps split: option.splits if_splits)
  have "event_fine (om_get (events st)) key (e\<lparr>reconcile_interrupted := True\<rparr>)"
    using inv e by (simp add: fork_inv_def event_fine_def)
  then have old: "event_fine (om_get (events st)) k x" if "om_get (events st') k = Some x" for k x
    using inv that by (auto simp: fork_inv_def st' split: if_splits)
  have "event_fine (om_get (events st')) k x" if "om_get (events st') k = Some x" for k x
    by (rule event_fine_cong [OF _ _ old [OF that]]) (use e(1) in \<open>auto simp: st'\<close>)
  moreover have "history_keys_fine (events st')"
    by (rule history_keys_fine_get) (use inv p e(1) in \<open>auto simp: fork_inv_def st' history_keys_sorted history_key_ok split: if_splits\<close>)
  ultimately show ?thesis by (simp add: fork_inv_def st')
qed (use inv in simp)

lemma record_inv:
  assumes inv: "fork_inv st" and key: "om_get (events st) key = None" "is_ok (decode_reorg_event_key key)"
    and e: "event_fine (om_get (events st)) key e" and ev: "events st' = om_put key e (events st)"
    and p: "pending st' = pending st \<or> pending st' = Some key \<and> ev_kind e = Automatic \<and> \<not> reconcile_interrupted e"
  shows "fork_inv st'"
proof -
  have "event_fine (om_get (events st')) k x" if "om_get (events st') k = Some x" for k x
    using inv that e event_fine_new [of "om_get (events st)" key] key by (auto simp: fork_inv_def ev split: if_splits)
  moreover have "\<exists>x. om_get (events st') k = Some x \<and> ev_kind x = Automatic \<and> \<not> reconcile_interrupted x" if "pending st' = Some k" for k
  proof (cases "k = key")
    case True
    then have "pending st \<noteq> Some k" using inv key by (auto simp: fork_inv_def)
    then show ?thesis using p that True by (simp add: ev)
  next
    case False
    then have "pending st = Some k" using p that by auto
    then show ?thesis using inv False by (simp add: fork_inv_def ev)
  qed
  moreover have "history_keys_fine (events st')"
    by (rule history_keys_fine_get)
      (use inv key(2) in \<open>auto simp: fork_inv_def ev history_keys_sorted history_key_ok split: if_splits\<close>)
  ultimately show ?thesis by (simp add: fork_inv_def)
qed

lemma begin_rollback_absent: "begin_rollback cause st = Inr st' \<Longrightarrow> om_get (events st) k = None \<Longrightarrow> om_get (events st') k = None"
  by (auto simp: begin_rollback_def res_simps split: option.splits if_splits)

lemma fresh_key:
  assumes "fresh_id ms uuid st" and "encode_reorg_event_key ms uuid = Inr key"
  shows "om_get (events st) key = None" "is_ok (decode_reorg_event_key key)"
  using assms decode_encoded_reorg_key [of uuid ms key] by (auto simp: fresh_id_def)

lemma record_switch_inv:
  assumes inv: "fork_inv st" and id: "fresh_id ms uuid st"
    and r: "record_switch ms uuid (switch_event now f fh t th orphan c ch b x) st = Inr st'"
  shows "fork_inv st'"
proof -
  let ?e = "switch_event now f fh t th orphan c ch b x"
  obtain key where key: "encode_reorg_event_key ms uuid = Inr key"
    and st': "events st' = om_put key ?e (events st)" "pending st' = Some key"
    using r by (auto simp: record_switch_def res_simps)
  have "event_fine (om_get (events st)) key ?e" "ev_kind ?e = Automatic" "\<not> reconcile_interrupted ?e"
    by (simp_all add: switch_event_def event_fine_def)
  then show ?thesis using record_inv [OF inv fresh_key [OF id key]] st' by simp
qed

text \<open>A switch stops in its first state, after the interruption, or with the event recorded.\<close>

lemma execute_reorg_cases:
  assumes inv: "keeps_history invalidate" and roll: "keeps_history rollback"
  obtains (kept) st0 where "events st0 = events st" "pending st0 = pending st"
      "fst (execute_reorg invalidate rollback ms uuid now f fh t th c ch st) = st0"
    | (interrupted) st0 st1 st2 where "events st0 = events st" "pending st0 = pending st" "begin_rollback NewForkEvent st0 = Inr st1"
      "events st2 = events st1" "pending st2 = pending st1"
      "fst (execute_reorg invalidate rollback ms uuid now f fh t th c ch st) = st2"
    | (recorded) st0 st1 st2 orphan b x where "events st0 = events st" "pending st0 = pending st" "begin_rollback NewForkEvent st0 = Inr st1"
      "events st2 = events st1" "pending st2 = pending st1" "reorg_checks f fh t th st = Inr orphan"
      "record_switch ms uuid (switch_event now f fh t th orphan c ch b x) st2 =
         Inr (fst (execute_reorg invalidate rollback ms uuid now f fh t th c ch st))"
proof (cases "reorg_checks f fh t th st")
  case (Inl e)
  then show ?thesis using kept by (simp add: execute_reorg_def)
next
  case ok: (Inr orphan)
  obtain st0 ri where i: "invalidate f st = (st0, ri)" by (rule prod.exhaust)
  have st0: "events st0 = events st" "pending st0 = pending st" using inv i unfolding keeps_history_def by (metis fst_conv)+
  show ?thesis
  proof (cases "is_ok ri \<and> is_ok (begin_rollback NewForkEvent st0)")
    case False
    then have "fst (execute_reorg invalidate rollback ms uuid now f fh t th c ch st) = st0"
      using ok i by (auto simp: execute_reorg_def is_ok_def split: sum.splits)
    then show ?thesis using kept st0 by blast
  next
    case True
    then obtain st1 where b: "begin_rollback NewForkEvent st0 = Inr st1" and ri: "ri = Inr ()" by (auto simp: is_ok_iff)
    obtain st2 rr where rb: "rollback f st1 = (st2, rr)" by (rule prod.exhaust)
    have st2: "events st2 = events st1" "pending st2 = pending st1" using roll rb unfolding keeps_history_def by (metis fst_conv)+
    show ?thesis
    proof (cases rr)
      case (Inl e)
      then have "fst (execute_reorg invalidate rollback ms uuid now f fh t th c ch st) = st2"
        using ok i ri b rb by (simp add: execute_reorg_def)
      then show ?thesis using interrupted st0 b st2 by blast
    next
      case (Inr bx)
      obtain blocks txs where bx: "bx = (blocks, txs)" by (rule prod.exhaust)
      let ?r = "record_switch ms uuid (switch_event now f fh t th orphan c ch (int blocks) (int txs)) st2"
      have "fst (execute_reorg invalidate rollback ms uuid now f fh t th c ch st) = (case ?r of Inl _ \<Rightarrow> st2 | Inr st3 \<Rightarrow> st3)"
        using ok i ri b rb Inr bx by (simp add: execute_reorg_def split: sum.splits)
      then show ?thesis using interrupted recorded st0 b st2 ok by (cases ?r) auto
    qed
  qed
qed

lemma fork_inv_cong: "fork_inv st \<Longrightarrow> events st' = events st \<Longrightarrow> pending st' = pending st \<Longrightarrow> fork_inv st'"
  by (simp add: fork_inv_def)

lemma execute_reorg_inv:
  assumes inv: "fork_inv st" and id: "fresh_id ms uuid st" and keeps: "keeps_history invalidate" "keeps_history rollback"
  shows "fork_inv (fst (execute_reorg invalidate rollback ms uuid now f fh t th c ch st))"
  using keeps
proof (cases rule: execute_reorg_cases [where st = st and ms = ms and uuid = uuid and now = now and f = f and fh = fh
    and t = t and th = th and c = c and ch = ch])
  case (kept st0)
  then show ?thesis using fork_inv_cong [OF inv] by simp
next
  case (interrupted st0 st1 st2)
  then show ?thesis using begin_rollback_inv fork_inv_cong inv by metis
next
  case (recorded st0 st1 st2 orphan b x)
  have "fork_inv st2" using recorded begin_rollback_inv fork_inv_cong inv by metis
  moreover have "fresh_id ms uuid st2"
    using id begin_rollback_absent [OF recorded(3)] recorded(1,4) by (simp add: fresh_id_def)
  ultimately show ?thesis using record_switch_inv recorded(7) by blast
qed

lemma record_deep_fork_inv:
  assumes inv: "fork_inv st" and id: "fresh_id ms uuid st"
    and r: "record_deep_fork ms uuid now f fh d dh c ch n st = Inr st'"
  shows "fork_inv st'"
proof -
  obtain key where key: "encode_reorg_event_key ms uuid = Inr key"
    and st': "events st' = om_put key (deep_event now f fh d dh c ch n) (events st)" "pending st' = pending st"
    using r by (auto simp: record_deep_fork_def res_simps)
  have "event_fine (om_get (events st)) key (deep_event now f fh d dh c ch n)" by (simp add: deep_event_def event_fine_def)
  then show ?thesis using record_inv [OF inv fresh_key [OF id key]] st' by simp
qed

definition relinked :: "fork_state \<Rightarrow> bytes \<Rightarrow> ReorgEvent \<Rightarrow> bytes \<Rightarrow> ReorgEvent option" where
  "relinked st key c k = (if k = key then Some (linked_event st key c)
     else map_option (after_mark st key (fork_point c) k) (om_get (events st) k))"

lemma relinked_simps:
  "relinked st key c key = Some (linked_event st key c)"
  "k \<noteq> key \<Longrightarrow> om_get (events st) k = Some e \<Longrightarrow> relinked st key c k = Some (after_mark st key (fork_point c) k e)"
  "reverted_by_event (linked_event st key c) = reverted_by_event c" "ev_kind (linked_event st key c) = ev_kind c"
  "reverses_events (after_mark st key f k e) = reverses_events e" "ev_kind (after_mark st key f k e) = ev_kind e"
  "reverted_by_event e = Some r \<Longrightarrow> after_mark st key f k e = e"
  "reconcile_interrupted (linked_event st key c) = reconcile_interrupted c"
  "first_orphan_hash (linked_event st key c) = first_orphan_hash c"
  by (simp_all add: relinked_def linked_event_def after_mark_def reversible_def open_prior_def)

lemma linked_set:
  assumes "om_sorted (events st)"
  shows "set (reverses_events (linked_event st key c)) =
    set (reverses_events c) \<union> {k. \<exists>e. om_get (events st) k = Some e \<and> reversible st key (fork_point c) k e}"
  by (auto simp: linked_event_def om_get_iff [OF assms] image_iff)

lemma relinked_reverser:
  assumes "om_sorted (events st)" "om_get (events st) key = Some c" "om_get (events st) r = Some x" "k \<in> set (reverses_events x)"
  shows "\<exists>y. relinked st key c r = Some y \<and> k \<in> set (reverses_events y)"
  using assms linked_set [OF assms(1), of key c] by (cases "r = key") (auto simp: relinked_simps)

lemma relinked_reverted:
  assumes "om_get (events st) key = Some c" "om_get (events st) p = Some q" "reverted_by_event q = Some k"
  shows "\<exists>y. relinked st key c p = Some y \<and> reverted_by_event y = Some k"
  using assms by (cases "p = key") (auto simp: relinked_simps)

lemma linked_fine:
  assumes inv: "fork_inv st" and c: "om_get (events st) key = Some c" "ev_kind c = Automatic"
  shows "event_fine (relinked st key c) key (linked_event st key c)"
proof -
  have sorted: "om_sorted (events st)" and fine: "event_fine (om_get (events st)) key c"
    using inv c(1) by (auto simp: fork_inv_def history_keys_sorted)
  have rev: "r \<noteq> key \<and> (\<exists>x. om_get (events st) r = Some x \<and> key \<in> set (reverses_events x))" if "reverted_by_event c = Some r" for r
    using fine that by (simp add: event_fine_def)
  have old: "\<exists>q. om_get (events st) p = Some q \<and> reverted_by_event q = Some key" if "p \<in> set (reverses_events c)" for p
    using fine that by (simp add: event_fine_def)
  have "\<exists>y. relinked st key c p = Some y \<and> reverted_by_event y = Some key" if p: "p \<in> set (reverses_events (linked_event st key c))" for p
  proof (cases "p \<in> set (reverses_events c)")
    case True
    then show ?thesis using old relinked_reverted [OF c(1)] by blast
  next
    case False
    then obtain e where "om_get (events st) p = Some e" "reversible st key (fork_point c) p e"
      using p unfolding linked_set [OF sorted] by blast
    then show ?thesis by (simp add: relinked_simps(2) after_mark_def reversible_def open_prior_def)
  qed
  moreover have "distinct (reverses_events c @ map fst (filter (\<lambda>(k, e). reversible st key (fork_point c) k e) (rev (events st))))"
  proof -
    have "distinct (map fst (filter (\<lambda>(k, e). reversible st key (fork_point c) k e) (rev (events st))))"
      using om_distinct [OF sorted] by (simp add: distinct_map_filter rev_map [symmetric])
    moreover have "distinct (reverses_events c)" using fine by (simp add: event_fine_def)
    moreover have "k \<notin> set (reverses_events c)" if "(k, e) \<in> set (events st)" "reversible st key (fork_point c) k e" for k e
    proof
      assume "k \<in> set (reverses_events c)"
      moreover have "om_get (events st) k = Some e" using that(1) om_get_iff [OF sorted] by simp
      ultimately have "reverted_by_event e = Some key" using old by force
      then show False using that(2) by (simp add: reversible_def open_prior_def)
    qed
    ultimately show ?thesis by auto
  qed
  then have ds: "distinct (reverses_events (linked_event st key c))" "sorted (reverses_events (linked_event st key c))"
    by (simp_all add: linked_event_def)
  moreover have kind: "first_orphan_hash c = None \<longleftrightarrow> ev_kind c = Deep" using fine by (simp add: event_fine_def)
  moreover have "r \<noteq> key \<and> (\<exists>y. relinked st key c r = Some y \<and> key \<in> set (reverses_events y))" if "reverted_by_event c = Some r" for r
    using rev [OF that] relinked_reverser [OF sorted c(1)] by blast
  ultimately show ?thesis using c(2) by (simp add: event_fine_def relinked_simps(3,4,9))
qed

lemma prior_fine:
  assumes inv: "fork_inv st" and c: "om_get (events st) key = Some c" and k: "k \<noteq> key" "om_get (events st) k = Some e"
  shows "event_fine (relinked st key c) k (after_mark st key (fork_point c) k e)"
proof -
  have sorted: "om_sorted (events st)" and fine: "event_fine (om_get (events st)) k e"
    using inv k(2) by (auto simp: fork_inv_def history_keys_sorted)
  have keep: "event_fine (relinked st key c) k e"
    by (rule event_fine_mono [OF fine]) (use relinked_reverser [OF sorted c] relinked_reverted [OF c] in blast)+
  show ?thesis
  proof (cases "reversible st key (fork_point c) k e")
    case True
    then have "k \<in> set (reverses_events (linked_event st key c))" "ev_kind e = Automatic"
      using k(2) linked_set [OF sorted] by (auto simp: reversible_def open_prior_def)
    then show ?thesis using keep k(1) True by (simp add: event_fine_def after_mark_def relinked_simps(1))
  next
    case False
    then show ?thesis using keep by (simp add: after_mark_def)
  qed
qed

lemma reconcile_inv:
  assumes inv: "fork_inv st" and r: "reconcile_reorg_events st = Inr st'"
  shows "fork_inv st'"
proof (cases "st' = st")
  case False
  then obtain key c where p: "pending st = Some key" and c: "om_get (events st) key = Some c" "new_tip c \<le> sync_tip st"
    using r by (auto simp: reconcile_reorg_events_def res_simps split: option.splits if_splits)
  note res = reconcile_result [OF inv p c r]
  have kinds: "ev_kind c = Automatic" "\<not> reconcile_interrupted c" using inv p c(1) by (auto simp: fork_inv_def)
  have get': "om_get (events st') = relinked st key c" using res by (auto simp: relinked_def fun_eq_iff)
  have "event_fine (relinked st key c) k x" if x: "relinked st key c k = Some x" for k x
  proof (cases "k = key")
    case True
    then show ?thesis using linked_fine [OF inv c(1) kinds(1)] x by (simp add: relinked_simps(1))
  next
    case False
    then show ?thesis using prior_fine [OF inv c(1) False] x by (auto simp: relinked_def)
  qed
  moreover have "pending st' = Some k \<longrightarrow> k = key" for k using res by (simp split: if_splits)
  moreover have "ev_kind (linked_event st key c) = Automatic" "\<not> reconcile_interrupted (linked_event st key c)"
    using kinds by (simp_all add: relinked_simps)
  ultimately show ?thesis using res unfolding fork_inv_def get' by (metis relinked_simps(1))
qed (use inv in simp)

lemma fork_step_inv: "fork_step st st' \<Longrightarrow> fork_inv st \<Longrightarrow> fork_inv st'"
proof (induction rule: fork_step.induct)
  case (sync st' st)
  then show ?case by (simp add: fork_inv_def)
qed (auto intro: begin_rollback_inv record_deep_fork_inv execute_reorg_inv reconcile_inv)


lemma reachable_inv: "fork_reachable st \<Longrightarrow> fork_inv st"
proof (induction rule: fork_reachable.induct)
  case (start st)
  then show ?case by (simp add: fork_inv_def history_keys_fine_def)
qed (rule fork_step_inv)

section \<open>When a reconciliation goes through\<close>

lemma reconcile_priors_ok:
  "is_ok (reconcile_priors st key (map event_row rows) (cur, complete, puts)) \<longleftrightarrow>
   (\<forall>(k, e)\<in>set rows. open_prior key (fork_point cur) k e \<and> old_tip e \<le> sync_tip st \<longrightarrow> headers st (old_tip e) \<noteq> None)"
proof (induction rows arbitrary: cur complete puts)
  case (Cons row rows)
  obtain k e where row: "row = (k, e)" by (rule prod.exhaust)
  show ?case
  proof (cases "open_prior key (fork_point cur) k e \<and> old_tip e \<le> sync_tip st")
    case True
    then show ?thesis using Cons.IH by (cases "headers st (old_tip e)") (auto simp: row open_prior_def Let_def)
  next
    case False
    then show ?thesis using Cons.IH by (auto simp: row open_prior_def Let_def)
  qed
qed simp

lemma note_superseded_ok:
  "headers st (new_tip c) = Some w \<Longrightarrow>
   is_ok (note_superseded c (header_hash w)) \<longleftrightarrow> superseded_by_tip_hash c \<in> {None, noted_tip st c}"
  by (auto simp: note_superseded_def noted_tip_def ensure_def split: option.split)

definition reconcilable :: "fork_state \<Rightarrow> bytes \<Rightarrow> ReorgEvent \<Rightarrow> bool" where
  "reconcilable st key c \<longleftrightarrow>
     map_option header_hash (headers st (fork_point c)) = Some (fork_point_hash c) \<and> headers st (new_tip c) \<noteq> None \<and>
     superseded_by_tip_hash c \<in> {None, noted_tip st c} \<and>
     (\<forall>k e. om_get (events st) k = Some e \<and> open_prior key (fork_point c) k e \<and> old_tip e \<le> sync_tip st \<longrightarrow> headers st (old_tip e) \<noteq> None)"

lemma reconcile_ok:
  assumes inv: "fork_inv st" and p: "pending st = Some key" and c: "om_get (events st) key = Some c" and tip: "new_tip c \<le> sync_tip st"
  shows "is_ok (reconcile_reorg_events st) \<longleftrightarrow> reconcilable st key c"
proof -
  have kind: "ev_kind c = Automatic" using inv p c by (auto simp: fork_inv_def)
  have key: "is_ok (decode_reorg_event_key key)" using inv c history_key_ok by (auto simp: fork_inv_def)
  have all: "(\<forall>(k, e)\<in>set (rev (events st)). P k e) \<longleftrightarrow> (\<forall>k e. om_get (events st) k = Some e \<longrightarrow> P k e)" for P
    using om_get_iff [OF fork_inv_sorted [OF inv]] by auto
  have "is_ok (reconcile_reorg_events st) \<longleftrightarrow>
      map_option header_hash (headers st (fork_point c)) = Some (fork_point_hash c) \<and>
      (\<exists>w n. headers st (new_tip c) = Some w \<and> note_superseded c (header_hash w) = Inr n \<and>
        is_ok (reconcile_priors st key (map event_row (rev (events st))) (n, True, [])))"
    using p c tip kind key
    by (auto simp: reconcile_reorg_events_def is_ok_iff res_simps list_all_events [OF inv] split: option.split)
  also have "\<dots> \<longleftrightarrow> reconcilable st key c"
    unfolding reconcile_priors_ok all reconcilable_def
    using note_superseded_ok [of st c] note_superseded_Inr [of c] by (fastforce simp: is_ok_iff)
  finally show ?thesis .
qed

section \<open>Pages\<close>

lemma rev_sorted_below:
  assumes "sorted_wrt (\<lambda>x y. f y < (f x :: 'k :: linorder)) xs" and "0 < n" and "xs \<noteq> []"
  shows "filter (\<lambda>x. f x < f (last (take n xs))) xs = drop n xs"
proof -
  let ?a = "take n xs" and ?b = "drop n xs"
  have ne: "?a \<noteq> []" using assms(2,3) by simp
  have "sorted_wrt (\<lambda>x y. f y < f x) (?a @ ?b)" using assms(1) by simp
  then have a: "sorted_wrt (\<lambda>x y. f y < f x) ?a" and ab: "\<forall>x\<in>set ?a. \<forall>y\<in>set ?b. f y < f x"
    unfolding sorted_wrt_append by blast+
  have "sorted_wrt (\<lambda>x y. f y < f x) (butlast ?a @ [last ?a])" using a ne by simp
  then have "f (last ?a) \<le> f x" if "x \<in> set ?a" for x
    using that ne unfolding sorted_wrt_append
    by (metis UnE append_butlast_last_id less_imp_le list.set_intros(1) order_refl set_ConsD set_append empty_iff empty_set)
  then have "filter (\<lambda>x. f x < f (last ?a)) ?a = []" by (auto simp: filter_empty_conv not_less)
  moreover have "filter (\<lambda>x. f x < f (last ?a)) ?b = ?b" using ab ne by (simp add: filter_id_conv)
  ultimately have "filter (\<lambda>x. f x < f (last ?a)) (?a @ ?b) = ?b" by (simp only: filter_append append_Nil)
  then show ?thesis by simp
qed

text \<open>The rows below a cursor, newest first.\<close>

definition history_below :: "bytes option \<Rightarrow> fork_state \<Rightarrow> ReorgEventRecord list" where
  "history_below cursor st =
     map event_row (rev (filter (\<lambda>(k, e). case cursor of None \<Rightarrow> True | Some c \<Rightarrow> k < c) (events st)))"

lemma history_below_sorted:
  assumes "history_keys_fine (events st)"
  shows "sorted_wrt (\<lambda>x y. rec_key y < rec_key x) (history_below cursor st)"
proof -
  have "om_sorted (filter P (events st))" for P using history_keys_sorted [OF assms] by simp
  then show ?thesis
    by (simp add: history_below_def om_sorted_def sorted_wrt_map sorted_wrt_rev event_row_def case_prod_unfold)
qed

lemma history_below_key:
  "history_keys_fine (events st) \<Longrightarrow> r \<in> set (history_below cursor st) \<Longrightarrow> is_ok (decode_reorg_event_key (rec_key r))"
  by (auto simp: history_below_def history_keys_fine_def event_row_def)

lemma history_below_restrict:
  assumes "r \<in> set (history_below cursor st)"
  shows "history_below (Some (rec_key r)) st = filter (\<lambda>x. rec_key x < rec_key r) (history_below cursor st)"
proof -
  have "filter (\<lambda>(k, e). k < rec_key r) (events st) =
      filter (\<lambda>x. (case x of (k, e) \<Rightarrow> case cursor of None \<Rightarrow> True | Some c \<Rightarrow> k < c) \<and> (case x of (k, e) \<Rightarrow> k < rec_key r)) (events st)"
    using assms by (intro filter_cong) (auto simp: history_below_def event_row_def split: option.splits)
  then show ?thesis
    by (simp add: history_below_def filter_map rev_filter [symmetric] comp_def event_row_def case_prod_unfold conj_commute)
qed

lemma latest_event:
  assumes "fork_inv st"
  shows "get_latest_reorg_event st = Inr (if events st = [] then None else Some (event_row (last (events st))))"
proof -
  have "list_reorg_events (Some 1) None st = Inr (take 1 (map event_row (rev (events st))))"
    using list_reorg_events_result [of st None "Some 1"] assms by (simp add: fork_inv_def)
  then show ?thesis by (cases "events st" rule: rev_cases) (simp_all add: get_latest_reorg_event_def)
qed

section \<open>Looking an event up by its millisecond\<close>

lemma prefix_convex: "prefix p k \<Longrightarrow> p \<le> j \<Longrightarrow> j \<le> k \<Longrightarrow> prefix p (j :: bytes)"
proof (induction p arbitrary: j k)
  case (Cons b p)
  obtain k' where k: "k = b # k'" "prefix p k'" using Cons.prems(1) by (cases k) auto
  then show ?case using Cons by (cases j) (auto simp: less_le_not_le)
qed simp

lemma find_event_result:
  assumes "om_sorted xs" and "\<And>k e. (k, e) \<in> set xs \<Longrightarrow> is_ok (decode_reorg_event_key k) \<and> pre \<le> k"
  shows "find_event pre xs None = (case filter (\<lambda>(k, e). prefix pre k) xs of
    [] \<Rightarrow> Inr None | [x] \<Rightarrow> Inr (Some (event_row x)) | _ \<Rightarrow> Inl (Bail ''ambiguous reorg event id''))"
proof -
  have stop: "filter (\<lambda>(k, e). prefix pre k) ys = []" if "om_sorted ((k, e) # ys)" "pre \<le> k" "\<not> prefix pre k" for k e ys
    using that prefix_convex [OF _ that(2) less_imp_le] by (fastforce simp: om_sorted_Cons filter_empty_conv)
  have row: "decode_reorg_event_record k e = Inr (event_row (k, e))" if "(k, e) \<in> set xs" for k e
    using assms(2) [OF that] by (auto simp: decode_reorg_event_record_def event_row_def is_ok_iff)
  show ?thesis
  proof (cases xs)
    case (Cons x ys)
    obtain k e where x: "x = (k, e)" by (rule prod.exhaust)
    show ?thesis
    proof (cases "prefix pre k")
      case False
      have "pre \<le> k" using assms(2) [of k e] by (simp add: Cons x)
      then show ?thesis using False stop [of k e ys] assms(1) by (simp add: Cons x)
    next
      case True
      show ?thesis
      proof (cases ys)
        case Nil
        then show ?thesis using True row [of k e] by (simp add: Cons x)
      next
        case second: (Cons y zs)
        obtain k' e' where y: "y = (k', e')" by (rule prod.exhaust)
        have "pre \<le> k'" using assms(2) [of k' e'] by (simp add: Cons second y)
        moreover have "om_sorted ((k', e') # zs)" using assms(1) by (cases x) (simp add: Cons second y om_sorted_Cons)
        ultimately show ?thesis
          using True row [of k e] row [of k' e'] stop [of k' e' zs] by (auto simp: Cons second x y split: list.split)
      qed
    qed
  qed simp
qed

text \<open>The lookup returns the only event of its millisecond, and an error when there are more.\<close>

lemma get_reorg_event_result:
  assumes inv: "fork_inv st" and p: "reorg_event_key_ms_prefix ms = Inr pre"
  shows "get_reorg_event ms st = (case filter (\<lambda>(k, e). prefix pre k) (events st) of
    [] \<Rightarrow> Inr None | [x] \<Rightarrow> Inr (Some (event_row x)) | _ \<Rightarrow> Inl (Bail ''ambiguous reorg event id''))"
proof -
  have "pre \<le> k" if "prefix pre k" for k using that by (auto simp: prefix_def le_append_self)
  then have "filter (\<lambda>(k, e). prefix pre k) (om_from pre (events st)) = filter (\<lambda>(k, e). prefix pre k) (events st)"
    unfolding om_from_def filter_filter by (intro filter_cong) auto
  moreover have "find_event pre (om_from pre (events st)) None = (case filter (\<lambda>(k, e). prefix pre k) (om_from pre (events st)) of
      [] \<Rightarrow> Inr None | [x] \<Rightarrow> Inr (Some (event_row x)) | _ \<Rightarrow> Inl (Bail ''ambiguous reorg event id''))"
    by (rule find_event_result) (use inv in \<open>auto simp: fork_inv_def history_keys_fine_def om_from_def\<close>)
  ultimately show ?thesis using p by (simp add: get_reorg_event_def)
qed

section \<open>Example\<close>

text \<open>
  Two branches above block 9, with blocks of hash 1 and 2 at height 10: a switch from the first to
  the second, one back before the first is reconciled, and the reconciliation of the second.
\<close>

definition example_headers :: "byte \<Rightarrow> int \<Rightarrow> stored_header option" where
  "example_headers b h =
     (if h = 9 then Some \<lparr>header_hash = replicate 32 9, parent_hash = replicate 32 8\<rparr>
      else if h = 10 then Some \<lparr>header_hash = replicate 32 b, parent_hash = replicate 32 9\<rparr>
      else None)"

definition example_fork_start :: fork_state where
  "example_fork_start = \<lparr>headers = example_headers 1, sync_tip = 10, events = [], pending = None, deep_fork_info = None,
     deep_fork_detected = False, summary_initialized = False, summary_current = None, summary_history = (\<lambda>_. None),
     coverage_floor = Some 0\<rparr>"

definition example_invalidate :: "int \<Rightarrow> fork_state \<Rightarrow> fork_state \<times> unit res" where
  "example_invalidate n st = (st, Inr ())"

definition example_rollback :: "int \<Rightarrow> fork_state \<Rightarrow> fork_state \<times> (nat \<times> nat) res" where
  "example_rollback n st = (st\<lparr>sync_tip := n\<rparr>, Inr (1, 3))"

definition example_switch :: "byte \<Rightarrow> byte \<Rightarrow> i64 \<Rightarrow> fork_state \<Rightarrow> fork_state \<times> ReorgResult res" where
  "example_switch a b ms st = execute_reorg example_invalidate example_rollback ms (replicate 16 b) 0 9 (replicate 32 9)
     10 (replicate 32 a) 10 (replicate 32 b) st"

definition example_synced :: "byte \<Rightarrow> fork_state \<Rightarrow> fork_state" where
  "example_synced b st = st\<lparr>headers := example_headers b, sync_tip := 10\<rparr>"

definition example_fork_back :: fork_state where
  "example_fork_back =
     example_synced 1 (fst (example_switch 2 1 2000 (example_synced 2 (fst (example_switch 1 2 1000 example_fork_start)))))"

definition example_event_key :: "i64 \<Rightarrow> byte \<Rightarrow> bytes" where
  "example_event_key ms b = projr (encode_reorg_event_key ms (replicate 16 b))"

lemma example_keeps: "keeps_history example_invalidate" "keeps_history example_rollback"
  by (simp_all add: keeps_history_def example_invalidate_def example_rollback_def)

lemma example_first: "map fst (events (fst (example_switch 1 2 1000 example_fork_start))) = [example_event_key 1000 2]"
  by code_simp

lemma example_keys:
  "encode_reorg_event_key 1000 (replicate 16 2) = Inr (example_event_key 1000 2)"
  "encode_reorg_event_key 2000 (replicate 16 1) = Inr (example_event_key 2000 1)"
  "example_event_key 1000 2 \<noteq> example_event_key 2000 1"
  by code_simp+

lemma example_reachable_switch:
  assumes "fork_reachable st" and "fresh_id ms (replicate 16 b) st"
  shows "fork_reachable (example_synced b (fst (example_switch a b ms st)))"
proof -
  have "fork_reachable (fst (example_switch a b ms st))"
    unfolding example_switch_def by (rule fork_reachable.step [OF assms(1) fork_step.switch [OF assms(2) example_keeps]])
  then show ?thesis by (rule fork_reachable.step) (rule fork_step.sync; simp add: example_synced_def)
qed

lemma example_back_reachable: "fork_reachable example_fork_back"
proof -
  have "fork_reachable example_fork_start" by (rule fork_reachable.start) (simp_all add: example_fork_start_def)
  moreover have "fresh_id 1000 (replicate 16 2) example_fork_start" by (simp add: fresh_id_def example_fork_start_def)
  ultimately have "fork_reachable (example_synced 2 (fst (example_switch 1 2 1000 example_fork_start)))"
    by (rule example_reachable_switch)
  moreover have "fresh_id 2000 (replicate 16 1) (example_synced 2 (fst (example_switch 1 2 1000 example_fork_start)))"
    using example_first example_keys by (simp add: fresh_id_def example_synced_def map_of_eq_None_iff flip: set_map)
  ultimately show ?thesis unfolding example_fork_back_def by (rule example_reachable_switch)
qed

lemma example_back:
  "pending example_fork_back = Some (example_event_key 2000 1)"
  "map_option reverted_by_event (om_get (events example_fork_back) (example_event_key 1000 2)) = Some None"
  "map_option new_tip (om_get (events example_fork_back) (example_event_key 2000 1)) = Some 10"
  "sync_tip example_fork_back = 10"
  "is_ok (reconcile_reorg_events example_fork_back)"
  by code_simp+

definition example_reconciled :: fork_state where
  "example_reconciled = projr (reconcile_reorg_events example_fork_back)"

lemma example_reconciled:
  "reconcile_reorg_events example_fork_back = Inr example_reconciled"
  using example_back(5) by (auto simp: example_reconciled_def is_ok_iff)

lemma example_links:
  "map_option reverses_events (om_get (events example_reconciled) (example_event_key 2000 1)) = Some [example_event_key 1000 2]"
  "om_get (events example_reconciled) (example_event_key 1000 2) \<noteq> None"
  by code_simp+

section \<open>Properties\<close>

text \<open>
  C16. In every state the indexer can reach, the two directions of the reversal links agree: an
  event names its reverser exactly when the reverser lists it, no event reverses itself and the
  lists are sorted without repetition. Every key is a well-formed history key; the first dropped
  block is missing exactly for a deep fork; and the pending marker names an automatic switch that
  was not interrupted.
\<close>

theorem fork_history_invariant:
  assumes "fork_reachable st"
  shows "(\<forall>k e r. om_get (events st) k = Some e \<longrightarrow>
      (reverted_by_event e = Some r \<longleftrightarrow> (\<exists>c. om_get (events st) r = Some c \<and> k \<in> set (reverses_events c)))) \<and>
    (\<forall>k e. om_get (events st) k = Some e \<longrightarrow> is_ok (decode_reorg_event_key k) \<and> reverted_by_event e \<noteq> Some k \<and>
      sorted (reverses_events e) \<and> distinct (reverses_events e) \<and> (first_orphan_hash e = None \<longleftrightarrow> ev_kind e = Deep)) \<and>
    (\<forall>k. pending st = Some k \<longrightarrow> (\<exists>e. om_get (events st) k = Some e \<and> ev_kind e = Automatic \<and> \<not> reconcile_interrupted e))"
proof -
  have inv: "fork_inv st" by (rule reachable_inv [OF assms])
  then have keys: "history_keys_fine (events st)" by (simp add: fork_inv_def)
  have fine: "event_fine (om_get (events st)) k e" if "om_get (events st) k = Some e" for k e
    using inv that by (simp add: fork_inv_def)
  have "reverted_by_event e = Some r \<longleftrightarrow> (\<exists>c. om_get (events st) r = Some c \<and> k \<in> set (reverses_events c))"
    if "om_get (events st) k = Some e" for k e r
    using fine [OF that] fine [of r] that by (fastforce simp: event_fine_def)
  moreover have "is_ok (decode_reorg_event_key k) \<and> reverted_by_event e \<noteq> Some k \<and>
      sorted (reverses_events e) \<and> distinct (reverses_events e) \<and> (first_orphan_hash e = None \<longleftrightarrow> ev_kind e = Deep)"
    if "om_get (events st) k = Some e" for k e
    using fine [OF that] history_key_ok [OF keys that] by (auto simp: event_fine_def)
  ultimately show ?thesis using inv unfolding fork_inv_def by blast
qed

theorem fork_history_invariant_witness:
  "map_option reverted_by_event (om_get (events example_reconciled) (example_event_key 1000 2)) = Some (Some (example_event_key 2000 1))"
proof -
  have "fork_reachable example_reconciled"
    by (rule fork_reachable.step [OF example_back_reachable fork_step.reconcile [OF example_reconciled]])
  from fork_history_invariant [OF this] show ?thesis using example_links by fastforce
qed

text \<open>
  C17. Once replay has reached the new tip of the pending switch, its reconciliation succeeds
  exactly when the fork point is still canonical, the headers it needs are stored and an earlier
  note of a replaced tip agrees. It then notes the hash that replaced the observed tip, if one
  did; marks as reversed by it exactly the open earlier switches whose abandoned tip is canonical
  again, lists them, and leaves every other event as it was; and the marker stays exactly when the
  abandoned tip of an open earlier switch is still ahead.
\<close>

theorem reconcile_exact:
  assumes "fork_reachable st" and "pending st = Some key" and "om_get (events st) key = Some c" and "new_tip c \<le> sync_tip st"
  shows "(is_ok (reconcile_reorg_events st) \<longleftrightarrow> reconcilable st key c) \<and>
    (\<forall>st'. reconcile_reorg_events st = Inr st' \<longrightarrow>
      (\<forall>k. om_get (events st') k = (if k = key then Some (linked_event st key c)
         else map_option (after_mark st key (fork_point c) k) (om_get (events st) k))) \<and>
      pending st' = (if \<exists>k e. om_get (events st) k = Some e \<and> waiting st key (fork_point c) k e then Some key else None))"
  using reconcile_ok [OF reachable_inv [OF assms(1)] assms(2-4)] reconcile_result [OF reachable_inv [OF assms(1)] assms(2-4)]
  by blast

theorem reconcile_exact_witness:
  "\<exists>e. om_get (events example_fork_back) (example_event_key 1000 2) = Some e \<and>
     om_get (events example_reconciled) (example_event_key 1000 2) =
       Some (after_mark example_fork_back (example_event_key 2000 1) 9 (example_event_key 1000 2) e)"
proof -
  obtain c where c: "om_get (events example_fork_back) (example_event_key 2000 1) = Some c" "new_tip c \<le> sync_tip example_fork_back"
    using example_back(3,4) by auto
  have f: "fork_point c = 9"
  proof -
    have "map_option fork_point (om_get (events example_fork_back) (example_event_key 2000 1)) = Some 9" by code_simp
    then show ?thesis using c(1) by simp
  qed
  obtain e where e: "om_get (events example_fork_back) (example_event_key 1000 2) = Some e" using example_back(2) by auto
  from reconcile_exact [OF example_back_reachable example_back(1) c] show ?thesis
    using example_reconciled e f example_keys(3) by auto
qed

text \<open>
  C31. Paging through the history: in every reachable state a page is the given number of newest
  events below the cursor, newest first, and the page after it, read from the key of its last
  row, continues it with no row lost or repeated.
\<close>

theorem history_pages_exact:
  assumes "fork_reachable st" and "case cursor of None \<Rightarrow> True | Some k \<Rightarrow> is_ok (decode_reorg_event_key k)" and "0 < n"
  shows "list_reorg_events (Some n) cursor st = Inr (take n (history_below cursor st)) \<and>
    (history_below cursor st \<noteq> [] \<longrightarrow>
      list_reorg_events (Some m) (Some (rec_key (last (take n (history_below cursor st))))) st =
        Inr (take m (drop n (history_below cursor st))))"
proof -
  have keys: "history_keys_fine (events st)" using reachable_inv [OF assms(1)] by (simp add: fork_inv_def)
  let ?h = "history_below cursor st"
  have cur: "is_ok (decode_reorg_event_key k)" if "cursor = Some k" for k using assms(2) that by simp
  have list: "list_reorg_events (Some l) cur' st = Inr (take l (history_below cur' st))"
    if "\<And>k. cur' = Some k \<Longrightarrow> is_ok (decode_reorg_event_key k)" for l cur'
    using list_reorg_events_result [OF keys that, where limit = "Some l"] by (simp add: history_below_def)
  have "list_reorg_events (Some m) (Some (rec_key (last (take n ?h)))) st = Inr (take m (drop n ?h))" if ne: "?h \<noteq> []"
  proof -
    let ?k = "rec_key (last (take n ?h))"
    have mem: "last (take n ?h) \<in> set ?h" using ne assms(3) by (intro in_set_takeD [OF last_in_set]) simp
    then have "is_ok (decode_reorg_event_key ?k)" using keys history_below_key by blast
    then have "list_reorg_events (Some m) (Some ?k) st = Inr (take m (history_below (Some ?k) st))" by (intro list) simp
    moreover have "history_below (Some ?k) st = drop n ?h"
      using rev_sorted_below [OF history_below_sorted [OF keys] assms(3) ne] history_below_restrict [OF mem] by simp
    ultimately show ?thesis by simp
  qed
  then show ?thesis using list [OF cur] by blast
qed

theorem history_pages_exact_witness:
  "list_reorg_events (Some 1) (Some (example_event_key 2000 1)) example_fork_back =
     Inr (drop 1 (history_below None example_fork_back))"
proof -
  have h: "length (history_below None example_fork_back) = 2"
    "map rec_key (take 1 (history_below None example_fork_back)) = [example_event_key 2000 1]" by code_simp+
  have ne: "history_below None example_fork_back \<noteq> []" using h(1) by auto
  have "rec_key (last (take 1 (history_below None example_fork_back))) = example_event_key 2000 1"
    using h(2) by auto
  then show ?thesis using history_pages_exact [OF example_back_reachable, of None 1 1] ne h(1) by simp
qed

text \<open>
  C18. A switch that succeeds was allowed and is recorded: the stored headers above the fork point
  are a chain from it to the old tip, the undo log covers the fork point, the new event carries
  the two tips, the depth and the first dropped block and is the pending one, the deep-fork alarm
  is cleared, and of the older events only the pending one changed, to interrupted.
\<close>

theorem switch_recorded:
  assumes "keeps_history invalidate" and "keeps_history rollback" and "fresh_id ms uuid st"
    and "execute_reorg invalidate rollback ms uuid now f fh t th c ch st = (st', Inr res)"
  shows "linked_branch st f fh t th \<and> (\<exists>l. coverage_floor st = Some l \<and> l \<le> f) \<and> \<not> deep_fork_detected st' \<and>
    (\<exists>key e. encode_reorg_event_key ms uuid = Inr key \<and> pending st' = Some key \<and> om_get (events st') key = Some e \<and>
      ev_kind e = Automatic \<and> fork_point e = f \<and> fork_point_hash e = fh \<and> old_tip e = t \<and> old_tip_hash e = th \<and>
      new_tip e = c \<and> new_tip_hash e = ch \<and> depth e = t - f \<and> depth e = result_depth res \<and>
      first_orphan_hash e = map_option header_hash (headers st (f + 1)) \<and> orphaned_blocks e = result_orphaned_blocks res \<and>
      (\<forall>k. k \<noteq> key \<longrightarrow> om_get (events st') k = (if pending st = Some k
         then map_option (\<lambda>e. e\<lparr>reconcile_interrupted := True\<rparr>) (om_get (events st) k) else om_get (events st) k)))"
proof -
  obtain orphan st0 st1 st2 blocks txs where checks: "reorg_checks f fh t th st = Inr orphan"
    and inval: "invalidate f st = (st0, Inr ())" and begin': "begin_rollback NewForkEvent st0 = Inr st1"
    and roll: "rollback f st1 = (st2, Inr (blocks, txs))"
    and rec: "record_switch ms uuid (switch_event now f fh t th orphan c ch (int blocks) (int txs)) st2 = Inr st'"
    and res: "res = \<lparr>result_depth = t - f, result_orphaned_blocks = int blocks\<rparr>"
    using assms(4) by (auto simp: execute_reorg_def res_simps split: sum.splits prod.splits)
  have st0: "events st0 = events st" "pending st0 = pending st" using assms(1) inval unfolding keeps_history_def by (metis fst_conv)+
  have st2: "events st2 = events st1" using assms(2) roll unfolding keeps_history_def by (metis fst_conv)
  have "first_orphan_of_stored_branch st f fh t th = Inr orphan" and cover: "\<exists>l. coverage_floor st = Some l \<and> l \<le> f"
    using checks by (auto simp: reorg_checks_def res_simps ensure_rollback_within_entity_stats_coverage_def not_less split: option.splits)
  then have branch: "linked_branch st f fh t th" "map_option header_hash (headers st (f + 1)) = Some orphan"
    by (simp_all add: first_orphan_spec)
  obtain key where key: "encode_reorg_event_key ms uuid = Inr key"
    and st': "events st' = om_put key (switch_event now f fh t th orphan c ch (int blocks) (int txs)) (events st2)"
      "pending st' = Some key" "\<not> deep_fork_detected st'"
    using rec by (auto simp: record_switch_def res_simps)
  have "om_get (events st1) k = (if pending st = Some k
      then map_option (\<lambda>e. e\<lparr>reconcile_interrupted := True\<rparr>) (om_get (events st) k) else om_get (events st) k)" for k
    using begin' unfolding st0 [symmetric] by (auto simp: begin_rollback_def res_simps split: option.splits)
  then show ?thesis using branch cover key st' st2 res by (auto simp: switch_event_def)
qed

theorem switch_recorded_witness:
  "pending (fst (example_switch 1 2 1000 example_fork_start)) = Some (example_event_key 1000 2) \<and>
   linked_branch example_fork_start 9 (replicate 32 9) 10 (replicate 32 1)"
proof -
  have "is_ok (snd (example_switch 1 2 1000 example_fork_start))" by code_simp
  then obtain r where "example_switch 1 2 1000 example_fork_start = (fst (example_switch 1 2 1000 example_fork_start), Inr r)"
    by (metis is_ok_iff prod.collapse)
  moreover have "fresh_id 1000 (replicate 16 2) example_fork_start" by (simp add: fresh_id_def example_fork_start_def)
  ultimately show ?thesis using switch_recorded [OF example_keeps] example_keys(1) unfolding example_switch_def by fastforce
qed

end
