(* ===== verification/Spec2Isabelle.thy ===== *)
theory Spec2Isabelle
  imports Keys_Index Keys_Activity Keys_Sync Tx_Actions Undo_Batch Undo_Prune
    Exact_Ratio Fee_Rate Molecule Ledger Hodl Cell_Distribution Cell_Ages Fork_Search Fork_History
begin

text \<open>
  ckbadger is a block explorer for CKB: an indexer follows a node's chain and writes it into RocksDB
  column families, an API serves pages from them. This development verifies the parts of it on
  which the correctness of the stored data rests: the keys, the write paths of the store, what
  happens when the chain switches branches, the initial bulk build, the daily trackers, and a few
  pure routines whose results are shown to users. Paths below are relative to
  \<^verbatim>\<open>src/crates/\<close>.

  \<^bold>\<open>Conventions.\<close> An operation that can fail returns \<open>'a res\<close>: \<open>Inl (Bail _)\<close> is an error returned by
  the source, \<open>Inl (Panic _)\<close> a panic, and error texts are shortened. Operations on the database
  return the state they leave even when they fail. Words have the width of the source where
  wrap-around or a conversion matters (keys, sequence numbers, ratios, fork heights); where amounts
  are integers, the theory's own header says which bounds make that sound, and every check of the
  source on such a sum is kept. \<open>Prelude\<close> and \<open>Ordered_Map\<close> hold the shared vocabulary. Loops are
  structural recursion or \<open>function\<close> with a measure, with no fuel; the one loop that could run
  forever, the fork search, is a \<open>partial_function\<close> proved to return.

  \<^bold>\<open>Keys.\<close> \<open>Key_Codec\<close> states, as locales, what the store relies on: a key decodes to what was
  encoded, has a fixed width, two rows have two keys, a prefix scan returns exactly the rows of
  its prefix, byte order is page order, and a cursor lands where it should. \<open>Keys_Core\<close>,
  \<open>Keys_Index\<close>, \<open>Keys_Activity\<close>, \<open>Keys_Stats\<close> and \<open>Keys_Sync\<close> model
  \<^verbatim>\<open>ckbadger-store/src/keys.rs\<close> and interpret the locales on it; \<open>Token_Balance\<close> is
  \<^verbatim>\<open>common/src/token.rs\<close> over an abstract 256-bit integer; \<open>Tx_Actions\<close> is the action part of
  \<^verbatim>\<open>ckbadger-store/src/types.rs\<close> and \<^verbatim>\<open>global_bucket.rs\<close>. The properties on the fork-history keys
  are in \<open>Keys_Sync\<close>.

  \<^bold>\<open>Store.\<close> \<open>Rocks\<close> is the interface to RocksDB, the locale \<open>rocksdb\<close>: sorted rows, reads and
  iteration that may fail, atomic batches. \<open>Store_Schema\<close> has the column families, their write
  policies and the statistics routing of \<^verbatim>\<open>ckbadger-store/src/store.rs\<close>; \<open>Store\<close> has the handle,
  every public write path of it and the batch of \<^verbatim>\<open>batch.rs\<close>, with the guard of the append-only
  store. Shown: rows of the append-only store never change outside bulk sync, a commit is all or
  nothing, and its replay is accepted and writes nothing.

  \<^bold>\<open>Undo log.\<close> \<open>Undo_Log\<close> models \<^verbatim>\<open>ckbadger-store/src/undo_log_ops.rs\<close>,
  \<^verbatim>\<open>indexer/src/sync/undo.rs\<close> and the recording in \<^verbatim>\<open>indexer/src/db/writer.rs\<close>; \<open>Undo_Seq\<close>,
  \<open>Undo_Rollback\<close>, \<open>Undo_Batch\<close> and \<open>Undo_Prune\<close> show that sequence numbers are fresh, that a
  rollback restores the oldest pre-image, may be interrupted and repeated, succeeds when the
  database does, and undoes a whole journaled batch, and that pruning and probing are exact.

  \<^bold>\<open>Chain switches.\<close> \<open>Fork_Search\<close> is the detection of \<^verbatim>\<open>indexer/src/sync/reorg.rs\<close> against a node
  whose chain moves between two reads: it returns, within 41 reads, and its
  decision is sound, and exact when the node stands still. \<open>Fork_Events\<close> and \<open>Fork_History\<close> are the
  persisted history of \<^verbatim>\<open>indexer/src/db/writer/reorg.rs\<close> and its reads in
  \<^verbatim>\<open>ckbadger-store/src/sync_ops.rs\<close>: an invariant over all interleavings of recording,
  interruption and reconciliation, the exact effect of a reconciliation and of a switch, and
  paging without loss.

  \<^bold>\<open>Cell rollback.\<close> \<open>Cell_Rollback\<close> is the cell stage of \<open>rollback_to_block\<close> in
  \<^verbatim>\<open>ckbadger-store/src/reorg_ops.rs\<close>, by the recorded transactions and by the full scans.
  \<open>Cell_Deltas\<close>, \<open>Cell_Walk\<close>, \<open>Cell_Restore\<close> and \<open>Cell_Contexts\<close> show that on the rows of a chain
  history both succeed, leave the rows of the target block and collect the same deltas, the
  differences of the derived tables. \<open>Day_Clock\<close> is the interface of the two daily trackers, the
  locale \<open>day_tracker\<close>; \<open>Hodl\<close> and \<open>Cell_Distribution\<close> model \<^verbatim>\<open>indexer/src/db/writer/hodl_wave.rs\<close>
  and \<^verbatim>\<open>cell_distribution.rs\<close> with the repair of their stored states, and \<open>Cell_Ages\<close> joins the
  collected deltas to that repair.

  \<^bold>\<open>Bulk build.\<close> \<open>Interner\<close>, \<open>Live_Summary\<close>, \<open>Live_Cells\<close> and \<open>Sequencer\<close> model the files of those
  names under \<^verbatim>\<open>indexer/src/sync/\<close>; \<open>Ledger\<close> is the abstract unspent-output ledger, shown to be
  implemented by the sequencer, together with the safety of reclaiming identities.

  \<^bold>\<open>Pure routines.\<close> \<open>Decimal\<close>, \<open>Exact_Ratio\<close> and \<open>Fee_Rate\<close> are
  \<^verbatim>\<open>api/src/utils/exact_ratio.rs\<close> and \<^verbatim>\<open>exact_fee.rs\<close> (the latter over the locale \<open>biguint\<close>);
  \<open>Molecule\<close> is \<^verbatim>\<open>indexer/src/parser/molecule.rs\<close>.

  \<^bold>\<open>Parameters.\<close> RocksDB, the 256-bit and big integers, bincode, chrono's calendar, the clock, random
  identifiers, the node's store and the heap size of an allocation are not code of the repository.
  They are arguments, with locales or named hypotheses for what the code relies on, and each such
  hypothesis is met by a concrete instance in a witness. \<open>execute_reorg\<close> takes the rollback of the
  store and the reset of derived aggregates as arguments as well: only that they leave the fork
  history alone is used of them.

  \<^bold>\<open>Not modelled.\<close> Opening, tuning and metrics of RocksDB; the stages of a rollback after the cell
  stage, which delete transactions, blocks and statistics and rebuild aggregates from the deltas;
  the per-protocol parsers and writers and the reducers of the bulk build; the readers of single
  column families; the derived-data scheduler; the HTTP, WebSocket, command-line, crawler and
  terminal processes; the frontend. These are I/O, or repeat for one table what is shown here for
  the mechanism they share.
\<close>

end
